(* ===== verification/Prelude.thy ===== *)
theory Prelude
  imports Main "HOL-Library.Word" "HOL-Library.Monad_Syntax" "HOL-Library.Signed_Division"
begin

text \<open>
  Shared vocabulary of the development: the machine integers of the Rust sources as words,
  their arithmetic in the two build profiles (an overflow panics in a debug build and wraps
  in a release build), and the lemmas on words, lists and options that the component
  theories use.  A panic is the value \<open>None\<close> of the option type; a Rust \<open>Result\<close> is a
  sum with \<open>Inl\<close> for the error.
\<close>

unbundle bit_operations_syntax

named_theorems rust_arith \<open>definitions of the checked machine arithmetic\<close>

section \<open>Machine integers\<close>

type_synonym u8 = "8 word"
type_synonym u32 = "32 word"
type_synonym u64 = "64 word"
type_synonym i64 = "64 word" \<comment> \<open>read with \<open>sint\<close>; the cast between u64 and i64 is the identity\<close>

datatype profile = Debug | Release

definition in_i64 :: "int \<Rightarrow> bool" where
  "in_i64 x \<longleftrightarrow> - 9223372036854775808 \<le> x \<and> x < 9223372036854775808"

abbreviation i64_min :: i64 where
  "i64_min \<equiv> 9223372036854775808"

definition add_i64 :: "profile \<Rightarrow> i64 \<Rightarrow> i64 \<Rightarrow> i64 option" where
  [rust_arith]: "add_i64 pr a b =
     (if pr = Debug \<and> \<not> in_i64 (sint a + sint b) then None else Some (a + b))"

definition sub_i64 :: "profile \<Rightarrow> i64 \<Rightarrow> i64 \<Rightarrow> i64 option" where
  [rust_arith]: "sub_i64 pr a b =
     (if pr = Debug \<and> \<not> in_i64 (sint a - sint b) then None else Some (a - b))"

definition mul_i64 :: "profile \<Rightarrow> i64 \<Rightarrow> i64 \<Rightarrow> i64 option" where
  [rust_arith]: "mul_i64 pr a b =
     (if pr = Debug \<and> \<not> in_i64 (sint a * sint b) then None else Some (a * b))"

definition neg_i64 :: "profile \<Rightarrow> i64 \<Rightarrow> i64 option" where
  [rust_arith]: "neg_i64 pr a = (if pr = Debug \<and> a = i64_min then None else Some (- a))"

text \<open>Division truncates towards zero; by zero and \<open>MIN / -1\<close> panic in both profiles.\<close>

definition div_i64 :: "i64 \<Rightarrow> i64 \<Rightarrow> i64 option" where
  [rust_arith]: "div_i64 a b =
     (if b = 0 \<or> (a = i64_min \<and> b = - 1) then None
      else Some (word_of_int (sint a sdiv sint b)))"

definition add_u64 :: "profile \<Rightarrow> u64 \<Rightarrow> u64 \<Rightarrow> u64 option" where
  [rust_arith]: "add_u64 pr a b =
     (if pr = Debug \<and> 2 ^ 64 \<le> unat a + unat b then None else Some (a + b))"

definition mul_u64 :: "profile \<Rightarrow> u64 \<Rightarrow> u64 \<Rightarrow> u64 option" where
  [rust_arith]: "mul_u64 pr a b =
     (if pr = Debug \<and> 2 ^ 64 \<le> unat a * unat b then None else Some (a * b))"

definition add_u32 :: "profile \<Rightarrow> u32 \<Rightarrow> u32 \<Rightarrow> u32 option" where
  [rust_arith]: "add_u32 pr a b =
     (if pr = Debug \<and> 2 ^ 32 \<le> unat a + unat b then None else Some (a + b))"

definition div_u64 :: "u64 \<Rightarrow> u64 \<Rightarrow> u64 option" where
  [rust_arith]: "div_u64 a b = (if b = 0 then None else Some (a div b))"

subsection \<open>Exact arithmetic inside the range\<close>

lemma in_i64_sint [simp, intro]: "in_i64 (sint (a :: i64))"
  using sint_ge [of a] sint_lt [of a] by (simp add: in_i64_def)

lemma sint_bounds:
  "- 9223372036854775808 \<le> sint (a :: i64)" "sint (a :: i64) < 9223372036854775808"
  using sint_ge [of a] sint_lt [of a] by simp_all

lemma signed_take_bit_in_i64: "in_i64 x \<Longrightarrow> signed_take_bit 63 x = x"
  by (simp add: in_i64_def signed_take_bit_int_eq_self)

lemma sint_word_of_int_i64: "in_i64 x \<Longrightarrow> sint (word_of_int x :: i64) = x"
  by (simp add: sint_sbintrunc' signed_take_bit_in_i64)

lemma sint_add_exact: "in_i64 (sint a + sint b) \<Longrightarrow> sint (a + b :: i64) = sint a + sint b"
  by (simp add: sint_word_add signed_take_bit_in_i64)

lemma sint_sub_exact: "in_i64 (sint a - sint b) \<Longrightarrow> sint (a - b :: i64) = sint a - sint b"
  by (simp add: sint_word_diff signed_take_bit_in_i64)

lemma sint_mul_exact: "in_i64 (sint a * sint b) \<Longrightarrow> sint (a * b :: i64) = sint a * sint b"
  by (simp add: sint_word_mult signed_take_bit_in_i64)

lemma sint_i64_min [simp]: "sint i64_min = - 9223372036854775808"
  by simp

lemma sint_eq_iff: "sint (a :: i64) = sint b \<longleftrightarrow> a = b"
  by (auto intro: signed_word_eqI)

lemma sint_neg_exact: "a \<noteq> i64_min \<Longrightarrow> sint (- a :: i64) = - sint a"
proof -
  assume "a \<noteq> i64_min"
  then have "sint a \<noteq> sint i64_min" by (simp only: sint_eq_iff simp_thms)
  then have "in_i64 (- sint a)" using sint_bounds [of a] by (simp add: in_i64_def)
  then show ?thesis by (simp add: sint_word_minus signed_take_bit_in_i64)
qed

lemma sint_small: "uint (w :: i64) < 2 ^ 63 \<Longrightarrow> sint w = uint w"
  by (simp only: sint_uint) (rule signed_take_bit_int_eq_self, simp_all add: order_trans [OF _ unsigned_greater_eq])

subsection \<open>Division\<close>

lemma nonneg_div_le: "0 \<le> x \<Longrightarrow> 0 < c \<Longrightarrow> x div c \<le> (x :: int)"
proof -
  assume "0 \<le> x" "0 < c"
  then have "x div c \<le> c * (x div c)"
    using mult_right_mono [of 1 c "x div c"] by (simp add: pos_imp_zdiv_nonneg_iff)
  also have "\<dots> \<le> x" using \<open>0 < c\<close> by (simp add: mult.commute div_times_less_eq_dividend minus_mod_eq_mult_div [symmetric])
  finally show ?thesis .
qed

lemma sdiv_pos: "0 < d \<Longrightarrow> (x :: int) sdiv d = sgn x * (\<bar>x\<bar> div d)"
  by (simp add: signed_divide_int_def sgn_mult)

lemma sdiv_minus: "0 < d \<Longrightarrow> (- x) sdiv d = - ((x :: int) sdiv d)"
  by (simp add: sdiv_pos)

lemma abs_sdiv_le:
  assumes "0 < d"
  shows "\<bar>(x :: int) sdiv d\<bar> \<le> \<bar>x\<bar>"
proof -
  have "\<bar>x sdiv d\<bar> \<le> \<bar>x\<bar> div d" using assms by (simp add: sdiv_pos abs_mult sgn_if pos_imp_zdiv_nonneg_iff)
  also have "\<dots> \<le> \<bar>x\<bar>" using assms by (intro nonneg_div_le) simp_all
  finally show ?thesis .
qed

section \<open>Bytes and little-endian words\<close>

text \<open>
  \<open>le_word\<close> reads a byte list as a little-endian word and \<open>le_bytes n\<close> writes the low
  \<open>n\<close> bytes of a word; \<open>chunks\<close> cuts a list into runs of equal length.
\<close>

definition le_word :: "u8 list \<Rightarrow> 'a::len word" where
  "le_word bs = word_of_int (horner_sum uint 256 bs)"

definition le_bytes :: "nat \<Rightarrow> 'a::len word \<Rightarrow> u8 list" where
  "le_bytes n w = map (\<lambda>i. ucast (drop_bit (8 * i) w)) [0..<n]"

fun chunks :: "nat \<Rightarrow> 'a list \<Rightarrow> 'a list list" where
  "chunks k xs = (if k = 0 \<or> length xs < k then [] else take k xs # chunks k (drop k xs))"

declare chunks.simps [simp del]

lemma length_le_bytes [simp]: "length (le_bytes n w) = n"
  by (simp add: le_bytes_def)

lemma chunks_short [simp]: "length xs < k \<Longrightarrow> chunks k xs = []"
  by (subst chunks.simps) simp

lemma chunks_append: "0 < k \<Longrightarrow> length xs = k \<Longrightarrow> chunks k (xs @ ys) = xs # chunks k ys"
  by (subst chunks.simps) simp

lemma horner_sum_bytes_bounds:
  "0 \<le> horner_sum uint 256 (bs :: u8 list)" "horner_sum uint 256 (bs :: u8 list) < 256 ^ length bs"
proof (induction bs)
  case (Cons b bs)
  { case 1 show ?case using Cons.IH(1) by simp }
  { case 2
    have "uint b < 256" using uint_bounded [of b] by simp
    moreover have "horner_sum uint 256 bs \<le> 256 ^ length bs - 1" using Cons.IH(2) by simp
    ultimately show ?case by simp }
qed simp_all

lemma le_bytes_Suc: "le_bytes (Suc n) w = ucast w # le_bytes n (drop_bit 8 w)"
  by (simp add: le_bytes_def map_upt_Suc add.commute del: upt_Suc)

lemma horner_sum_le_bytes:
  "horner_sum uint 256 (le_bytes n w) = take_bit (8 * n) (uint (w :: 'a::len word))"
proof (induction n arbitrary: w)
  case 0
  then show ?case by (simp add: le_bytes_def)
next
  case (Suc n)
  have "take_bit (8 * Suc n) (uint w) = take_bit 8 (uint w) + 256 * take_bit (8 * n) (drop_bit 8 (uint w))"
    by (simp add: take_bit_eq_mod drop_bit_eq_div power_add zmod_zmult2_eq)
  moreover have "take_bit LENGTH('a) (uint w) = uint w"
    by (simp add: take_bit_int_eq_self uint_bounded)
  ultimately show ?case
    by (simp add: le_bytes_Suc Suc.IH unsigned_drop_bit_eq unsigned_ucast_eq)
qed

lemma le_word_le_bytes:
  "LENGTH('a::len) \<le> 8 * n \<Longrightarrow> le_word (le_bytes n w) = (w :: 'a word)"
proof -
  assume le: "LENGTH('a) \<le> 8 * n"
  have "uint w < 2 ^ (8 * n)"
    by (rule order.strict_trans2 [OF uint_bounded]) (simp add: le)
  then show ?thesis
    by (simp add: le_word_def horner_sum_le_bytes take_bit_int_eq_self)
qed

lemma chunks2 [simp]: "chunks 2 (a # b # xs) = [a, b] # chunks 2 xs"
  by (subst chunks.simps) simp

lemma le_bytes4: "le_bytes 4 w = [ucast w, ucast (drop_bit 8 w), ucast (drop_bit 16 w), ucast (drop_bit 24 w)]"
  by (simp add: le_bytes_def upt_rec)

text \<open>A text as its bytes.\<close>

definition bytes_of :: "string \<Rightarrow> u8 list" where
  "bytes_of s = map of_char s"

end
