(* ===== verification/Os.thy ===== *)
theory Os
  imports Prelude
begin

text \<open>
  The operating system as the tools see it: Rust's \<open>io::Error\<close> values and the record of
  the system calls the debugfs tool makes.  The kernel is not part of the sources, so every
  call is a field of the record, an argument of the definitions that use it; each takes the
  state of the world and returns its result and the next state.
\<close>

datatype error_kind = NotFound | InvalidData | Unsupported | OtherKind

datatype io_error =
    OsError "32 word"              \<comment> \<open>from_raw_os_error, last_os_error\<close>
  | CustomError error_kind string  \<comment> \<open>Error::new, Error::other\<close>

definition io_kind :: "io_error \<Rightarrow> error_kind" where
  "io_kind e = (case e of
     OsError n \<Rightarrow> if n = 2 then NotFound else OtherKind
   | CustomError k _ \<Rightarrow> k)"

text \<open>
  \<open>pread\<close> and \<open>pwrite\<close> are the raw calls (a count, or a negated errno); \<open>read\<close> and
  \<open>write\<close> are libc's (a count, or -1 with the error left in \<open>errno\<close>).  The reading calls
  take the caller's buffer and return it filled.
\<close>

record 'w tsf_sys =
  sys_open :: "string \<Rightarrow> 'w \<Rightarrow> (io_error + int) \<times> 'w"
  sys_pread :: "int \<Rightarrow> u8 list \<Rightarrow> int \<Rightarrow> 'w \<Rightarrow> (int \<times> u8 list) \<times> 'w"
  sys_pwrite :: "int \<Rightarrow> u8 list \<Rightarrow> int \<Rightarrow> 'w \<Rightarrow> int \<times> 'w"
  sys_lseek :: "int \<Rightarrow> int \<Rightarrow> 'w \<Rightarrow> 'w"
  sys_read :: "int \<Rightarrow> u8 list \<Rightarrow> 'w \<Rightarrow> (int \<times> u8 list) \<times> 'w"
  sys_write :: "int \<Rightarrow> u8 list \<Rightarrow> 'w \<Rightarrow> int \<times> 'w"
  sys_errno :: "'w \<Rightarrow> 32 word"

end
