(* ===== verification/Strings.thy ===== *)
theory Strings
  imports Os "HOL-Library.Char_ord" "HOL-Library.List_Lexorder" "HOL-Library.Product_Lexorder"
begin

text \<open>
  The string and path functions of Rust's standard library that the tsf-sync tool uses, on
  strings as lists of UTF-8 bytes.  Whitespace is the ASCII whitespace, which is all that the
  files and programs read here contain.
\<close>

section \<open>Prefixes, suffixes, whitespace\<close>

definition starts_with :: "string \<Rightarrow> string \<Rightarrow> bool" where
  "starts_with p s \<longleftrightarrow> take (length p) s = p"

definition strip_suffix :: "string \<Rightarrow> string \<Rightarrow> string option" where
  "strip_suffix q s =
     (if length q \<le> length s \<and> drop (length s - length q) s = q then Some (take (length s - length q) s) else None)"

definition newline :: char where "newline = CHR 0x0A"

definition is_space :: "char \<Rightarrow> bool" where
  "is_space c \<longleftrightarrow> of_char c \<in> {9, 10, 11, 12, 13, 32 :: nat}"

definition trim :: "string \<Rightarrow> string" where
  "trim s = rev (dropWhile is_space (rev (dropWhile is_space s)))"

text \<open>\<open>words acc s\<close>: the maximal runs of non-space characters; \<open>acc\<close> is the run read so far.\<close>

fun words :: "string \<Rightarrow> string \<Rightarrow> string list" where
  "words acc [] = (if acc = [] then [] else [acc])"
| "words acc (c # cs) =
     (if is_space c then (if acc = [] then words [] cs else acc # words [] cs)
      else words (acc @ [c]) cs)"

definition split_whitespace :: "string \<Rightarrow> string list" where
  "split_whitespace s = words [] s"

definition last_word :: "string \<Rightarrow> string option" where
  "last_word s = (let ws = split_whitespace s in if ws = [] then None else Some (last ws))"

text \<open>\<open>str::lines\<close>: pieces ended by a newline, an optional carriage return before it dropped.\<close>

definition chomp :: "string \<Rightarrow> string" where
  "chomp s = (if s \<noteq> [] \<and> last s = CHR 0x0D then butlast s else s)"

fun lines_acc :: "string \<Rightarrow> string \<Rightarrow> string list" where
  "lines_acc acc [] = (if acc = [] then [] else [acc])"
| "lines_acc acc (c # cs) = (if c = newline then chomp acc # lines_acc [] cs else lines_acc (acc @ [c]) cs)"

definition str_lines :: "string \<Rightarrow> string list" where
  "str_lines s = lines_acc [] s"

definition unlines :: "string list \<Rightarrow> string" where
  "unlines ls = concat (map (\<lambda>l. l @ [newline]) ls)"

section \<open>Numbers\<close>

definition is_digit :: "char \<Rightarrow> bool" where
  "is_digit c \<longleftrightarrow> 48 \<le> (of_char c :: nat) \<and> of_char c \<le> (57 :: nat)"

definition digit_val :: "char \<Rightarrow> nat" where
  "digit_val c = of_char c - 48"

definition digits_val :: "string \<Rightarrow> nat" where
  "digits_val ds = foldl (\<lambda>n c. 10 * n + digit_val c) 0 ds"

definition parse_digits :: "string \<Rightarrow> nat option" where
  "parse_digits s = (if s \<noteq> [] \<and> list_all is_digit s then Some (digits_val s) else None)"

text \<open>\<open>str::parse\<close> for u64 and i64: an optional sign, then digits in range.\<close>

definition parse_u64 :: "string \<Rightarrow> u64 option" where
  "parse_u64 s =
     do { n \<leftarrow> parse_digits (if starts_with ''+'' s then tl s else s);
          if n < 2 ^ 64 then Some (word_of_nat n) else None }"

definition parse_i64 :: "string \<Rightarrow> i64 option" where
  "parse_i64 s =
     (if starts_with ''-'' s
      then do { n \<leftarrow> parse_digits (tl s); if n \<le> 2 ^ 63 then Some (word_of_int (- int n)) else None }
      else do { n \<leftarrow> parse_digits (if starts_with ''+'' s then tl s else s);
                if n < 2 ^ 63 then Some (word_of_nat n) else None })"

text \<open>Decimal printing.\<close>

fun nat_digits :: "nat \<Rightarrow> string" where
  "nat_digits n = (if n = 0 then [] else nat_digits (n div 10) @ [char_of (48 + n mod 10)])"

declare nat_digits.simps [simp del]

definition show_nat :: "nat \<Rightarrow> string" where
  "show_nat n = (if n = 0 then ''0'' else nat_digits n)"

definition show_int :: "int \<Rightarrow> string" where
  "show_int i = (if i < 0 then ''-'' @ show_nat (nat (- i)) else show_nat (nat i))"

section \<open>Padding\<close>

text \<open>The width of a string is its number of characters: bytes that do not continue one.\<close>

definition char_count :: "string \<Rightarrow> nat" where
  "char_count s = length (filter (\<lambda>c. \<not> (128 \<le> (of_char c :: nat) \<and> of_char c \<le> (191 :: nat))) s)"

definition pad_right :: "nat \<Rightarrow> string \<Rightarrow> string" where
  "pad_right n s = s @ replicate (n - char_count s) (CHR '' '')"

definition em_dash :: string where
  "em_dash = map char_of [226, 128, 148 :: nat]"

section \<open>Paths\<close>

fun split_slash :: "string \<Rightarrow> string \<Rightarrow> string list" where
  "split_slash acc [] = [acc]"
| "split_slash acc (c # cs) = (if c = CHR ''/'' then acc # split_slash [] cs else split_slash (acc @ [c]) cs)"

definition path_join :: "string \<Rightarrow> string \<Rightarrow> string" where
  "path_join p s =
     (if starts_with ''/'' s then s
      else if p = [] \<or> last p = CHR ''/'' then p @ s else p @ ''/'' @ s)"

definition path_components :: "string \<Rightarrow> string list" where
  "path_components p = filter (\<lambda>c. c \<noteq> [] \<and> c \<noteq> ''.'') (split_slash [] p)"

definition file_name :: "string \<Rightarrow> string option" where
  "file_name p =
     (let cs = path_components p in if cs = [] \<or> last cs = ''..'' then None else Some (last cs))"

section \<open>The file system\<close>

text \<open>What the tools read from sysfs and procfs at one moment.\<close>

record fs =
  fs_read_dir :: "string \<Rightarrow> io_error + (io_error + string) list"
  fs_read_link :: "string \<Rightarrow> io_error + string"
  fs_read_to_string :: "string \<Rightarrow> io_error + string"
  fs_exists :: "string \<Rightarrow> bool"

section \<open>Lemmas\<close>

lemma starts_with_append [simp]: "starts_with p (p @ s)"
  by (simp add: starts_with_def)

lemma starts_with_iff: "starts_with p s \<longleftrightarrow> (\<exists>t. s = p @ t)"
  by (auto simp: starts_with_def) (metis append_take_drop_id)

lemma strip_suffix_append [simp]: "strip_suffix q (s @ q) = Some s"
  by (simp add: strip_suffix_def)

lemma strip_suffix_iff: "strip_suffix q s = Some t \<longleftrightarrow> s = t @ q"
  by (auto simp: strip_suffix_def) (metis append_take_drop_id)

lemma digit_char:
  assumes "k < 10"
  shows "is_digit (char_of (48 + k))" "digit_val (char_of (48 + k)) = k"
  using assms by (simp_all add: is_digit_def digit_val_def)

lemma digits_val_snoc: "digits_val (ds @ [c]) = 10 * digits_val ds + digit_val c"
  by (simp add: digits_val_def)

lemma nat_digits_props: "list_all is_digit (nat_digits n)" "digits_val (nat_digits n) = n"
proof (induction n rule: nat_digits.induct)
  case (1 n)
  { case 1 show ?case using "1.IH"(1) by (subst nat_digits.simps) (simp add: digit_char) }
  { case 2 show ?case using "1.IH"(2) by (subst nat_digits.simps) (simp add: digit_char digits_val_snoc digits_val_def [of "[]"]) }
qed

lemma show_nat_digits: "show_nat n \<noteq> []" "list_all is_digit (show_nat n)" "digits_val (show_nat n) = n"
proof -
  have "n \<noteq> 0 \<Longrightarrow> nat_digits n \<noteq> []" by (subst nat_digits.simps) simp
  moreover have "is_digit (CHR ''0'')" "digits_val ''0'' = 0"
    by (simp_all add: is_digit_def digits_val_def digit_val_def)
  ultimately show "show_nat n \<noteq> []" "list_all is_digit (show_nat n)" "digits_val (show_nat n) = n"
    by (simp_all add: show_nat_def nat_digits_props)
qed

lemma parse_digits_show: "parse_digits (show_nat n) = Some n"
  by (simp add: parse_digits_def show_nat_digits)

lemma digits_no_prefix:
  assumes "list_all is_digit s" "s \<noteq> []" "\<not> is_digit c"
  shows "\<not> starts_with [c] s"
  using assms by (cases s) (auto simp: starts_with_def)

lemma parse_u64_show: "n < 2 ^ 64 \<Longrightarrow> parse_u64 (show_nat n) = Some (word_of_nat n)"
  using digits_no_prefix [OF show_nat_digits(2,1), of "CHR ''+''" n]
  by (simp add: parse_u64_def parse_digits_show is_digit_def)

lemma lines_acc_append:
  "newline \<notin> set l \<Longrightarrow> lines_acc acc (l @ newline # rest) = chomp (acc @ l) # lines_acc [] rest"
  by (induction l arbitrary: acc) auto

text \<open>A line that reads back as it was written.\<close>

definition clean :: "string \<Rightarrow> bool" where
  "clean l \<longleftrightarrow> newline \<notin> set l \<and> chomp l = l"

lemma str_lines_unlines:
  assumes "list_all clean ls"
  shows "str_lines (unlines ls) = ls"
  using assms by (induction ls) (simp_all add: str_lines_def unlines_def lines_acc_append clean_def)

lemma words_append:
  assumes "\<forall>c \<in> set w. \<not> is_space c"
  shows "words acc (w @ rest) = words (acc @ w) rest"
  using assms by (induction w arbitrary: acc) auto

lemma words_space: "is_space c \<Longrightarrow> words [] (replicate n c @ rest) = words [] rest"
  by (induction n) simp_all

lemma split_two_words:
  assumes "\<forall>c \<in> set v. \<not> is_space c" "\<forall>c \<in> set w. \<not> is_space c" "v \<noteq> []" "w \<noteq> []" "is_space c" "0 < n"
  shows "split_whitespace (v @ replicate n c @ w) = [v, w]"
proof -
  obtain k where n: "n = Suc k" using assms(6) by (cases n) auto
  have "words [] w = [w]" using words_append [OF assms(2), of "[]" "[]"] assms(4) by simp
  then show ?thesis
    using assms words_append [OF assms(1), of "[]"] words_space [OF assms(5)]
    by (simp add: split_whitespace_def n)
qed

lemma trim_id: "s \<noteq> [] \<Longrightarrow> \<not> is_space (hd s) \<Longrightarrow> \<not> is_space (last s) \<Longrightarrow> trim s = s"
proof -
  assume s: "s \<noteq> []" "\<not> is_space (hd s)" "\<not> is_space (last s)"
  have "dropWhile is_space s = s" using s by (cases s) auto
  moreover have "dropWhile is_space (rev s) = rev s" using s by (cases "rev s") (auto simp: last_rev [symmetric] hd_rev)
  ultimately show ?thesis by (simp add: trim_def)
qed

end
