(* ===== verification/SyncMode.thy ===== *)
theory SyncMode
  imports Os
begin

text \<open>
  The synchronisation modes and the binary interface of /dev/tsf\_sync (src/sync\_mode.rs): the
  kernel parameter of each mode and the packed little-endian structures of 56 and 12 bytes,
  with their decoders and encoders and the round trips between them.
\<close>

datatype sync_mode = Ptp | Kernel | Iouring

definition as_kernel_param :: "sync_mode \<Rightarrow> u32" where
  "as_kernel_param m = (case m of Ptp \<Rightarrow> 0 | Kernel \<Rightarrow> 1 | Iouring \<Rightarrow> 2)"

definition sync_mode_fmt :: "sync_mode \<Rightarrow> string" where
  "sync_mode_fmt m = (case m of Ptp \<Rightarrow> ''ptp'' | Kernel \<Rightarrow> ''kernel'' | Iouring \<Rightarrow> ''iouring'')"

record tsf_snapshot =
  sn_card_index :: u32
  sn_phy_name_len :: u32
  sn_phy_name :: "u8 list"
  sn_tsf_ns :: i64
  sn_mono_ns :: i64

record tsf_adjustment =
  adj_card_index :: u32
  adj_delta_ns :: i64

abbreviation snapshot_size :: nat where "snapshot_size \<equiv> 56"
abbreviation adjustment_size :: nat where "adjustment_size \<equiv> 12"

text \<open>\<open>repr(C, packed)\<close>: the fields one after the other, without padding.\<close>

definition snapshot_bytes :: "tsf_snapshot \<Rightarrow> u8 list" where
  "snapshot_bytes s = le_bytes 4 (sn_card_index s) @ le_bytes 4 (sn_phy_name_len s) @ sn_phy_name s @
     le_bytes 8 (sn_tsf_ns s) @ le_bytes 8 (sn_mono_ns s)"

definition read_snapshot :: "u8 list \<Rightarrow> tsf_snapshot" where
  "read_snapshot bs =
     \<lparr>sn_card_index = le_word (take 4 bs), sn_phy_name_len = le_word (take 4 (drop 4 bs)),
      sn_phy_name = take 32 (drop 8 bs), sn_tsf_ns = le_word (take 8 (drop 40 bs)),
      sn_mono_ns = le_word (take 8 (drop 48 bs))\<rparr>"

definition adjustment_bytes :: "tsf_adjustment \<Rightarrow> u8 list" where
  "adjustment_bytes a = le_bytes 4 (adj_card_index a) @ le_bytes 8 (adj_delta_ns a)"

definition read_adjustment :: "u8 list \<Rightarrow> tsf_adjustment" where
  "read_adjustment bs = \<lparr>adj_card_index = le_word (take 4 bs), adj_delta_ns = le_word (take 8 (drop 4 bs))\<rparr>"

lemma length_snapshot_bytes: "length (sn_phy_name s) = 32 \<Longrightarrow> length (snapshot_bytes s) = 56"
  by (simp add: snapshot_bytes_def)

lemma length_adjustment_bytes [simp]: "length (adjustment_bytes a) = 12"
  by (simp add: adjustment_bytes_def)

lemma le_word_32 [simp]: "le_word (le_bytes 4 w) = (w :: u32)"
  by (rule le_word_le_bytes) simp

lemma le_word_64 [simp]: "le_word (le_bytes 8 w) = (w :: u64)"
  by (rule le_word_le_bytes) simp

lemma read_snapshot_bytes: "length (sn_phy_name s) = 32 \<Longrightarrow> read_snapshot (snapshot_bytes s @ rest) = s"
  by (simp add: read_snapshot_def snapshot_bytes_def)

lemma read_adjustment_bytes: "read_adjustment (adjustment_bytes a @ rest) = a"
  by (simp add: read_adjustment_def adjustment_bytes_def)

text \<open>A buffer of whole records.\<close>

definition records :: "nat \<Rightarrow> (u8 list \<Rightarrow> 'r) \<Rightarrow> nat \<Rightarrow> u8 list \<Rightarrow> 'r list" where
  "records k rd n bs = map (\<lambda>i. rd (take k (drop (i * k) bs))) [0..<n]"

lemma records_concat:
  assumes "\<And>x. x \<in> set xs \<Longrightarrow> length (enc x) = k \<and> rd (enc x) = x"
  shows "records k rd (length xs) (concat (map enc xs) @ rest) = xs"
  using assms
proof (induction xs)
  case (Cons x xs)
  have x: "length (enc x) = k" "rd (enc x) = x" using Cons.prems by simp_all
  have "records k rd (length (x # xs)) (concat (map enc (x # xs)) @ rest) =
    rd (enc x) # records k rd (length xs) (concat (map enc xs) @ rest)"
    using x(1) by (simp add: records_def upt_conv_Cons map_Suc_upt [symmetric] del: upt_Suc)
  then show ?case using Cons x(2) by simp
qed (simp add: records_def)

end
