(* ===== verification/Iouring.thy ===== *)
theory Iouring
  imports SyncMode
begin

text \<open>
  The io\_uring synchroniser of mode C (src/iouring\_sync.rs) over /dev/tsf\_sync: reading all
  snapshots, computing the adjustments of the secondaries, writing them back, the loop, and
  the search for the primary card.  The ring (io\_uring crate) is a record of its three
  operations; a completion carries the result and the bytes the kernel put into the buffer.
  The outer option is \<open>None\<close> for a panic.
\<close>

section \<open>The ring\<close>

datatype sqe = ReadSqe int nat | WriteSqe int "u8 list"

record 'w uring =
  ring_push :: "sqe \<Rightarrow> 'w \<Rightarrow> bool \<times> 'w"
  ring_submit_and_wait :: "'w \<Rightarrow> (io_error + unit) \<times> 'w"
  ring_next :: "'w \<Rightarrow> (int \<times> u8 list) option \<times> 'w"

definition ring_op :: "'w uring \<Rightarrow> sqe \<Rightarrow> 'w \<Rightarrow> (io_error + int \<times> u8 list) \<times> 'w" where
  "ring_op ring e w =
     (case ring_push ring e w of
        (False, w) \<Rightarrow> (Inl (CustomError OtherKind ''io_uring submission full''), w)
      | (True, w) \<Rightarrow>
          (case ring_submit_and_wait ring w of
             (Inl err, w) \<Rightarrow> (Inl err, w)
           | (Inr _, w) \<Rightarrow>
               (case ring_next ring w of
                  (None, w) \<Rightarrow> (Inl (CustomError OtherKind ''no io_uring completion''), w)
                | (Some (res, bytes), w) \<Rightarrow>
                    (if res < 0 then (Inl (OsError (word_of_int (- res))), w)
                     else (Inr (res, bytes), w)))))"

abbreviation max_cards :: nat where "max_cards \<equiv> 128"

record syncer =
  sy_fd :: int
  sy_primary_index :: u32
  sy_threshold_ns :: i64

section \<open>Reading and writing the device\<close>

text \<open>A count beyond the buffer would slice or read past its end, which is the outer \<open>None\<close>.\<close>

definition read_snapshots :: "'w uring \<Rightarrow> syncer \<Rightarrow> 'w \<Rightarrow> (io_error + tsf_snapshot list) option \<times> 'w" where
  "read_snapshots ring sy w =
     (case ring_op ring (ReadSqe (sy_fd sy) (snapshot_size * max_cards)) w of
        (Inl e, w) \<Rightarrow> (Some (Inl e), w)
      | (Inr (bytes_read, bytes), w) \<Rightarrow>
          (let buf = bytes @ drop (length bytes) (replicate (snapshot_size * max_cards) 0);
               count = nat bytes_read div snapshot_size
           in if count * snapshot_size \<le> length buf
              then (Some (Inr (records snapshot_size read_snapshot count buf)), w)
              else (None, w)))"

definition write_adjustments :: "'w uring \<Rightarrow> syncer \<Rightarrow> tsf_adjustment list \<Rightarrow> 'w \<Rightarrow> (io_error + unit) \<times> 'w" where
  "write_adjustments ring sy adjs w =
     (case ring_op ring (WriteSqe (sy_fd sy) (concat (map adjustment_bytes adjs))) w of
        (Inl e, w) \<Rightarrow> (Inl e, w)
      | (Inr _, w) \<Rightarrow> (Inr (), w))"

section \<open>One cycle\<close>

record sync_stats =
  cards_read :: u32
  adjustments_applied :: u32
  adjustments_skipped :: u32
  max_offset_ns :: i64

definition stats_default :: sync_stats where
  "stats_default = \<lparr>cards_read = 0, adjustments_applied = 0, adjustments_skipped = 0, max_offset_ns = 0\<rparr>"

fun adjust_loop ::
    "profile \<Rightarrow> syncer \<Rightarrow> i64 \<Rightarrow> tsf_snapshot list \<Rightarrow> tsf_adjustment list \<Rightarrow> sync_stats \<Rightarrow>
     (tsf_adjustment list \<times> sync_stats) option" where
  "adjust_loop pr sy primary_tsf [] adjs st = Some (adjs, st)"
| "adjust_loop pr sy primary_tsf (snap # snaps) adjs st =
     (if sn_card_index snap = sy_primary_index sy
      then adjust_loop pr sy primary_tsf snaps adjs st
      else do {
        delta \<leftarrow> sub_i64 pr primary_tsf (sn_tsf_ns snap);
        abs_delta \<leftarrow> (if delta <s 0 then neg_i64 pr delta else Some delta);
        let st = (if max_offset_ns st <s abs_delta then st\<lparr>max_offset_ns := abs_delta\<rparr> else st);
        (if sy_threshold_ns sy <s abs_delta
         then do {
           n \<leftarrow> add_u32 pr (adjustments_applied st) 1;
           adjust_loop pr sy primary_tsf snaps
             (adjs @ [\<lparr>adj_card_index = sn_card_index snap, adj_delta_ns = delta\<rparr>])
             (st\<lparr>adjustments_applied := n\<rparr>)
         }
         else do {
           n \<leftarrow> add_u32 pr (adjustments_skipped st) 1;
           adjust_loop pr sy primary_tsf snaps adjs (st\<lparr>adjustments_skipped := n\<rparr>)
         })
      })"

definition sync_once :: "profile \<Rightarrow> 'w uring \<Rightarrow> syncer \<Rightarrow> 'w \<Rightarrow> (io_error + sync_stats) option \<times> 'w" where
  "sync_once pr ring sy w =
     (case read_snapshots ring sy w of
        (None, w) \<Rightarrow> (None, w)
      | (Some (Inl e), w) \<Rightarrow> (Some (Inl e), w)
      | (Some (Inr snaps), w) \<Rightarrow>
          (let st = stats_default\<lparr>cards_read := word_of_nat (length snaps)\<rparr>
           in if snaps = [] then (Some (Inr st), w)
              else case find (\<lambda>s. sn_card_index s = sy_primary_index sy) snaps of
                     None \<Rightarrow> (Some (Inr st), w)
                   | Some s \<Rightarrow>
                       (case adjust_loop pr sy (sn_tsf_ns s) snaps [] st of
                          None \<Rightarrow> (None, w)
                        | Some (adjs, st) \<Rightarrow>
                            (if adjs = [] then (Some (Inr st), w)
                             else case write_adjustments ring sy adjs w of
                                    (Inl e, w) \<Rightarrow> (Some (Inl e), w)
                                  | (Inr _, w) \<Rightarrow> (Some (Inr st), w)))))"

text \<open>\<open>run\<close>: a failed cycle is only logged; \<open>None\<close> for a panic or a loop that never ends.\<close>

partial_function (option) iouring_run ::
    "profile \<Rightarrow> 'w uring \<Rightarrow> syncer \<Rightarrow> ('w \<Rightarrow> bool) \<Rightarrow> ('w \<Rightarrow> 'w) \<Rightarrow> 'w \<Rightarrow> 'w option" where
  "iouring_run pr ring sy running sleep w =
     (if running w
      then (case sync_once pr ring sy w of
              (None, w) \<Rightarrow> None
            | (Some _, w) \<Rightarrow> iouring_run pr ring sy running sleep (sleep w))
      else Some w)"

section \<open>Finding the primary card\<close>

text \<open>\<open>str::from_utf8\<close> of the standard library: well-formed UTF-8.\<close>

definition cont_byte :: "u8 \<Rightarrow> bool" where
  "cont_byte b \<longleftrightarrow> 0x80 \<le> b \<and> b \<le> 0xBF"

fun valid_utf8 :: "u8 list \<Rightarrow> bool" where
  "valid_utf8 [] = True"
| "valid_utf8 (a # bs) =
     (if a < 0x80 then valid_utf8 bs
      else case bs of
        [] \<Rightarrow> False
      | b # cs \<Rightarrow>
          if 0xC2 \<le> a \<and> a \<le> 0xDF then cont_byte b \<and> valid_utf8 cs
          else (case cs of
            [] \<Rightarrow> False
          | c # ds \<Rightarrow>
              if 0xE0 \<le> a \<and> a \<le> 0xEF
              then cont_byte b \<and> (a = 0xE0 \<longrightarrow> 0xA0 \<le> b) \<and> (a = 0xED \<longrightarrow> b \<le> 0x9F) \<and> cont_byte c \<and> valid_utf8 ds
              else (case ds of
                [] \<Rightarrow> False
              | d # es \<Rightarrow>
                  0xF0 \<le> a \<and> a \<le> 0xF4 \<and> cont_byte b \<and> (a = 0xF0 \<longrightarrow> 0x90 \<le> b) \<and> (a = 0xF4 \<longrightarrow> b \<le> 0x8F) \<and>
                  cont_byte c \<and> cont_byte d \<and> valid_utf8 es)))"

definition trim_end_nul :: "u8 list \<Rightarrow> u8 list" where
  "trim_end_nul bs = rev (dropWhile (\<lambda>b. b = 0) (rev bs))"

definition snapshot_name :: "tsf_snapshot \<Rightarrow> u8 list" where
  "snapshot_name s =
     (let name = take (min (unat (sn_phy_name_len s)) 32) (sn_phy_name s)
      in trim_end_nul (if valid_utf8 name then name else []))"

definition find_primary_index :: "'w tsf_sys \<Rightarrow> u8 list \<Rightarrow> 'w \<Rightarrow> (io_error + u32) option \<times> 'w" where
  "find_primary_index sys primary_phy w =
     (case sys_open sys ''/dev/tsf_sync'' w of
        (Inl e, w) \<Rightarrow> (Some (Inl e), w)
      | (Inr fd, w) \<Rightarrow>
          (case sys_read sys fd (replicate (snapshot_size * max_cards) 0) w of
             ((r, buf), w) \<Rightarrow>
               (if r < 0 then (Some (Inl (OsError (sys_errno sys w))), w)
                else let count = nat r div snapshot_size
                     in if count * snapshot_size \<le> length buf
                        then (Some (case find (\<lambda>s. snapshot_name s = primary_phy)
                                           (records snapshot_size read_snapshot count buf) of
                                      Some s \<Rightarrow> Inr (sn_card_index s)
                                    | None \<Rightarrow> Inl (CustomError NotFound ''primary phy not found in /dev/tsf_sync'')), w)
                        else (None, w))))"

text \<open>
  \<open>IoUringSyncer::new\<close>: the device opened for reading and writing, then the ring, whose creation
  is the crate's.
\<close>

definition syncer_new ::
    "'w tsf_sys \<Rightarrow> ('w \<Rightarrow> (io_error + unit) \<times> 'w) \<Rightarrow> u32 \<Rightarrow> i64 \<Rightarrow> 'w \<Rightarrow> (io_error + syncer) \<times> 'w" where
  "syncer_new sys ring_new primary_index threshold_ns w =
     (case sys_open sys ''/dev/tsf_sync'' w of
        (Inl e, w) \<Rightarrow> (Inl e, w)
      | (Inr fd, w) \<Rightarrow>
          (case ring_new w of
             (Inl e, w) \<Rightarrow> (Inl e, w)
           | (Inr _, w) \<Rightarrow>
               (Inr \<lparr>sy_fd = fd, sy_primary_index = primary_index, sy_threshold_ns = threshold_ns\<rparr>, w)))"

end
