(* ===== verification/Host.thy ===== *)
theory Host
  imports Strings Iouring
begin

text \<open>
  The system under the tsf-sync tool, as a record of the operations the tool calls on it: files,
  commands run to their end, child processes, time, printing, the flags a signal handler clears,
  the device and the ring of mode C, threads (which the host runs beside the caller, each given by
  its body), and the build profile.
  Each operation takes the state of the world and returns its result and the next state.
\<close>

record cmd_output =
  out_success :: bool
  out_stdout :: string
  out_stderr :: string

text \<open>
  The state of the signal handlers in this process: whether the handler has been installed, which
  flag it clears, and the flags themselves, numbered as they are created.
\<close>

record sig_state =
  sig_once :: bool
  sig_handler :: "nat option"
  sig_flags :: "bool list"

record 'w host =
  h_fs :: "'w \<Rightarrow> fs"
  h_output :: "string \<Rightarrow> string list \<Rightarrow> 'w \<Rightarrow> (io_error + cmd_output) \<times> 'w"
  h_spawn :: "string \<Rightarrow> string list \<Rightarrow> 'w \<Rightarrow> (io_error + nat) \<times> 'w"
  h_try_wait :: "nat \<Rightarrow> 'w \<Rightarrow> (io_error + int option) \<times> 'w"
  h_sigterm :: "nat \<Rightarrow> 'w \<Rightarrow> 'w"
  h_kill :: "nat \<Rightarrow> 'w \<Rightarrow> (io_error + unit) \<times> 'w"
  h_wait :: "nat \<Rightarrow> 'w \<Rightarrow> (io_error + unit) \<times> 'w"
  h_sleep :: "nat \<Rightarrow> 'w \<Rightarrow> 'w"
  h_print :: "string \<Rightarrow> 'w \<Rightarrow> 'w"
  h_write_file :: "string \<Rightarrow> string \<Rightarrow> 'w \<Rightarrow> (io_error + unit) \<times> 'w"
  h_show_error :: "io_error \<Rightarrow> string"
  h_signals :: "'w \<Rightarrow> sig_state"
  h_set_signals :: "sig_state \<Rightarrow> 'w \<Rightarrow> 'w"
  h_tsf_sys :: "'w tsf_sys"
  h_ring_new :: "'w \<Rightarrow> (io_error + unit) \<times> 'w"
  h_ring :: "'w uring"
  h_profile :: profile
  h_thread :: "('w \<Rightarrow> 'w option) \<Rightarrow> 'w \<Rightarrow> nat \<times> 'w"

text \<open>\<open>ParseIntError\<close> as it is printed.\<close>

fun digits_error :: "nat \<Rightarrow> string \<Rightarrow> nat \<Rightarrow> string \<Rightarrow> string" where
  "digits_error bound overflow acc [] = []"
| "digits_error bound overflow acc (c # cs) =
     (if \<not> is_digit c then ''invalid digit found in string''
      else if bound < 10 * acc + digit_val c then overflow
      else digits_error bound overflow (10 * acc + digit_val c) cs)"

definition i64_error :: "string \<Rightarrow> string" where
  "i64_error s =
     (if s = [] then ''cannot parse integer from empty string''
      else if s = ''+'' \<or> s = ''-'' then ''invalid digit found in string''
      else if starts_with ''-'' s then digits_error (2 ^ 63) ''number too small to fit in target type'' 0 (tl s)
      else digits_error (2 ^ 63 - 1) ''number too large to fit in target type'' 0
             (if starts_with ''+'' s then tl s else s))"

definition u64_error :: "string \<Rightarrow> string" where
  "u64_error s =
     (if s = [] then ''cannot parse integer from empty string''
      else if s = ''+'' \<or> s = ''-'' then ''invalid digit found in string''
      else digits_error (2 ^ 64 - 1) ''number too large to fit in target type'' 0
             (if starts_with ''+'' s then tl s else s))"

end
