(* ===== verification/Ptp4l.thy ===== *)
theory Ptp4l
  imports Host
begin

text \<open>
  The linuxptp processes (src/ptp4l.rs): spawning with its errors, the test whether a process
  runs, the graceful stop with its fifty polls and the kill after them, the stop on drop, the
  command lines of phc2sys and ptp4l and the place of the phc2sys binary.
\<close>

section \<open>A process\<close>

datatype sync_error =
    StartError string io_error
  | NotFoundError string
  | ExitedError string "32 word"
  | StopError string string

record sync_process =
  sp_child :: nat
  sp_name :: string

definition spawn :: "'w host \<Rightarrow> string \<Rightarrow> string list \<Rightarrow> string \<Rightarrow> 'w \<Rightarrow> (sync_error + sync_process) \<times> 'w" where
  "spawn host bin args name w =
     (case h_spawn host bin args w of
        (Inl e, w) \<Rightarrow> (Inl (if io_kind e = NotFound then NotFoundError bin else StartError name e), w)
      | (Inr child, w) \<Rightarrow> (Inr \<lparr>sp_child = child, sp_name = name\<rparr>, w))"

text \<open>The lines a log thread forwards: it ends at the first line that cannot be read.\<close>

fun forward_lines :: "(io_error + string) list \<Rightarrow> string list" where
  "forward_lines [] = []"
| "forward_lines (Inr l # ls) = l # forward_lines ls"
| "forward_lines (Inl _ # ls) = []"

text \<open>The threads that log the output of a process: its stdout as information, its stderr as warnings.\<close>

datatype log_level = LogInfo | LogWarn

definition stdout_thread :: "(io_error + string) list \<Rightarrow> (log_level \<times> string) list" where
  "stdout_thread ls = map (Pair LogInfo) (forward_lines ls)"

definition stderr_thread :: "(io_error + string) list \<Rightarrow> (log_level \<times> string) list" where
  "stderr_thread ls = map (Pair LogWarn) (forward_lines ls)"

definition is_running :: "'w host \<Rightarrow> sync_process \<Rightarrow> 'w \<Rightarrow> bool \<times> 'w" where
  "is_running host p w =
     (case h_try_wait host (sp_child p) w of
        (Inr None, w) \<Rightarrow> (True, w)
      | (_, w) \<Rightarrow> (False, w))"

text \<open>The polls: whether one of them saw the process end.\<close>

fun poll_exit :: "'w host \<Rightarrow> nat \<Rightarrow> nat \<Rightarrow> 'w \<Rightarrow> bool \<times> 'w" where
  "poll_exit host pid 0 w = (False, w)"
| "poll_exit host pid (Suc n) w =
     (case h_try_wait host pid w of
        (Inr (Some _), w) \<Rightarrow> (True, w)
      | (_, w) \<Rightarrow> poll_exit host pid n (h_sleep host 100 w))"

definition stop_process :: "'w host \<Rightarrow> sync_process \<Rightarrow> 'w \<Rightarrow> (sync_error + unit) \<times> 'w" where
  "stop_process host p w =
     (case poll_exit host (sp_child p) 50 (h_sigterm host (sp_child p) w) of
        (True, w) \<Rightarrow> (Inr (), w)
      | (False, w) \<Rightarrow>
          (case h_kill host (sp_child p) w of
             (Inl e, w) \<Rightarrow> (Inl (StopError (sp_name p) (h_show_error host e)), w)
           | (Inr _, w) \<Rightarrow>
               (case h_wait host (sp_child p) w of
                  (Inl e, w) \<Rightarrow> (Inl (StopError (sp_name p) (h_show_error host e)), w)
                | (Inr _, w) \<Rightarrow> (Inr (), w))))"

definition drop_process :: "'w host \<Rightarrow> sync_process \<Rightarrow> 'w \<Rightarrow> 'w" where
  "drop_process host p w =
     (case is_running host p w of
        (True, w) \<Rightarrow> snd (stop_process host p w)
      | (False, w) \<Rightarrow> w)"

section \<open>Command lines\<close>

definition arrow :: string where
  "arrow = map char_of [226, 134, 146 :: nat]"

definition phc2sys_args :: "string \<Rightarrow> string \<Rightarrow> string list" where
  "phc2sys_args primary_clock secondary_clock =
     [''-s'', primary_clock, ''-c'', secondary_clock, ''-R'', ''10'', ''-O'', ''0'', ''-m'']"

definition start_phc2sys :: "'w host \<Rightarrow> string \<Rightarrow> string \<Rightarrow> string \<Rightarrow> 'w \<Rightarrow> (sync_error + sync_process) \<times> 'w" where
  "start_phc2sys host primary_clock secondary_clock phc2sys_bin w =
     spawn host phc2sys_bin (phc2sys_args primary_clock secondary_clock)
       (''phc2sys['' @ primary_clock @ arrow @ secondary_clock @ '']'') w"

definition start_ptp4l :: "'w host \<Rightarrow> string \<Rightarrow> string \<Rightarrow> 'w \<Rightarrow> (sync_error + sync_process) \<times> 'w" where
  "start_ptp4l host config_path ptp4l_bin w = spawn host ptp4l_bin [''-f'', config_path, ''-m''] ''ptp4l'' w"

text \<open>
  \<open>Path::parent\<close>: the path without its last component; separators and dots at the end do not
  count, the root stays, and neither the root nor the empty path has a parent.
\<close>

function trim_segments :: "string list \<Rightarrow> string list" where
  "trim_segments ss =
     (if 1 < length ss \<and> (last ss = [] \<or> last ss = ''.'') then trim_segments (butlast ss) else ss)"
  by pat_completeness auto
termination by (relation "measure length") auto

declare trim_segments.simps [simp del]

fun join_slash :: "string list \<Rightarrow> string" where
  "join_slash [] = []"
| "join_slash [s] = s"
| "join_slash (s # t # ss) = s @ ''/'' @ join_slash (t # ss)"

definition path_parent :: "string \<Rightarrow> string option" where
  "path_parent p =
     (let ss = trim_segments (split_slash [] p)
      in if ss = [[]] then None
         else if butlast ss = [] then Some []
         else let ts = trim_segments (butlast ss) in Some (if ts = [[]] then ''/'' else join_slash ts))"

definition phc2sys_bin_from :: "string \<Rightarrow> string" where
  "phc2sys_bin_from linuxptp_bin =
     (case path_parent linuxptp_bin of
        Some dir \<Rightarrow> if dir = [] then ''phc2sys'' else path_join dir ''phc2sys''
      | None \<Rightarrow> ''phc2sys'')"

section \<open>The process table\<close>

text \<open>
  What stopping relies on, as documented for the operations on child processes: \<open>child\<close> are the
  processes spawned and not yet forgotten, \<open>alive\<close> those that have not ended.  A poll that does
  not report a running process has seen that it ended; a child can be killed and waited for, and
  is dead then; no operation brings a dead process back, and only spawning makes one.
\<close>

definition no_revival :: "(nat \<Rightarrow> 'w \<Rightarrow> bool) \<Rightarrow> (nat \<Rightarrow> 'w \<Rightarrow> bool) \<Rightarrow> 'w \<Rightarrow> 'w \<Rightarrow> bool" where
  "no_revival child alive w w' \<longleftrightarrow> (\<forall>q. (alive q w' \<longrightarrow> alive q w) \<and> (child q w \<longrightarrow> child q w'))"

lemma no_revival_refl [simp]: "no_revival child alive w w"
  by (simp add: no_revival_def)

lemma no_revival_trans [trans]:
  "no_revival child alive u v \<Longrightarrow> no_revival child alive v w \<Longrightarrow> no_revival child alive u w"
  by (simp add: no_revival_def)

lemma no_revival_dead: "no_revival child alive w w' \<Longrightarrow> \<not> alive p w \<Longrightarrow> \<not> alive p w'"
  by (auto simp: no_revival_def)

lemma no_revival_child: "no_revival child alive w w' \<Longrightarrow> child p w \<Longrightarrow> child p w'"
  by (auto simp: no_revival_def)

locale process_table =
  fixes host :: "'w host" and child :: "nat \<Rightarrow> 'w \<Rightarrow> bool" and alive :: "nat \<Rightarrow> 'w \<Rightarrow> bool"
  assumes try_wait_keeps: "h_try_wait host p w = (r, w') \<Longrightarrow> no_revival child alive w w'"
    and try_wait_dead: "h_try_wait host p w = (r, w') \<Longrightarrow> child p w \<Longrightarrow> r \<noteq> Inr None \<Longrightarrow> \<not> alive p w'"
    and kill_keeps: "h_kill host p w = (k, w') \<Longrightarrow> no_revival child alive w w'"
    and kill_ok: "h_kill host p w = (k, w') \<Longrightarrow> child p w \<Longrightarrow> k = Inr ()"
    and wait_keeps: "h_wait host p w = (k, w') \<Longrightarrow> no_revival child alive w w'"
    and wait_dead: "h_wait host p w = (k, w') \<Longrightarrow> child p w \<Longrightarrow> k = Inr () \<and> \<not> alive p w'"
    and sigterm_keeps: "no_revival child alive w (h_sigterm host p w)"
    and sleep_keeps: "no_revival child alive w (h_sleep host n w)"
    and set_signals_keeps: "no_revival child alive w (h_set_signals host sg w)"
    and output_keeps: "h_output host cmd args w = (ro, w') \<Longrightarrow> no_revival child alive w w'"
    and spawn_fail_keeps: "h_spawn host cmd args w = (Inl e, w') \<Longrightarrow> no_revival child alive w w'"
    and spawn_child: "h_spawn host cmd args w = (Inr p, w') \<Longrightarrow> child p w'"
    and spawn_alive: "h_spawn host cmd args w = (Inr p, w') \<Longrightarrow> alive q w' \<Longrightarrow> alive q w \<or> q = p"
    and spawn_children: "h_spawn host cmd args w = (Inr p, w') \<Longrightarrow> child q w \<Longrightarrow> child q w'"
begin

abbreviation keeps :: "'w \<Rightarrow> 'w \<Rightarrow> bool" where "keeps \<equiv> no_revival child alive"

lemma poll_exit_dead:
  "poll_exit host p n w = (b, w') \<Longrightarrow> child p w \<Longrightarrow> keeps w w' \<and> (b \<longrightarrow> \<not> alive p w')"
proof (induction n arbitrary: w)
  case (Suc n)
  obtain r w1 where r: "h_try_wait host p w = (r, w1)" by fastforce
  note k1 = try_wait_keeps [OF r]
  show ?case
  proof (cases "\<exists>c. r = Inr (Some c)")
    case True
    then show ?thesis using Suc.prems r k1 try_wait_dead [OF r Suc.prems(2)] by auto
  next
    case False
    then have "poll_exit host p n (h_sleep host 100 w1) = (b, w')"
      using Suc.prems(1) r by (auto split: sum.splits option.splits)
    moreover have k2: "keeps w (h_sleep host 100 w1)" by (rule no_revival_trans [OF k1 sleep_keeps])
    ultimately show ?thesis
      using Suc.IH no_revival_child [OF k2 Suc.prems(2)] no_revival_trans [OF k2] by blast
  qed
qed simp

lemma stop_process_dead:
  assumes "stop_process host p w = (r, w')" "child (sp_child p) w"
  shows "r = Inr () \<and> \<not> alive (sp_child p) w' \<and> keeps w w'"
proof -
  obtain b w1 where b: "poll_exit host (sp_child p) 50 (h_sigterm host (sp_child p) w) = (b, w1)" by fastforce
  note k0 = sigterm_keeps [of w "sp_child p"]
  note poll = poll_exit_dead [OF b no_revival_child [OF k0 assms(2)]]
  note k1 = no_revival_trans [OF k0 conjunct1 [OF poll]]
  note c1 = no_revival_child [OF k1 assms(2)]
  show ?thesis
  proof (cases b)
    case True
    then show ?thesis using assms(1) b poll k1 by (simp add: stop_process_def)
  next
    case False
    obtain x w2 where x: "h_kill host (sp_child p) w1 = (x, w2)" by fastforce
    obtain y w3 where y: "h_wait host (sp_child p) w2 = (y, w3)" by fastforce
    note k2 = no_revival_trans [OF k1 kill_keeps [OF x]]
    note k3 = no_revival_trans [OF k2 wait_keeps [OF y]]
    show ?thesis
      using assms(1) b False x y k3 kill_ok [OF x c1] wait_dead [OF y no_revival_child [OF k2 assms(2)]]
      by (simp add: stop_process_def)
  qed
qed

lemma is_running_dead:
  assumes "is_running host p w = (b, w')" "child (sp_child p) w"
  shows "keeps w w' \<and> (\<not> b \<longrightarrow> \<not> alive (sp_child p) w')"
proof -
  obtain r w1 where r: "h_try_wait host (sp_child p) w = (r, w1)" by fastforce
  then have "w' = w1" "b \<longleftrightarrow> r = Inr None"
    using assms(1) by (auto simp: is_running_def split: sum.splits option.splits)
  then show ?thesis using try_wait_keeps [OF r] try_wait_dead [OF r assms(2)] by blast
qed

lemma drop_process_dead:
  assumes "child (sp_child p) w"
  shows "keeps w (drop_process host p w) \<and> \<not> alive (sp_child p) (drop_process host p w)"
proof -
  obtain b w1 where b: "is_running host p w = (b, w1)" by fastforce
  obtain r w2 where r: "stop_process host p w1 = (r, w2)" by fastforce
  note run = is_running_dead [OF b assms]
  have c1: "child (sp_child p) w1" using no_revival_child [OF conjunct1 [OF run] assms] .
  show ?thesis
    using run b r stop_process_dead [OF r c1] no_revival_trans [OF conjunct1 [OF run]]
    by (cases b) (auto simp: drop_process_def)
qed

end

end
