(* ===== verification/ModuleLoader.thy ===== *)
theory ModuleLoader
  imports Host SyncMode
begin

text \<open>
  Loading and unloading the tsf\_ptp kernel module (src/module\_loader.rs): the test whether a
  module is loaded, the commands with their parameters, and the fallback from modprobe to insmod.
\<close>

section \<open>Model\<close>

datatype module_error = ProcModules io_error | Modprobe string | Rmmod string | ExecError io_error

abbreviation tsf_module :: string where "tsf_module \<equiv> ''tsf_ptp''"

definition is_module_loaded_from :: "string \<Rightarrow> string \<Rightarrow> bool" where
  "is_module_loaded_from proc_modules module =
     (let normalized = map (\<lambda>c. if c = CHR ''-'' then CHR ''_'' else c) module
      in list_ex (\<lambda>l. case split_whitespace l of [] \<Rightarrow> False | name # _ \<Rightarrow> name = normalized) (str_lines proc_modules))"

definition is_module_loaded :: "fs \<Rightarrow> string \<Rightarrow> module_error + bool" where
  "is_module_loaded fs module =
     (case fs_read_to_string fs ''/proc/modules'' of
        Inl e \<Rightarrow> Inl (ProcModules e)
      | Inr text \<Rightarrow> Inr (is_module_loaded_from text module))"

definition is_tsf_ptp_loaded :: "fs \<Rightarrow> module_error + bool" where
  "is_tsf_ptp_loaded fs = is_module_loaded fs tsf_module"

definition load_module :: "'w host \<Rightarrow> string \<Rightarrow> string list \<Rightarrow> 'w \<Rightarrow> (module_error + unit) \<times> 'w" where
  "load_module host module params w =
     (case h_output host ''modprobe'' (module # params) w of
        (Inl e, w) \<Rightarrow> (Inl (ExecError e), w)
      | (Inr output, w) \<Rightarrow> (if out_success output then Inr () else Inl (Modprobe (out_stderr output)), w))"

definition insmod :: "'w host \<Rightarrow> string \<Rightarrow> string list \<Rightarrow> 'w \<Rightarrow> (module_error + unit) \<times> 'w" where
  "insmod host path params w =
     (case h_output host ''insmod'' (path # params) w of
        (Inl e, w) \<Rightarrow> (Inl (ExecError e), w)
      | (Inr output, w) \<Rightarrow> (if out_success output then Inr () else Inl (Modprobe (out_stderr output)), w))"

definition tsf_ptp_params :: "u64 \<Rightarrow> sync_mode \<Rightarrow> string option \<Rightarrow> u32 option \<Rightarrow> string list" where
  "tsf_ptp_params adjtime_threshold_ns sync_mode sync_primary sync_interval_ms =
     [''adjtime_threshold_ns='' @ show_nat (unat adjtime_threshold_ns),
      ''sync_mode='' @ show_nat (unat (as_kernel_param sync_mode))] @
     (case sync_primary of
        Some primary \<Rightarrow> if primary \<noteq> [] \<and> primary \<noteq> ''auto'' then [''sync_primary='' @ primary] else []
      | None \<Rightarrow> []) @
     (case sync_interval_ms of
        Some interval \<Rightarrow> [''sync_interval_ms='' @ show_nat (unat interval)]
      | None \<Rightarrow> [])"

abbreviation module_path :: string where "module_path \<equiv> ''kernel/tsf_ptp.ko''"

definition load_tsf_ptp ::
    "'w host \<Rightarrow> u64 \<Rightarrow> sync_mode \<Rightarrow> string option \<Rightarrow> u32 option \<Rightarrow> 'w \<Rightarrow> (module_error + unit) \<times> 'w" where
  "load_tsf_ptp host adjtime_threshold_ns sync_mode sync_primary sync_interval_ms w =
     (case is_tsf_ptp_loaded (h_fs host w) of
        Inl e \<Rightarrow> (Inl e, w)
      | Inr True \<Rightarrow> (Inr (), w)
      | Inr False \<Rightarrow>
          (let params = tsf_ptp_params adjtime_threshold_ns sync_mode sync_primary sync_interval_ms
           in case load_module host tsf_module params w of
                (Inr _, w) \<Rightarrow> (Inr (), w)
              | (Inl _, w) \<Rightarrow>
                  (if fs_exists (h_fs host w) module_path then insmod host module_path params w
                   else (Inl (Modprobe (''tsf_ptp module not found via modprobe or at '' @ module_path)), w))))"

definition unload_module :: "'w host \<Rightarrow> string \<Rightarrow> 'w \<Rightarrow> (module_error + unit) \<times> 'w" where
  "unload_module host module w =
     (case h_output host ''rmmod'' [module] w of
        (Inl e, w) \<Rightarrow> (Inl (ExecError e), w)
      | (Inr output, w) \<Rightarrow> (if out_success output then Inr () else Inl (Rmmod (out_stderr output)), w))"

definition unload_tsf_ptp :: "'w host \<Rightarrow> 'w \<Rightarrow> (module_error + unit) \<times> 'w" where
  "unload_tsf_ptp host w =
     (case is_tsf_ptp_loaded (h_fs host w) of
        Inl e \<Rightarrow> (Inl e, w)
      | Inr False \<Rightarrow> (Inr (), w)
      | Inr True \<Rightarrow> unload_module host tsf_module w)"

section \<open>The list of modules\<close>

text \<open>/proc/modules: a line for each module, its name, a blank, and further fields.\<close>

definition proc_line :: "string \<times> string \<Rightarrow> string" where
  "proc_line m = fst m @ '' '' @ snd m"

definition proc_text :: "(string \<times> string) list \<Rightarrow> string" where
  "proc_text ms = unlines (map proc_line ms)"

definition proc_ok :: "string \<times> string \<Rightarrow> bool" where
  "proc_ok m \<longleftrightarrow> fst m \<noteq> [] \<and> list_all (\<lambda>c. \<not> is_space c) (fst m) \<and> clean (proc_line m)"

lemma first_word:
  assumes "n \<noteq> []" "list_all (\<lambda>c. \<not> is_space c) n"
  shows "split_whitespace (n @ '' '' @ rest) = n # split_whitespace rest"
proof -
  have "words [] (n @ '' '' @ rest) = words n ('' '' @ rest)"
    using words_append [of n "[]" "'' '' @ rest"] assms by (simp add: list_all_iff)
  then show ?thesis using assms(1) by (simp add: split_whitespace_def is_space_def)
qed

lemma loaded_from_proc_text:
  assumes "list_all proc_ok ms"
  shows "is_module_loaded_from (proc_text ms) m \<longleftrightarrow>
    map (\<lambda>c. if c = CHR ''-'' then CHR ''_'' else c) m \<in> set (map fst ms)"
proof -
  have "list_all clean (map proc_line ms)" using assms by (auto simp: list_all_iff proc_ok_def)
  then have lines: "str_lines (proc_text ms) = map proc_line ms" by (simp add: proc_text_def str_lines_unlines)
  have "split_whitespace (proc_line x) = fst x # split_whitespace (snd x)" if "x \<in> set ms" for x
    using assms that first_word [of "fst x" "snd x"] by (auto simp: list_all_iff proc_ok_def proc_line_def)
  then show ?thesis
    unfolding is_module_loaded_from_def Let_def lines by (auto simp: list_ex_iff image_iff) force+
qed

section \<open>The kernel\<close>

text \<open>
  What the loader relies on, as documented for /proc/modules, modprobe, insmod and rmmod:
  \<open>loaded\<close> are the modules of the kernel, listed by /proc/modules, and \<open>deps m\<close> those that modprobe
  loads on account of \<open>m\<close>, its dependencies.  A successful modprobe has loaded its module, and one that
  fails has not; both may have loaded dependencies, and unload nothing.  A successful insmod adds its
  module, a successful rmmod removes it, and they leave the modules as they are when they fail.
\<close>

definition cmd_ok :: "io_error + cmd_output \<Rightarrow> bool" where
  "cmd_ok r \<longleftrightarrow> (case r of Inl _ \<Rightarrow> False | Inr out \<Rightarrow> out_success out)"

definition command_effect :: "(string \<Rightarrow> string set) \<Rightarrow> string \<Rightarrow> string \<Rightarrow> bool \<Rightarrow> string set \<Rightarrow> string set \<Rightarrow> bool" where
  "command_effect deps cmd m ok ms ms' \<longleftrightarrow>
     (if cmd = ''modprobe'' then ms \<subseteq> ms' \<and> ms' \<subseteq> ms \<union> deps m \<union> (if ok then {m} else {}) \<and> (ok \<longrightarrow> m \<in> ms')
      else if cmd = ''insmod'' \<and> ok then ms' = insert (the (strip_suffix ''.ko'' (the (file_name m)))) ms
      else if cmd = ''rmmod'' \<and> ok then ms' = ms - {m}
      else ms' = ms)"

text \<open>Loading tsf\_ptp: the result says whether it is loaded; beside it only dependencies can have been loaded.\<close>

definition load_effect :: "(string \<Rightarrow> string set) \<Rightarrow> bool \<Rightarrow> string set \<Rightarrow> string set \<Rightarrow> bool" where
  "load_effect deps ok ms ms' \<longleftrightarrow>
     ms \<subseteq> ms' \<and> ms' \<subseteq> insert tsf_module (ms \<union> deps tsf_module) \<and> (tsf_module \<in> ms' \<longleftrightarrow> ok)"

locale kernel_modules =
  fixes host :: "'w host" and loaded :: "'w \<Rightarrow> string set" and deps :: "string \<Rightarrow> string set"
  assumes proc_modules: "\<exists>ms. fs_read_to_string (h_fs host w) ''/proc/modules'' = Inr (proc_text ms) \<and>
      list_all proc_ok ms \<and> fst ` set ms = loaded w"
    and output_loaded: "h_output host cmd (m # args) w = (r, w') \<Longrightarrow>
      command_effect deps cmd m (cmd_ok r) (loaded w) (loaded w')"
    and deps_other: "m \<notin> deps m"
begin

lemma is_loaded: "is_tsf_ptp_loaded (h_fs host w) = Inr (tsf_module \<in> loaded w)"
proof -
  obtain ms where "fs_read_to_string (h_fs host w) ''/proc/modules'' = Inr (proc_text ms)"
    "list_all proc_ok ms" "fst ` set ms = loaded w"
    using proc_modules by blast
  then show ?thesis by (simp add: is_tsf_ptp_loaded_def is_module_loaded_def loaded_from_proc_text)
qed

lemma load_module_loaded:
  "load_module host tsf_module params w = (r, w') \<Longrightarrow> tsf_module \<notin> loaded w \<Longrightarrow> load_effect deps (r = Inr ()) (loaded w) (loaded w')"
  using output_loaded [of "''modprobe''" tsf_module params w] deps_other [of tsf_module]
  by (auto simp: load_module_def cmd_ok_def command_effect_def load_effect_def split: prod.splits sum.splits if_splits)

lemma insmod_loaded:
  "insmod host module_path params w = (r, w') \<Longrightarrow>
   loaded w' = (if r = Inr () then insert tsf_module (loaded w) else loaded w)"
proof -
  have "the (strip_suffix ''.ko'' (the (file_name module_path))) = tsf_module"
    by (simp add: file_name_def path_components_def strip_suffix_def)
  then show "insmod host module_path params w = (r, w') \<Longrightarrow> ?thesis"
    using output_loaded [of "''insmod''" module_path params w]
    by (auto simp: insmod_def cmd_ok_def command_effect_def split: prod.splits sum.splits if_splits)
qed

lemma load_loaded:
  "load_tsf_ptp host thr m p i w = (r, w') \<Longrightarrow>
   load_effect deps (r = Inr ()) (loaded w) (loaded w') \<and> (tsf_module \<in> loaded w \<longrightarrow> w' = w)"
proof (cases "tsf_module \<in> loaded w")
  case False
  assume run: "load_tsf_ptp host thr m p i w = (r, w')"
  define params where "params = tsf_ptp_params thr m p i"
  obtain q w1 where q: "load_module host tsf_module params w = (q, w1)" by fastforce
  note ext = load_module_loaded [OF q False]
  show ?thesis
    using run ext insmod_loaded [of params w1 r w'] q False
    by (cases q) (auto simp: load_tsf_ptp_def is_loaded Let_def params_def [symmetric] load_effect_def split: if_splits)
qed (auto simp: load_tsf_ptp_def is_loaded load_effect_def)

lemma unload_loaded:
  "unload_tsf_ptp host w = (r, w') \<Longrightarrow>
   loaded w' = (if r = Inr () then loaded w - {tsf_module} else loaded w) \<and> (tsf_module \<in> loaded w' \<longleftrightarrow> r \<noteq> Inr ())"
  using output_loaded [of "''rmmod''" tsf_module "[]" w]
  by (auto simp: unload_tsf_ptp_def unload_module_def is_loaded cmd_ok_def command_effect_def split: prod.splits sum.splits if_splits bool.splits)

end

end
