(* ===== verification/Signals.thy ===== *)
theory Signals
  imports Host
begin

text \<open>
  The signal handling of the daemon (src/daemon.rs): the handler that is installed once and the
  flag it clears.
\<close>

text \<open>\<open>Arc::new(AtomicBool::new(true))\<close>: a fresh flag, and its number.\<close>

definition new_flag :: "sig_state \<Rightarrow> nat \<times> sig_state" where
  "new_flag s = (length (sig_flags s), s\<lparr>sig_flags := sig_flags s @ [True]\<rparr>)"

definition load_flag :: "nat \<Rightarrow> sig_state \<Rightarrow> bool" where
  "load_flag i s \<longleftrightarrow> i < length (sig_flags s) \<and> sig_flags s ! i"

definition clear_flag :: "nat \<Rightarrow> sig_state \<Rightarrow> sig_state" where
  "clear_flag i s = s\<lparr>sig_flags := (sig_flags s)[i := False]\<rparr>"

definition ctrlc_handler :: "nat \<Rightarrow> sig_state \<Rightarrow> sig_state" where
  "ctrlc_handler flag s = (if sig_once s then s else s\<lparr>sig_once := True, sig_handler := Some flag\<rparr>)"

definition signal_handler :: "sig_state \<Rightarrow> sig_state" where
  "signal_handler s = (case sig_handler s of Some flag \<Rightarrow> clear_flag flag s | None \<Rightarrow> s)"

lemma fresh_flag_set: "new_flag s = (i, s') \<Longrightarrow> load_flag i s'"
  by (auto simp: new_flag_def load_flag_def)

lemma first_handler_clears:
  "\<not> sig_once s \<Longrightarrow> \<not> load_flag i (signal_handler (ctrlc_handler i s))"
  by (simp add: ctrlc_handler_def signal_handler_def clear_flag_def load_flag_def)

lemma load_clear_other: "i \<noteq> j \<Longrightarrow> load_flag i (clear_flag j s) = load_flag i s"
  by (simp add: load_flag_def clear_flag_def)

end
