(* ===== verification/Discovery.thy ===== *)
theory Discovery
  imports Strings SyncMode "HOL-Library.Multiset"
begin

text \<open>
  Discovery of WiFi cards and their PTP clocks (src/discovery.rs) over a file system given as a
  parameter: the driver tables, the directory scans, the natural ordering of the result, the
  table and the detection of the active mode.
\<close>

section \<open>Cards\<close>

datatype ptp_source = Native | TsfPtp | NoSource

record wifi_card =
  wc_phy :: string
  wc_driver :: string
  wc_ptp_clock :: "string option"
  wc_ptp_source :: ptp_source
  wc_can_set_tsf :: bool

definition native_ptp_drivers :: "string list" where
  "native_ptp_drivers = [''iwlwifi'']"

definition fullmac_drivers :: "string list" where
  "fullmac_drivers = [''brcmfmac'', ''mwifiex'', ''ath6kl'']"

definition read_only_drivers :: "string list" where
  "read_only_drivers = [''rtl8xxxu'', ''wil6210'']"

section \<open>Scanning\<close>

definition read_driver :: "fs \<Rightarrow> string \<Rightarrow> string" where
  "read_driver fs phy_path =
     (case fs_read_link fs (path_join phy_path ''device/driver'') of
        Inr target \<Rightarrow> (case file_name target of Some n \<Rightarrow> n | None \<Rightarrow> ''unknown'')
      | Inl _ \<Rightarrow> ''unknown'')"

fun oks :: "('e + 'a) list \<Rightarrow> 'a list" where
  "oks [] = []"
| "oks (Inl e # xs) = oks xs"
| "oks (Inr x # xs) = x # oks xs"

fun find_ptp_in :: "fs \<Rightarrow> string \<Rightarrow> string list \<Rightarrow> string option \<times> ptp_source" where
  "find_ptp_in fs driver [] = (None, NoSource)"
| "find_ptp_in fs driver (dir # dirs) =
     (case fs_read_dir fs dir of
        Inl _ \<Rightarrow> find_ptp_in fs driver dirs
      | Inr entries \<Rightarrow>
          (case find (starts_with ''ptp'') (oks entries) of
             Some name \<Rightarrow>
               (Some (''/dev/'' @ name), if driver \<in> set native_ptp_drivers then Native else TsfPtp)
           | None \<Rightarrow> find_ptp_in fs driver dirs))"

definition find_ptp_clock :: "fs \<Rightarrow> string \<Rightarrow> string \<Rightarrow> string option \<times> ptp_source" where
  "find_ptp_clock fs phy_path driver = find_ptp_in fs driver [path_join phy_path ''device'', phy_path]"

definition make_card :: "fs \<Rightarrow> string \<Rightarrow> string \<Rightarrow> wifi_card" where
  "make_card fs root name =
     (let phy_path = path_join root name; driver = read_driver fs phy_path;
          (clock, source) = find_ptp_clock fs phy_path driver
      in \<lparr>wc_phy = name, wc_driver = driver, wc_ptp_clock = clock, wc_ptp_source = source,
          wc_can_set_tsf = (driver \<notin> set fullmac_drivers \<and> driver \<notin> set read_only_drivers)\<rparr>)"

fun scan_entries :: "fs \<Rightarrow> string \<Rightarrow> (io_error + string) list \<Rightarrow> wifi_card list \<Rightarrow> io_error + wifi_card list" where
  "scan_entries fs root [] cards = Inr cards"
| "scan_entries fs root (Inl e # es) cards = Inl e"
| "scan_entries fs root (Inr name # es) cards =
     scan_entries fs root es (if starts_with ''phy'' name then cards @ [make_card fs root name] else cards)"

section \<open>Ordering\<close>

definition natural_sort_key :: "string \<Rightarrow> string \<times> nat" where
  "natural_sort_key s =
     (takeWhile (\<lambda>c. \<not> is_digit c) s,
      case parse_u64 (dropWhile (\<lambda>c. \<not> is_digit c) s) of Some n \<Rightarrow> unat n | None \<Rightarrow> 0)"

definition discover_cards :: "fs \<Rightarrow> string \<Rightarrow> io_error + wifi_card list" where
  "discover_cards fs root =
     (case fs_read_dir fs root of
        Inl e \<Rightarrow> if io_kind e = NotFound then Inr [] else Inl e
      | Inr entries \<Rightarrow>
          (case scan_entries fs root entries [] of
             Inl e \<Rightarrow> Inl e
           | Inr cards \<Rightarrow> Inr (sort_key (\<lambda>c. natural_sort_key (wc_phy c)) cards)))"

section \<open>Output\<close>

definition card_status :: "wifi_card \<Rightarrow> string" where
  "card_status c =
     (case wc_ptp_source c of
        Native \<Rightarrow> ''native PTP''
      | TsfPtp \<Rightarrow> ''tsf-ptp module''
      | NoSource \<Rightarrow>
          if wc_driver c \<in> set fullmac_drivers then ''unsupported (FullMAC)''
          else if \<not> wc_can_set_tsf c then ''read-only TSF''
          else ''needs tsf-ptp module'')"

definition table_row :: "string \<Rightarrow> string \<Rightarrow> string \<Rightarrow> string \<Rightarrow> string" where
  "table_row a b c d = pad_right 10 a @ '' '' @ pad_right 18 b @ '' '' @ pad_right 14 c @ '' '' @ d @ [newline]"

definition format_table :: "wifi_card list \<Rightarrow> string" where
  "format_table cards =
     table_row ''PHY'' ''DRIVER'' ''PTP CLOCK'' ''STATUS'' @
     concat (map (\<lambda>c. table_row (wc_phy c) (wc_driver c)
                           (case wc_ptp_clock c of Some p \<Rightarrow> p | None \<Rightarrow> em_dash) (card_status c)) cards)"

definition detect_active_sync_mode :: "fs \<Rightarrow> sync_mode option" where
  "detect_active_sync_mode fs =
     (case fs_read_to_string fs ''/sys/module/tsf_ptp/parameters/sync_mode'' of
        Inl _ \<Rightarrow> None
      | Inr value \<Rightarrow>
          (let v = trim value
           in if v = ''0'' then Some Ptp else if v = ''1'' then Some Kernel
              else if v = ''2'' then Some Iouring else None))"

section \<open>Lemmas\<close>

text \<open>What every discovered card satisfies.\<close>

definition card_wf :: "wifi_card \<Rightarrow> bool" where
  "card_wf c \<longleftrightarrow> starts_with ''phy'' (wc_phy c) \<and> (wc_ptp_source c = NoSource \<longleftrightarrow> wc_ptp_clock c = None) \<and>
     (wc_ptp_source c = Native \<longrightarrow> wc_driver c \<in> set native_ptp_drivers) \<and>
     (wc_ptp_source c = TsfPtp \<longrightarrow> wc_driver c \<notin> set native_ptp_drivers) \<and>
     wc_can_set_tsf c = (wc_driver c \<notin> set fullmac_drivers \<and> wc_driver c \<notin> set read_only_drivers)"

lemma find_ptp_in_wf:
  "find_ptp_in fs driver dirs = (clock, source) \<Longrightarrow>
   (source = NoSource \<longleftrightarrow> clock = None) \<and> (source = Native \<longrightarrow> driver \<in> set native_ptp_drivers) \<and>
   (source = TsfPtp \<longrightarrow> driver \<notin> set native_ptp_drivers)"
  by (induction dirs) (auto split: sum.splits option.splits if_splits)

lemma make_card_wf:
  assumes "starts_with ''phy'' name"
  shows "card_wf (make_card fs root name)"
proof -
  obtain clock source where *: "find_ptp_clock fs (path_join root name) (read_driver fs (path_join root name)) = (clock, source)"
    by fastforce
  show ?thesis
    using find_ptp_in_wf [OF * [unfolded find_ptp_clock_def]] assms *
    by (simp add: card_wf_def make_card_def Let_def)
qed

lemma scan_entries_ok:
  "scan_entries fs root es cards = Inr cs \<Longrightarrow>
   cs = cards @ map (make_card fs root) (filter (starts_with ''phy'') (oks es)) \<and> (\<forall>e. Inl e \<notin> set es)"
  by (induction fs root es cards rule: scan_entries.induct) (auto split: if_splits)

lemma takeWhile_prefix:
  "\<forall>c \<in> set p. \<not> is_digit c \<Longrightarrow> list_all is_digit ds \<Longrightarrow>
   takeWhile (\<lambda>c. \<not> is_digit c) (p @ ds) = p \<and> dropWhile (\<lambda>c. \<not> is_digit c) (p @ ds) = ds"
  by (cases ds) (auto simp: takeWhile_append2 dropWhile_append2)

lemma natural_sort_key_number:
  assumes "\<forall>c \<in> set p. \<not> is_digit c" "n < 2 ^ 64"
  shows "natural_sort_key (p @ show_nat n) = (p, n)"
  using takeWhile_prefix [OF assms(1) show_nat_digits(2) [of n]] parse_u64_show [OF assms(2)] assms(2)
  by (simp add: natural_sort_key_def unat_of_nat take_bit_nat_eq_self)


lemma natural_sort_key_phy: "n < 2 ^ 64 \<Longrightarrow> natural_sort_key (''phy'' @ show_nat n) = (''phy'', n)"
  by (rule natural_sort_key_number) (auto simp: is_digit_def)

lemma make_card_phy [simp]: "wc_phy (make_card fs root name) = name"
  by (simp add: make_card_def Let_def split: prod.split)

lemma discover_cards_ok:
  assumes "fs_read_dir fs root = Inr es" "discover_cards fs root = Inr cs"
  shows "cs = sort_key (\<lambda>c. natural_sort_key (wc_phy c)) (map (make_card fs root) (filter (starts_with ''phy'') (oks es)))"
proof -
  obtain cs' where "scan_entries fs root es [] = Inr cs'"
    using assms by (auto simp: discover_cards_def split: sum.splits)
  then show ?thesis using assms scan_entries_ok [of fs root es "[]" cs'] by (simp add: discover_cards_def)
qed

lemma scan_entries_all_ok:
  "scan_entries fs root (map Inr names) cards = Inr (cards @ map (make_card fs root) (filter (starts_with ''phy'') names))"
  by (induction names arbitrary: cards) auto

lemma oks_map_Inr [simp]: "oks (map Inr xs) = xs"
  by (induction xs) auto

lemma discover_cards_listed:
  "fs_read_dir fs root = Inr (map Inr names) \<Longrightarrow>
   discover_cards fs root =
     Inr (sort_key (\<lambda>c. natural_sort_key (wc_phy c)) (map (make_card fs root) (filter (starts_with ''phy'') names)))"
  by (simp add: discover_cards_def scan_entries_all_ok)

lemma map_sort_key: "map f (sort_key (\<lambda>x. k (f x)) xs) = sort_key k (map f xs)"
proof (induction xs)
  case (Cons x xs)
  have "map f (insort_key (\<lambda>x. k (f x)) x ys) = insort_key k (f x) (map f ys)" for ys by (induction ys) auto
  then show ?case using Cons by simp
qed simp

lemma sort_key_mono_map:
  assumes "\<forall>a \<in> set xs. \<forall>b \<in> set xs. k (g a) \<le> k (g b) \<longleftrightarrow> a \<le> b"
  shows "sort_key k (map g xs) = map g (sort xs)"
  using assms
proof (induction xs)
  case (Cons x xs)
  have "set ys \<subseteq> set xs \<Longrightarrow> insort_key k (g x) (map g ys) = map g (insort x ys)" for ys
    using Cons.prems by (induction ys) auto
  then show ?case using Cons by simp
qed simp


definition sysfs_example :: fs where
  "sysfs_example =
     \<lparr>fs_read_dir = (\<lambda>d. if d = ''/c'' then Inr [Inr ''phy10'', Inr ''phy2'', Inr ''lo'']
                      else if d = ''/c/phy2/device'' then Inr [Inr ''net'', Inr ''ptp0'']
                      else Inl (OsError 2)),
      fs_read_link = (\<lambda>l. if l = ''/c/phy2/device/driver'' then Inr ''/drivers/iwlwifi'' else Inl (OsError 2)),
      fs_read_to_string = (\<lambda>_. Inl (OsError 2)), fs_exists = (\<lambda>_. False)\<rparr>"

section \<open>Properties\<close>

text \<open>C14: Discovery is correct: when the class directory can be listed, the cards returned are those
  of the entries whose name starts with phy, each exactly once (as multisets), in ascending order of
  the natural key, and every card is well formed: a source of the clock is named exactly when a clock
  was found, the source says native exactly for the drivers of the native table, and can_set_tsf is
  set exactly when the driver is in neither of the other tables.\<close>

theorem discover_cards_correct:
  assumes "fs_read_dir fs root = Inr es" "discover_cards fs root = Inr cs"
  shows "mset (map wc_phy cs) = mset (filter (starts_with ''phy'') (oks es)) \<and>
         sorted (map (\<lambda>c. natural_sort_key (wc_phy c)) cs) \<and> list_all card_wf cs"
proof -
  note cs = discover_cards_ok [OF assms]
  have "mset (map wc_phy cs) = mset (filter (starts_with ''phy'') (oks es))"
    unfolding cs by (simp add: multiset.map_comp comp_def)
  moreover have "sorted (map (\<lambda>c. natural_sort_key (wc_phy c)) cs)" unfolding cs by simp
  moreover have "list_all card_wf cs" unfolding cs by (auto simp: list_all_iff make_card_wf)
  ultimately show ?thesis by simp
qed

theorem discover_cards_correct_witness:
  "\<exists>cs. discover_cards sysfs_example ''/c'' = Inr cs \<and>
        mset (map wc_phy cs) = {#''phy10'', ''phy2''#} \<and>
        sorted (map (\<lambda>c. natural_sort_key (wc_phy c)) cs) \<and> list_all card_wf cs"
proof -
  have dir: "fs_read_dir sysfs_example ''/c'' = Inr (map Inr [''phy10'', ''phy2'', ''lo''])"
    by (simp add: sysfs_example_def)
  show ?thesis
    using discover_cards_correct [OF dir discover_cards_listed [OF dir]] discover_cards_listed [OF dir]
    by (simp add: starts_with_def)
qed

text \<open>Numbered phys come in the order of their numbers, phy2 before phy10: for every list of
  64-bit numbers whose entries the directory holds in any order, between other entries or not, the
  names of the cards are those numbers sorted.\<close>

theorem discover_cards_numeric_order:
  assumes "fs_read_dir fs root = Inr (map Inr names)"
    and "filter (starts_with ''phy'') names = map (\<lambda>n. ''phy'' @ show_nat n) ns"
    and "\<forall>n \<in> set ns. n < 2 ^ 64"
  shows "map_sum id (map wc_phy) (discover_cards fs root) = Inr (map (\<lambda>n. ''phy'' @ show_nat n) (sort ns))"
proof -
  have "map wc_phy (sort_key (\<lambda>c. natural_sort_key (wc_phy c)) (map (make_card fs root) (map (\<lambda>n. ''phy'' @ show_nat n) ns)))
      = sort_key natural_sort_key (map (\<lambda>n. ''phy'' @ show_nat n) ns)"
    by (simp add: map_sort_key comp_def)
  also have "\<dots> = map (\<lambda>n. ''phy'' @ show_nat n) (sort ns)"
    using assms(3) natural_sort_key_phy by (intro sort_key_mono_map) auto
  finally show ?thesis using assms(2) by (simp add: discover_cards_listed [OF assms(1)])
qed


theorem discover_cards_numeric_order_witness:
  "map_sum id (map wc_phy) (discover_cards sysfs_example ''/c'') = Inr [''phy2'', ''phy10'']"
proof -
  have digits: "show_nat 10 = ''10''" "show_nat 2 = ''2''"
    by code_simp+
  show ?thesis
    using discover_cards_numeric_order [of sysfs_example "''/c''" "[''phy10'', ''phy2'', ''lo'']" "[10, 2]"]
    by (simp add: sysfs_example_def starts_with_def digits)
qed

end
