(* ===== verification/Machine.thy ===== *)
theory Machine
  imports Ptp4l ModuleLoader Signals Discovery
begin

text \<open>
  A machine with WiFi cards, the tsf\_ptp module, child processes that take a given time to end
  after SIGTERM, and a time at which SIGTERM is sent to the tool: an instance of the host on which
  the interfaces of the process table and of the kernel modules are interpreted.
\<close>

section \<open>The machine\<close>

datatype proc = Running nat | Ending nat | Exited | Killed

record mcard =
  mk_phy :: string
  mk_driver :: string
  mk_clock :: string
  mk_native :: bool

record machine =
  mc_cards :: "mcard list"
  mc_loaded :: bool
  mc_mac80211 :: bool
  mc_modprobe :: bool
  mc_params :: "string list"
  mc_procs :: "proc list"
  mc_spawns :: nat
  mc_delay :: nat
  mc_signals :: sig_state
  mc_term_at :: "nat option"
  mc_time :: nat
  mc_out :: string
  mc_commands :: "string list list"

definition missing :: io_error where
  "missing = OsError 2"

definition class_dir :: string where
  "class_dir = ''/sys/class/ieee80211''"

definition machine_proc_modules :: "machine \<Rightarrow> (string \<times> string) list" where
  "machine_proc_modules m =
     (if mc_loaded m then [(''tsf_ptp'', ''24576 0'')] else []) @
     (if mc_mac80211 m then [(''mac80211'', ''1036288 1 tsf_ptp,'')] else []) @ [(''cfg80211'', ''1130496 1'')]"

definition machine_fs :: "machine \<Rightarrow> fs" where
  "machine_fs m =
     \<lparr>fs_read_dir = (\<lambda>d.
        if d = class_dir then Inr (map (\<lambda>c. Inr (mk_phy c)) (mc_cards m))
        else (case find (\<lambda>c. d = class_dir @ ''/'' @ mk_phy c @ ''/device'') (mc_cards m) of
                Some c \<Rightarrow> Inr (if mk_native c \<or> mc_loaded m then [Inr (mk_clock c)] else [])
              | None \<Rightarrow> Inl missing)),
      fs_read_link = (\<lambda>l.
        case find (\<lambda>c. l = class_dir @ ''/'' @ mk_phy c @ ''/device/driver'') (mc_cards m) of
          Some c \<Rightarrow> Inr (''/sys/bus/drivers/'' @ mk_driver c)
        | None \<Rightarrow> Inl missing),
      fs_read_to_string = (\<lambda>p.
        if p = ''/proc/modules''
        then Inr (proc_text (machine_proc_modules m))
        else Inl missing),
      fs_exists = (\<lambda>p. False)\<rparr>"

definition reply :: "bool \<Rightarrow> io_error + cmd_output" where
  "reply ok = Inr \<lparr>out_success = ok, out_stdout = [], out_stderr = []\<rparr>"

definition machine_output :: "string \<Rightarrow> string list \<Rightarrow> machine \<Rightarrow> (io_error + cmd_output) \<times> machine" where
  "machine_output cmd args m =
     (let m = m\<lparr>mc_commands := mc_commands m @ [cmd # args]\<rparr>
      in if cmd = ''modprobe'' \<and> mc_modprobe m \<and> args \<noteq> [] \<and> hd args = ''tsf_ptp''
         then (reply True, if mc_loaded m then m else m\<lparr>mc_loaded := True, mc_mac80211 := True, mc_params := tl args\<rparr>)
         else if cmd = ''rmmod'' \<and> mc_loaded m \<and> args \<noteq> [] \<and> hd args = ''tsf_ptp''
         then (reply True, m\<lparr>mc_loaded := False\<rparr>)
         else (reply False, m))"

definition machine_spawn :: "string \<Rightarrow> string list \<Rightarrow> machine \<Rightarrow> (io_error + nat) \<times> machine" where
  "machine_spawn cmd args m =
     (let m = m\<lparr>mc_commands := mc_commands m @ [cmd # args]\<rparr>
      in if mc_spawns m = 0 then (Inl missing, m)
         else (Inr (length (mc_procs m)),
               m\<lparr>mc_spawns := mc_spawns m - 1, mc_procs := mc_procs m @ [Running (mc_delay m)]\<rparr>))"

definition proc_alive :: "proc \<Rightarrow> bool" where
  "proc_alive p \<longleftrightarrow> (case p of Running _ \<Rightarrow> True | Ending _ \<Rightarrow> True | _ \<Rightarrow> False)"

definition machine_try_wait :: "nat \<Rightarrow> machine \<Rightarrow> (io_error + int option) \<times> machine" where
  "machine_try_wait p m =
     (if p < length (mc_procs m)
      then (Inr (if proc_alive (mc_procs m ! p) then None else Some 0), m)
      else (Inl missing, m))"

definition machine_sigterm :: "nat \<Rightarrow> machine \<Rightarrow> machine" where
  "machine_sigterm p m =
     (if p < length (mc_procs m)
      then m\<lparr>mc_procs := (mc_procs m)[p := (case mc_procs m ! p of
               Running d \<Rightarrow> if d = 0 then Exited else Ending d | x \<Rightarrow> x)]\<rparr>
      else m)"

definition machine_kill :: "nat \<Rightarrow> machine \<Rightarrow> (io_error + unit) \<times> machine" where
  "machine_kill p m =
     (if p < length (mc_procs m)
      then (Inr (), m\<lparr>mc_procs := (mc_procs m)[p := (if proc_alive (mc_procs m ! p) then Killed else mc_procs m ! p)]\<rparr>)
      else (Inl missing, m))"

definition machine_wait :: "nat \<Rightarrow> machine \<Rightarrow> (io_error + unit) \<times> machine" where
  "machine_wait p m =
     (if p < length (mc_procs m)
      then (Inr (), m\<lparr>mc_procs := (mc_procs m)[p := (if proc_alive (mc_procs m ! p) then Exited else mc_procs m ! p)]\<rparr>)
      else (Inl missing, m))"

definition proc_sleep :: "nat \<Rightarrow> proc \<Rightarrow> proc" where
  "proc_sleep n p = (case p of Ending d \<Rightarrow> if d \<le> n then Exited else Ending (d - n) | x \<Rightarrow> x)"

definition machine_sleep :: "nat \<Rightarrow> machine \<Rightarrow> machine" where
  "machine_sleep n m =
     (let t = mc_time m + n
      in m\<lparr>mc_time := t, mc_procs := map (proc_sleep n) (mc_procs m),
           mc_signals := (case mc_term_at m of
             Some s \<Rightarrow> if mc_time m < s \<and> s \<le> t then signal_handler (mc_signals m) else mc_signals m
           | None \<Rightarrow> mc_signals m)\<rparr>)"

definition machine_host :: "machine host" where
  "machine_host =
     \<lparr>h_fs = machine_fs, h_output = machine_output, h_spawn = machine_spawn,
      h_try_wait = machine_try_wait, h_sigterm = machine_sigterm, h_kill = machine_kill,
      h_wait = machine_wait, h_sleep = machine_sleep, h_print = (\<lambda>s m. m\<lparr>mc_out := mc_out m @ s\<rparr>),
      h_write_file = (\<lambda>p s m. (Inr (), m)), h_show_error = (\<lambda>e. ''error''),
      h_signals = mc_signals, h_set_signals = (\<lambda>s m. m\<lparr>mc_signals := s\<rparr>),
      h_tsf_sys = \<lparr>sys_open = (\<lambda>p m. (Inl missing, m)), sys_pread = (\<lambda>fd b n m. ((-1, b), m)),
        sys_pwrite = (\<lambda>fd b n m. (-1, m)), sys_lseek = (\<lambda>fd n m. m), sys_read = (\<lambda>fd b m. ((-1, b), m)),
        sys_write = (\<lambda>fd b m. (-1, m)), sys_errno = (\<lambda>m. 0)\<rparr>,
      h_ring_new = (\<lambda>m. (Inl missing, m)),
      h_ring = \<lparr>ring_push = (\<lambda>e m. (False, m)), ring_submit_and_wait = (\<lambda>m. (Inl missing, m)), ring_next = (\<lambda>m. (None, m))\<rparr>,
      h_profile = Release, h_thread = (\<lambda>body m. (0, m))\<rparr>"

lemma machine_host_simps [simp]:
  "h_fs machine_host = machine_fs" "h_output machine_host = machine_output"
  "h_spawn machine_host = machine_spawn" "h_try_wait machine_host = machine_try_wait"
  "h_sigterm machine_host = machine_sigterm" "h_kill machine_host = machine_kill"
  "h_wait machine_host = machine_wait" "h_sleep machine_host = machine_sleep"
  "h_signals machine_host = mc_signals" "h_set_signals machine_host sg m = m\<lparr>mc_signals := sg\<rparr>"
  by (simp_all add: machine_host_def)

definition machine_child :: "nat \<Rightarrow> machine \<Rightarrow> bool" where
  "machine_child p m \<longleftrightarrow> p < length (mc_procs m)"

definition machine_alive :: "nat \<Rightarrow> machine \<Rightarrow> bool" where
  "machine_alive p m \<longleftrightarrow> p < length (mc_procs m) \<and> proc_alive (mc_procs m ! p)"

definition machine_modules :: "machine \<Rightarrow> string set" where
  "machine_modules m =
     (if mc_loaded m then {''tsf_ptp''} else {}) \<union> (if mc_mac80211 m then {''mac80211''} else {}) \<union> {''cfg80211''}"

definition machine_deps :: "string \<Rightarrow> string set" where
  "machine_deps m = (if m = ''tsf_ptp'' then {''mac80211'', ''cfg80211''} else {})"

lemmas machine_ops = machine_output_def machine_spawn_def machine_try_wait_def machine_sigterm_def
  machine_kill_def machine_wait_def machine_sleep_def

section \<open>The interfaces\<close>

lemma proc_sleep_alive: "proc_alive (proc_sleep n p) \<Longrightarrow> proc_alive p"
  by (auto simp: proc_alive_def proc_sleep_def split: proc.splits if_splits)

lemma no_revival_procs:
  assumes "length (mc_procs m') = length (mc_procs m)"
    and "\<And>q. q < length (mc_procs m) \<Longrightarrow> proc_alive (mc_procs m' ! q) \<Longrightarrow> proc_alive (mc_procs m ! q)"
  shows "no_revival machine_child machine_alive m m'"
  using assms by (auto simp: no_revival_def machine_child_def machine_alive_def)

lemma no_revival_update:
  assumes "mc_procs m' = (mc_procs m)[p := x]" "p < length (mc_procs m)" "proc_alive x \<Longrightarrow> proc_alive (mc_procs m ! p)"
  shows "no_revival machine_child machine_alive m m'"
  using assms by (intro no_revival_procs) (auto simp: nth_list_update split: if_splits)

lemma no_revival_same: "mc_procs m' = mc_procs m \<Longrightarrow> no_revival machine_child machine_alive m m'"
  by (rule no_revival_procs) simp_all

interpretation machine: process_table machine_host machine_child machine_alive
proof
  fix p n :: nat and m m' :: machine and r :: "io_error + int option" and k :: "io_error + unit" and sg cmd args ro e q
  show "h_try_wait machine_host p m = (r, m') \<Longrightarrow> no_revival machine_child machine_alive m m'"
    by (auto simp: machine_ops split: if_splits)
  show "h_try_wait machine_host p m = (r, m') \<Longrightarrow> machine_child p m \<Longrightarrow> r \<noteq> Inr None \<Longrightarrow> \<not> machine_alive p m'"
    by (auto simp: machine_ops machine_child_def machine_alive_def split: if_splits)
  show "h_kill machine_host p m = (k, m') \<Longrightarrow> no_revival machine_child machine_alive m m'"
    by (auto simp: machine_ops proc_alive_def intro!: no_revival_update split: if_splits)
  show "h_kill machine_host p m = (k, m') \<Longrightarrow> machine_child p m \<Longrightarrow> k = Inr ()"
    by (simp add: machine_ops machine_child_def split: if_splits)
  show "h_wait machine_host p m = (k, m') \<Longrightarrow> no_revival machine_child machine_alive m m'"
    by (auto simp: machine_ops proc_alive_def intro!: no_revival_update split: if_splits)
  show "h_wait machine_host p m = (k, m') \<Longrightarrow> machine_child p m \<Longrightarrow> k = Inr () \<and> \<not> machine_alive p m'"
    by (auto simp: machine_ops machine_child_def machine_alive_def proc_alive_def split: if_splits)
  show "no_revival machine_child machine_alive m (h_sigterm machine_host p m)"
    by (auto simp: machine_ops proc_alive_def intro!: no_revival_update split: proc.splits if_splits)
  show "no_revival machine_child machine_alive m (h_sleep machine_host n m)"
    by (auto simp: machine_ops Let_def intro!: no_revival_procs dest: proc_sleep_alive)
  show "no_revival machine_child machine_alive m (h_set_signals machine_host sg m)"
    by (simp add: no_revival_same)
  show "h_output machine_host cmd args m = (ro, m') \<Longrightarrow> no_revival machine_child machine_alive m m'"
    by (auto simp: machine_ops Let_def intro!: no_revival_same split: if_splits)
  show "h_spawn machine_host cmd args m = (Inl e, m') \<Longrightarrow> no_revival machine_child machine_alive m m'"
    by (auto simp: machine_ops Let_def intro!: no_revival_same split: if_splits)
  show "h_spawn machine_host cmd args m = (Inr p, m') \<Longrightarrow> machine_child p m'"
    by (auto simp: machine_ops Let_def machine_child_def split: if_splits)
  show "h_spawn machine_host cmd args m = (Inr p, m') \<Longrightarrow> machine_alive q m' \<Longrightarrow> machine_alive q m \<or> q = p"
    by (auto simp: machine_ops Let_def machine_alive_def nth_append split: if_splits)
  show "h_spawn machine_host cmd args m = (Inr p, m') \<Longrightarrow> machine_child q m \<Longrightarrow> machine_child q m'"
    by (auto simp: machine_ops Let_def machine_child_def split: if_splits)
qed

interpretation machine: kernel_modules machine_host machine_modules machine_deps
proof
  fix m m' :: machine and cmd arg args and ro :: "io_error + cmd_output"
  have "list_all proc_ok (machine_proc_modules m)"
    by (simp add: machine_proc_modules_def proc_ok_def proc_line_def clean_def chomp_def newline_def is_space_def)
  moreover have "fst ` set (machine_proc_modules m) = machine_modules m"
    by (auto simp: machine_proc_modules_def machine_modules_def)
  moreover have "fs_read_to_string (h_fs machine_host m) ''/proc/modules'' = Inr (proc_text (machine_proc_modules m))"
    by (simp add: machine_fs_def)
  ultimately show "\<exists>ms. fs_read_to_string (h_fs machine_host m) ''/proc/modules'' = Inr (proc_text ms) \<and>
      list_all proc_ok ms \<and> fst ` set ms = machine_modules m" by blast
  show "arg \<notin> machine_deps arg" by (simp add: machine_deps_def)
  assume run: "h_output machine_host cmd (arg # args) m = (ro, m')"
  have "ro = fst (machine_output cmd (arg # args) m)" "m' = snd (machine_output cmd (arg # args) m)"
    using run by simp_all
  then show "command_effect machine_deps cmd arg (cmd_ok ro) (machine_modules m) (machine_modules m')"
    by (auto simp: machine_output_def machine_modules_def machine_deps_def cmd_ok_def reply_def command_effect_def Let_def)
qed

section \<open>Stopping on the machine\<close>

lemma poll_ended:
  "p < length (mc_procs m) \<Longrightarrow> \<not> proc_alive (mc_procs m ! p) \<Longrightarrow> poll_exit machine_host p n m = (0 < n, m)"
  by (cases n) (simp_all add: machine_try_wait_def)

lemma poll_ending:
  assumes "p < length (mc_procs m)" "mc_procs m ! p = Ending d" "0 < d"
  shows "\<exists>m'. poll_exit machine_host p n m = ((d + 99) div 100 < n, m') \<and> length (mc_procs m') = length (mc_procs m) \<and>
     mc_time m' = mc_time m + 100 * min n ((d + 99) div 100) \<and>
     mc_procs m' ! p = (if (d + 99) div 100 \<le> n then Exited else Ending (d - 100 * n))"
  using assms
proof (induction n arbitrary: m d)
  case (Suc n)
  define m1 where "m1 = machine_sleep 100 m"
  have m1: "length (mc_procs m1) = length (mc_procs m)" "mc_time m1 = mc_time m + 100"
    "mc_procs m1 ! p = (if d \<le> 100 then Exited else Ending (d - 100))"
    using Suc.prems by (auto simp: m1_def machine_sleep_def Let_def proc_sleep_def)
  have step: "poll_exit machine_host p (Suc n) m = poll_exit machine_host p n m1"
    using Suc.prems by (simp add: m1_def machine_try_wait_def proc_alive_def)
  show ?case
  proof (cases "d \<le> 100")
    case True
    then have "(d + 99) div 100 = 1" using Suc.prems(3) by (simp add: div_nat_eqI)
    moreover have "poll_exit machine_host p n m1 = (0 < n, m1)"
      using True m1 Suc.prems by (intro poll_ended) (simp_all add: proc_alive_def)
    ultimately show ?thesis using step m1 True by simp
  next
    case False
    define r where "r = (d - 100 + 99) div 100"
    have r: "(d + 99) div 100 = Suc r"
      using False le_add_diff_inverse [of 100 d] div_add_self1 [of 100 "d - 100 + 99"] by (simp add: r_def add.assoc)
    obtain m' where "poll_exit machine_host p n m1 = (r < n, m')"
      "length (mc_procs m') = length (mc_procs m1)" "mc_time m' = mc_time m1 + 100 * min n r"
      "mc_procs m' ! p = (if r \<le> n then Exited else Ending (d - 100 - 100 * n))"
      using Suc.IH [of m1 "d - 100"] False m1 Suc.prems(1) by (auto simp: r_def)
    then show ?thesis
      unfolding step r using m1 by (intro exI [of _ m']) simp
  qed
qed auto

lemma machine_unload: "\<exists>m'. unload_tsf_ptp machine_host m = (Inr (), m')"
  using machine.is_loaded [of m]
  by (cases "mc_loaded m")
    (auto simp: unload_tsf_ptp_def unload_module_def machine_modules_def machine_output_def reply_def Let_def)

section \<open>Properties\<close>

text \<open>C20: Stopping a process always ends it, and in bounded time: a process that needs d milliseconds
  to end after SIGTERM is polled every 100 milliseconds until it has ended, for 5 seconds at most, and
  is killed exactly when it needs more than these 5 seconds; the stop succeeds in every case.\<close>

theorem stop_process_bounded:
  assumes "p < length (mc_procs m)" "mc_procs m ! p = Running d"
  shows "\<exists>m'. stop_process machine_host \<lparr>sp_child = p, sp_name = name\<rparr> m = (Inr (), m') \<and>
     mc_time m' = mc_time m + 100 * min 50 ((d + 99) div 100) \<and>
     mc_procs m' ! p = (if d \<le> 5000 then Exited else Killed)"
proof (cases "d = 0")
  case True
  define m1 where "m1 = machine_sigterm p m"
  have m1: "p < length (mc_procs m1)" "mc_procs m1 ! p = Exited" "mc_time m1 = mc_time m"
    using assms True by (simp_all add: m1_def machine_sigterm_def)
  then have "poll_exit machine_host p 50 m1 = (True, m1)" using poll_ended [of p m1 50] by (simp add: proc_alive_def)
  then show ?thesis using True m1 by (simp add: stop_process_def m1_def [symmetric])
next
  case False
  define m1 where "m1 = machine_sigterm p m"
  have m1: "p < length (mc_procs m1)" "mc_procs m1 ! p = Ending d" "mc_time m1 = mc_time m"
    using assms False by (simp_all add: m1_def machine_sigterm_def)
  obtain m2 where m2: "poll_exit machine_host p 50 m1 = ((d + 99) div 100 < 50, m2)" "length (mc_procs m2) = length (mc_procs m1)"
    "mc_time m2 = mc_time m1 + 100 * min 50 ((d + 99) div 100)"
    "mc_procs m2 ! p = (if (d + 99) div 100 \<le> 50 then Exited else Ending (d - 100 * 50))"
    using poll_ending [OF m1(1,2), of 50] False by auto
  have bound: "(d + 99) div 100 \<le> 50 \<longleftrightarrow> d \<le> 5000"
    using div_less_iff_less_mult [of 100 "d + 99" 51] by (simp add: less_Suc_eq_le [symmetric] del: div_less_iff_less_mult)
  show ?thesis
  proof (cases "(d + 99) div 100 < 50")
    case True
    then show ?thesis using m1 m2 bound by (simp add: stop_process_def m1_def [symmetric])
  next
    case late: False
    define m3 where "m3 = snd (machine_kill p m2)"
    define m4 where "m4 = snd (machine_wait p m3)"
    have kill: "machine_kill p m2 = (Inr (), m3)" "machine_wait p m3 = (Inr (), m4)"
      "mc_time m4 = mc_time m2" "mc_procs m4 ! p = (if d \<le> 5000 then Exited else Killed)"
      using m1(1) m2(2,4) bound
      by (auto simp: m3_def m4_def machine_kill_def machine_wait_def proc_alive_def)
    have "poll_exit machine_host p 50 m1 = (False, m2)" using m2(1) late by simp
    then show ?thesis
      using m1 m2(3) kill bound late by (simp add: stop_process_def m1_def [symmetric])
  qed
qed


definition machine_example :: machine where
  "machine_example =
     \<lparr>mc_cards = [\<lparr>mk_phy = ''phy0'', mk_driver = ''iwlwifi'', mk_clock = ''ptp0'', mk_native = True\<rparr>,
                  \<lparr>mk_phy = ''phy1'', mk_driver = ''iwlwifi'', mk_clock = ''ptp1'', mk_native = True\<rparr>],
      mc_loaded = False, mc_mac80211 = False, mc_modprobe = True, mc_params = [], mc_procs = [Running 250], mc_spawns = 1, mc_delay = 250,
      mc_signals = \<lparr>sig_once = False, sig_handler = None, sig_flags = []\<rparr>, mc_term_at = Some 2500,
      mc_time = 0, mc_out = [], mc_commands = []\<rparr>"

theorem stop_process_bounded_witness:
  "\<exists>m'. stop_process machine_host \<lparr>sp_child = 0, sp_name = ''phc2sys''\<rparr> machine_example = (Inr (), m') \<and>
     mc_time m' = 300 \<and> mc_procs m' ! 0 = Exited"
proof -
  have "0 < length (mc_procs machine_example)" "mc_procs machine_example ! 0 = Running 250" "mc_time machine_example = 0"
    by (simp_all add: machine_example_def)
  with stop_process_bounded [OF this(1,2), of "''phc2sys''"] show ?thesis by simp
qed

text \<open>C19: Loading and unloading refine the set of modules of the kernel: whatever the outcome of the
  commands and in whichever of the ways each can fail, a load reports success exactly when tsf\_ptp is loaded
  afterwards, and beside it can only have loaded modules that modprobe loads as its dependencies; if tsf\_ptp
  was loaded before, it does nothing at all; an unload reports success exactly when tsf\_ptp is not loaded
  afterwards, and removes no other module.\<close>

theorem module_load_unload:
  assumes env: "kernel_modules host loaded deps"
    and load: "load_tsf_ptp host thr mode primary ms w = (r, w1)" and unload: "unload_tsf_ptp host w1 = (r', w2)"
  shows "(''tsf_ptp'' \<in> loaded w1 \<longleftrightarrow> r = Inr ()) \<and>
         loaded w \<subseteq> loaded w1 \<and> loaded w1 \<subseteq> insert ''tsf_ptp'' (loaded w \<union> deps ''tsf_ptp'') \<and>
         (''tsf_ptp'' \<in> loaded w \<longrightarrow> w1 = w) \<and>
         (''tsf_ptp'' \<notin> loaded w2 \<longleftrightarrow> r' = Inr ()) \<and>
         loaded w2 = (if r' = Inr () then loaded w1 - {''tsf_ptp''} else loaded w1)"
  using kernel_modules.load_loaded [OF env load] kernel_modules.unload_loaded [OF env unload]
  by (auto simp: load_effect_def)

theorem module_load_unload_witness:
  "\<exists>w1 w2. load_tsf_ptp machine_host 5000 Ptp None (Some 10) machine_example = (Inr (), w1) \<and>
     unload_tsf_ptp machine_host w1 = (Inr (), w2) \<and> machine_modules machine_example = {''cfg80211''} \<and>
     machine_modules w1 = {''tsf_ptp'', ''mac80211'', ''cfg80211''} \<and> machine_modules w2 = {''mac80211'', ''cfg80211''}"
proof -
  have before: "machine_modules machine_example = {''cfg80211''}" by (simp add: machine_example_def machine_modules_def)
  then have "is_tsf_ptp_loaded (machine_fs machine_example) = Inr False"
    using machine.is_loaded [of machine_example] by simp
  moreover have "mc_modprobe machine_example" "\<not> mc_loaded machine_example" by (simp_all add: machine_example_def)
  ultimately have run: "fst (load_tsf_ptp machine_host 5000 Ptp None (Some 10) machine_example) = Inr () \<and>
      mc_mac80211 (snd (load_tsf_ptp machine_host 5000 Ptp None (Some 10) machine_example))"
    by (simp add: load_tsf_ptp_def load_module_def machine_output_def reply_def Let_def)
  then obtain w1 where w1: "load_tsf_ptp machine_host 5000 Ptp None (Some 10) machine_example = (Inr (), w1)" "mc_mac80211 w1"
    by (metis prod.collapse snd_conv)
  obtain w2 where w2: "unload_tsf_ptp machine_host w1 = (Inr (), w2)" using machine_unload by blast
  note both = module_load_unload [OF machine.kernel_modules_axioms w1(1) w2]
  have "mc_loaded w1" using both by (simp add: machine_modules_def split: if_splits)
  then have w1m: "machine_modules w1 = {''tsf_ptp'', ''mac80211'', ''cfg80211''}"
    using w1(2) by (simp add: machine_modules_def) blast
  have "machine_modules w2 = machine_modules w1 - {''tsf_ptp''}" using both by simp
  then have "machine_modules w2 = {''mac80211'', ''cfg80211''}" by (simp add: w1m insert_Diff_if)
  then show ?thesis using before w1(1) w1m w2 by blast
qed

end
