(* ===== verification/ConfigGen.thy ===== *)
theory ConfigGen
  imports Discovery
begin

text \<open>
  Generation of the ptp4l configuration (src/config_gen.rs): the choice of the primary card, the
  errors, and the text of the configuration, with a reader of that text as its specification.
\<close>

section \<open>The generator\<close>

datatype config_error = NoPtpClocks | PrimaryNotFound string | PrimaryNoPtp string | NoPrimary | OnlyOneClock

definition select_primary :: "wifi_card list \<Rightarrow> string \<Rightarrow> config_error + wifi_card" where
  "select_primary ptp_cards selection =
     (if selection \<noteq> ''auto''
      then (case find (\<lambda>c. wc_phy c = selection) ptp_cards of
              None \<Rightarrow> Inl (PrimaryNotFound selection)
            | Some c \<Rightarrow> if wc_ptp_clock c = None then Inl (PrimaryNoPtp selection) else Inr c)
      else (case find (\<lambda>c. wc_ptp_source c = Native) ptp_cards of
              Some c \<Rightarrow> Inr c
            | None \<Rightarrow> (case ptp_cards of [] \<Rightarrow> Inl NoPrimary | c # _ \<Rightarrow> Inr c)))"

definition writeln :: "string \<Rightarrow> string" where
  "writeln l = l @ [newline]"

definition secondary_section :: "wifi_card \<Rightarrow> string" where
  "secondary_section c =
     writeln [] @ writeln (''# Secondary: '' @ wc_phy c @ '' ('' @ wc_driver c @ '')'') @
     writeln (''['' @ the (wc_ptp_clock c) @ '']'')"

definition config_text :: "wifi_card \<Rightarrow> wifi_card list \<Rightarrow> string" where
  "config_text primary ptp_cards =
     writeln ''[global]'' @
     writeln ''clockClass              248'' @
     writeln ''priority1               128'' @
     writeln ''priority2               128'' @
     writeln ''domainNumber            42'' @
     writeln [] @
     writeln (''# Primary: '' @ wc_phy primary @ '' ('' @ wc_driver primary @ '')'') @
     writeln (''['' @ the (wc_ptp_clock primary) @ '']'') @
     writeln ''serverOnly              1'' @
     concat (map (\<lambda>c. if wc_phy c = wc_phy primary then [] else secondary_section c) ptp_cards)"

definition cards_with_clock :: "wifi_card list \<Rightarrow> wifi_card list" where
  "cards_with_clock cards = filter (\<lambda>c. wc_ptp_clock c \<noteq> None) cards"

definition generate_config :: "wifi_card list \<Rightarrow> string \<Rightarrow> config_error + string" where
  "generate_config cards primary_selection =
     (let ptp_cards = cards_with_clock cards
      in if ptp_cards = [] then Inl NoPtpClocks
         else if length ptp_cards < 2 then Inl OnlyOneClock
         else (case select_primary ptp_cards primary_selection of
                 Inl e \<Rightarrow> Inl e
               | Inr primary \<Rightarrow> Inr (config_text primary ptp_cards)))"

section \<open>Reading a configuration back\<close>

text \<open>
  The configuration as ptp4l's documented format reads it: a line in brackets opens a section, an
  empty line or one that starts with a hash is skipped, any other line is an option of the section
  opened last, its name and value separated by blanks.
\<close>

type_synonym config_sections = "(string \<times> string list list) list"

fun add_option :: "string \<Rightarrow> config_sections \<Rightarrow> config_sections" where
  "add_option l [] = []"
| "add_option l ((n, os) # ss) = (n, os @ [split_whitespace l]) # ss"

fun read_config :: "string list \<Rightarrow> config_sections \<Rightarrow> config_sections" where
  "read_config [] ss = rev ss"
| "read_config (l # ls) ss =
     (if l = [] \<or> hd l = CHR ''#'' then read_config ls ss
      else if hd l = CHR ''['' \<and> last l = CHR '']'' then read_config ls ((butlast (tl l), []) # ss)
      else read_config ls (add_option l ss))"

definition global_section :: "string \<times> string list list" where
  "global_section =
     (''global'', [[''clockClass'', ''248''], [''priority1'', ''128''], [''priority2'', ''128''], [''domainNumber'', ''42'']])"

text \<open>Names that survive on a line of their own.\<close>

definition printable :: "string \<Rightarrow> bool" where
  "printable s \<longleftrightarrow> newline \<notin> set s"

definition card_printable :: "wifi_card \<Rightarrow> bool" where
  "card_printable c \<longleftrightarrow> printable (wc_phy c) \<and> printable (wc_driver c) \<and> printable (the (wc_ptp_clock c))"

section \<open>Lemmas\<close>

definition secondary_lines :: "wifi_card \<Rightarrow> string list" where
  "secondary_lines c =
     [[], ''# Secondary: '' @ wc_phy c @ '' ('' @ wc_driver c @ '')'', ''['' @ the (wc_ptp_clock c) @ '']'']"

definition config_lines :: "wifi_card \<Rightarrow> wifi_card list \<Rightarrow> string list" where
  "config_lines primary cards =
     [''[global]'', ''clockClass              248'', ''priority1               128'',
      ''priority2               128'', ''domainNumber            42'', [],
      ''# Primary: '' @ wc_phy primary @ '' ('' @ wc_driver primary @ '')'',
      ''['' @ the (wc_ptp_clock primary) @ '']'', ''serverOnly              1''] @
     concat (map secondary_lines (filter (\<lambda>c. wc_phy c \<noteq> wc_phy primary) cards))"

lemma unlines_append [simp]: "unlines (xs @ ys) = unlines xs @ unlines ys"
  by (simp add: unlines_def)

lemma unlines_Cons: "unlines (x # xs) = x @ newline # unlines xs"
  by (simp add: unlines_def)

lemma unlines_Nil [simp]: "unlines [] = []"
  by (simp add: unlines_def)

lemma config_text_lines: "config_text primary cards = unlines (config_lines primary cards)"
proof -
  have "concat (map (\<lambda>c. if wc_phy c = wc_phy primary then [] else secondary_section c) cards) =
        unlines (concat (map secondary_lines (filter (\<lambda>c. wc_phy c \<noteq> wc_phy primary) cards)))"
    by (induction cards) (simp_all add: secondary_section_def secondary_lines_def writeln_def unlines_Cons)
  then show ?thesis by (simp add: config_text_def config_lines_def writeln_def unlines_Cons)
qed

lemma chomp_snoc: "c \<noteq> CHR 0x0D \<Longrightarrow> chomp (s @ [c]) = s @ [c]"
  by (simp add: chomp_def)

lemma secondary_lines_clean: "card_printable c \<Longrightarrow> list_all clean (secondary_lines c)"
  by (simp add: secondary_lines_def clean_def card_printable_def printable_def newline_def chomp_def)

lemma config_lines_clean:
  assumes "card_printable primary" "\<forall>c \<in> set cards. card_printable c"
  shows "list_all clean (config_lines primary cards)"
proof -
  have "list_all clean (concat (map secondary_lines (filter (\<lambda>c. wc_phy c \<noteq> wc_phy primary) cards)))"
    using assms(2) secondary_lines_clean by (auto simp: list_all_iff)
  then show ?thesis
    using assms(1) by (simp add: config_lines_def clean_def card_printable_def printable_def newline_def chomp_def)
qed

lemma read_secondary:
  "read_config (concat (map secondary_lines cs)) ss = rev ss @ map (\<lambda>c. (the (wc_ptp_clock c), [])) cs"
  by (induction cs arbitrary: ss) (simp_all add: secondary_lines_def butlast_append)

lemma options_split:
  "split_whitespace ''clockClass              248'' = [''clockClass'', ''248'']"
  "split_whitespace ''priority1               128'' = [''priority1'', ''128'']"
  "split_whitespace ''priority2               128'' = [''priority2'', ''128'']"
  "split_whitespace ''domainNumber            42'' = [''domainNumber'', ''42'']"
  "split_whitespace ''serverOnly              1'' = [''serverOnly'', ''1'']"
  by (simp_all add: split_whitespace_def is_space_def)

lemma read_config_lines:
  "read_config (config_lines primary cards) [] =
     global_section # (the (wc_ptp_clock primary), [[''serverOnly'', ''1'']]) #
     map (\<lambda>c. (the (wc_ptp_clock c), [])) (filter (\<lambda>c. wc_phy c \<noteq> wc_phy primary) cards)"
  by (simp add: config_lines_def read_secondary options_split global_section_def butlast_append)

lemma read_config_text:
  assumes "card_printable primary" "\<forall>c \<in> set cards. card_printable c"
  shows "read_config (str_lines (config_text primary cards)) [] =
     global_section # (the (wc_ptp_clock primary), [[''serverOnly'', ''1'']]) #
     map (\<lambda>c. (the (wc_ptp_clock c), [])) (filter (\<lambda>c. wc_phy c \<noteq> wc_phy primary) cards)"
proof -
  have "str_lines (config_text primary cards) = config_lines primary cards"
    using config_lines_clean [OF assms] str_lines_unlines
    by (simp add: config_text_lines)
  then show ?thesis by (simp add: read_config_lines)
qed

lemma find_Some_in: "find P xs = Some x \<Longrightarrow> x \<in> set xs \<and> P x"
  by (auto simp: find_Some_iff)

lemma select_primary_in: "select_primary cards sel = Inr p \<Longrightarrow> p \<in> set cards"
  by (auto simp: select_primary_def split: if_splits option.splits list.splits dest: find_Some_in)

lemma select_primary_named:
  assumes "\<forall>c \<in> set cards. wc_ptp_clock c \<noteq> None" "sel \<noteq> ''auto''"
  shows "select_primary cards sel =
     (case find (\<lambda>c. wc_phy c = sel) cards of None \<Rightarrow> Inl (PrimaryNotFound sel) | Some c \<Rightarrow> Inr c)"
proof (cases "find (\<lambda>c. wc_phy c = sel) cards")
  case (Some c)
  then have "wc_ptp_clock c \<noteq> None" using assms(1) find_Some_in by metis
  then show ?thesis using Some assms(2) by (simp add: select_primary_def)
qed (use assms(2) in \<open>simp add: select_primary_def\<close>)

lemma select_primary_auto:
  "cards \<noteq> [] \<Longrightarrow> \<exists>c. select_primary cards ''auto'' = Inr c"
  by (cases cards) (simp_all add: select_primary_def split: option.split)

lemma filter_length_two: "length xs < 2 \<longleftrightarrow> xs = [] \<or> (\<exists>x. xs = [x])"
  by (cases xs; cases "tl xs") auto

text \<open>Where the primary stands among the cards.\<close>

definition primary_position :: "string \<Rightarrow> wifi_card list \<Rightarrow> wifi_card \<Rightarrow> wifi_card list \<Rightarrow> bool" where
  "primary_position sel us p vs \<longleftrightarrow>
     (if sel = ''auto''
      then (\<forall>c \<in> set us. wc_ptp_source c \<noteq> Native) \<and>
           (wc_ptp_source p = Native \<or> us = [] \<and> (\<forall>c \<in> set vs. wc_ptp_source c \<noteq> Native))
      else wc_phy p = sel)"

lemma find_split: "find P xs = Some x \<Longrightarrow> \<exists>us vs. xs = us @ x # vs \<and> P x \<and> (\<forall>u \<in> set us. \<not> P u)"
proof (induction xs)
  case (Cons y ys)
  show ?case
  proof (cases "P y")
    case True
    then show ?thesis using Cons.prems by (intro exI [of _ "[]"] exI [of _ ys]) simp
  next
    case False
    then obtain us vs where "ys = us @ x # vs" "P x" "\<forall>u \<in> set us. \<not> P u" using Cons by auto
    then show ?thesis using False by (intro exI [of _ "y # us"] exI [of _ vs]) simp
  qed
qed simp

lemma select_primary_position:
  assumes "select_primary cs sel = Inr p"
  shows "\<exists>us vs. cs = us @ p # vs \<and> primary_position sel us p vs"
proof (cases "sel = ''auto''")
  case False
  then have "find (\<lambda>c. wc_phy c = sel) cs = Some p"
    using assms by (auto simp: select_primary_def split: option.splits if_splits)
  from find_split [OF this] show ?thesis using False by (auto simp: primary_position_def)
next
  case True
  show ?thesis
  proof (cases "find (\<lambda>c. wc_ptp_source c = Native) cs")
    case None
    then obtain vs where "cs = p # vs" using assms True by (cases cs) (auto simp: select_primary_def)
    then show ?thesis using None True by (intro exI [of _ "[]"] exI [of _ vs]) (auto simp: primary_position_def find_None_iff)
  next
    case (Some c)
    then have "c = p" using assms True by (simp add: select_primary_def)
    then show ?thesis using find_split [OF Some] True by (auto simp: primary_position_def)
  qed
qed

lemma config_text_sections:
  assumes "select_primary cs sel = Inr p" "\<forall>c \<in> set cs. card_printable c" "distinct (map wc_phy cs)"
  shows "\<exists>p' us vs. cs = us @ p' # vs \<and>
     read_config (str_lines (config_text p cs)) [] =
       global_section # (the (wc_ptp_clock p'), [[''serverOnly'', ''1'']]) #
       map (\<lambda>c. (the (wc_ptp_clock c), [])) (us @ vs) \<and>
     primary_position sel us p' vs"
proof -
  obtain us vs where split: "cs = us @ p # vs" and pos: "primary_position sel us p vs"
    using select_primary_position [OF assms(1)] by blast
  have "filter (\<lambda>c. wc_phy c \<noteq> wc_phy p) cs = us @ vs"
    using assms(3) unfolding split by (auto simp: filter_id_conv intro!: arg_cong2 [where f = "(@)"]) (metis imageI)+
  then have "read_config (str_lines (config_text p cs)) [] = global_section # (the (wc_ptp_clock p), [[''serverOnly'', ''1'']]) #
     map (\<lambda>c. (the (wc_ptp_clock c), [])) (us @ vs)"
    using read_config_text [of p cs] assms(2) split by simp
  then show ?thesis using split pos by (intro exI [of _ p] exI [of _ us] exI [of _ vs]) simp
qed

lemma generate_config_primary:
  assumes "generate_config cards sel = Inr text"
  obtains p where "select_primary (cards_with_clock cards) sel = Inr p" "text = config_text p (cards_with_clock cards)"
  using assms by (auto simp: generate_config_def Let_def split: if_splits sum.splits)

lemma with_clock_distinct: "distinct (map wc_phy cards) \<Longrightarrow> distinct (map wc_phy (cards_with_clock cards))"
  by (simp add: cards_with_clock_def distinct_map_filter)

section \<open>Properties\<close>

text \<open>C32: The outcome of the configuration is decided by the cards alone: no card with a clock
  gives the no-clocks error, one gives the only-one error, a named primary that is not among the
  cards with a clock gives the not-found error with its name, and in every other case there is a
  configuration, the text for the primary and the cards that have a clock.  The two other errors
  cannot occur.\<close>

theorem generate_config_outcome:
  "generate_config cards sel =
     (let cs = cards_with_clock cards
      in if length cs = 0 then Inl NoPtpClocks
         else if length cs = 1 then Inl OnlyOneClock
         else if sel \<noteq> ''auto'' \<and> sel \<notin> set (map wc_phy cs) then Inl (PrimaryNotFound sel)
         else Inr (config_text (projr (select_primary cs sel)) cs))"
proof -
  define cs where "cs = cards_with_clock cards"
  have clocks: "\<forall>c \<in> set cs. wc_ptp_clock c \<noteq> None" by (simp add: cs_def cards_with_clock_def)
  have code: "generate_config cards sel =
    (if length cs = 0 then Inl NoPtpClocks else if length cs = 1 then Inl OnlyOneClock
     else (case select_primary cs sel of Inl e \<Rightarrow> Inl e | Inr p \<Rightarrow> Inr (config_text p cs)))"
    by (simp add: generate_config_def Let_def cs_def [symmetric] less_2_cases_iff)
  show ?thesis
  proof (cases "sel = ''auto''")
    case True
    then show ?thesis using select_primary_auto [of cs] unfolding code by (auto simp: cs_def [symmetric] Let_def)
  next
    case False
    have "find (\<lambda>c. wc_phy c = sel) cs = None \<longleftrightarrow> sel \<notin> set (map wc_phy cs)"
      by (auto simp: find_None_iff)
    then show ?thesis
      using False select_primary_named [OF clocks False]
      by (cases "find (\<lambda>c. wc_phy c = sel) cs") (simp_all add: code cs_def [symmetric] Let_def)
  qed
qed

text \<open>The configuration describes exactly the cards: read back by the rules of the format, it is
  the global section with the four options of the domain, a section for the clock of the primary
  card with serverOnly as its one option, and one section without options for the clock of every
  other card with a clock, so that with distinct phy names every clock has one section and exactly
  one server.  The primary is the card asked for, or with auto the first card with a native clock
  and the first card where there is none.\<close>

theorem generate_config_sections:
  assumes "generate_config cards sel = Inr text" "\<forall>c \<in> set (cards_with_clock cards). card_printable c" "distinct (map wc_phy cards)"
  shows "\<exists>p us vs. cards_with_clock cards = us @ p # vs \<and>
     read_config (str_lines text) [] =
       global_section # (the (wc_ptp_clock p), [[''serverOnly'', ''1'']]) #
       map (\<lambda>c. (the (wc_ptp_clock c), [])) (us @ vs) \<and>
     primary_position sel us p vs"
proof -
  obtain p where p: "select_primary (cards_with_clock cards) sel = Inr p" "text = config_text p (cards_with_clock cards)"
    using assms(1) by (rule generate_config_primary)
  with config_text_sections [OF p(1) assms(2) with_clock_distinct [OF assms(3)]] show ?thesis by simp
qed


definition cards_example :: "wifi_card list" where
  "cards_example =
     [\<lparr>wc_phy = ''phy0'', wc_driver = ''mt76'', wc_ptp_clock = Some ''/dev/ptp0'', wc_ptp_source = TsfPtp, wc_can_set_tsf = True\<rparr>,
      \<lparr>wc_phy = ''phy1'', wc_driver = ''ath6kl'', wc_ptp_clock = None, wc_ptp_source = NoSource, wc_can_set_tsf = False\<rparr>,
      \<lparr>wc_phy = ''phy2'', wc_driver = ''iwlwifi'', wc_ptp_clock = Some ''/dev/ptp1'', wc_ptp_source = Native, wc_can_set_tsf = True\<rparr>]"

theorem generate_config_sections_witness:
  "\<exists>text p us vs. generate_config cards_example ''auto'' = Inr text \<and> cards_with_clock cards_example = us @ p # vs \<and>
     read_config (str_lines text) [] =
       global_section # (the (wc_ptp_clock p), [[''serverOnly'', ''1'']]) #
       map (\<lambda>c. (the (wc_ptp_clock c), [])) (us @ vs) \<and> primary_position ''auto'' us p vs"
proof -
  have "\<exists>text. generate_config cards_example ''auto'' = Inr text"
    by (simp add: cards_example_def generate_config_def cards_with_clock_def select_primary_def)
  moreover have "\<forall>c \<in> set (cards_with_clock cards_example). card_printable c" "distinct (map wc_phy cards_example)"
    by (simp_all add: cards_example_def cards_with_clock_def card_printable_def printable_def newline_def)
  ultimately show ?thesis using generate_config_sections by metis
qed

end
