(* ===== verification/Health.thy ===== *)
theory Health
  imports Host
begin

text \<open>
  Health of the synchronisation (src/health.rs): the query of ptp4l through pmc and the parser of
  its report, the table of the statuses, the counters of the kernel module, and the classification
  of an offset.
\<close>

section \<open>Model\<close>

datatype health_error = PmcExec io_error | PmcNotFound | ParseError string

datatype health_state = Converging | Healthy | Degraded | Failed | Removed

definition health_state_fmt :: "health_state \<Rightarrow> string" where
  "health_state_fmt h = (case h of Converging \<Rightarrow> ''CONVERGING'' | Healthy \<Rightarrow> ''HEALTHY''
     | Degraded \<Rightarrow> ''DEGRADED'' | Failed \<Rightarrow> ''FAILED'' | Removed \<Rightarrow> ''REMOVED'')"

definition health_error_fmt :: "(io_error \<Rightarrow> string) \<Rightarrow> health_error \<Rightarrow> string" where
  "health_error_fmt show_error e = (case e of
     PmcExec e \<Rightarrow> ''failed to run pmc: '' @ show_error e
   | PmcNotFound \<Rightarrow> ''pmc not found '' @ em_dash @ '' is linuxptp installed?''
   | ParseError s \<Rightarrow> ''failed to parse pmc output: '' @ s)"

record clock_status =
  cs_port :: string
  cs_port_state :: string
  cs_offset_ns :: "i64 option"
  cs_path_delay_ns :: "i64 option"
  cs_health :: health_state

definition state_health :: "string \<Rightarrow> health_state" where
  "state_health state =
     (if state = ''MASTER'' then Healthy
      else if state = ''SLAVE'' then Healthy
      else if state \<in> {''LISTENING'', ''UNCALIBRATED'', ''PRE_MASTER''} then Converging
      else if state \<in> {''FAULTY'', ''DISABLED''} then Failed
      else Converging)"

definition port_status :: "string \<Rightarrow> string \<Rightarrow> clock_status" where
  "port_status port state =
     \<lparr>cs_port = port, cs_port_state = state, cs_offset_ns = None, cs_path_delay_ns = None,
      cs_health = state_health state\<rparr>"

fun parse_lines :: "string list \<Rightarrow> string option \<Rightarrow> string option \<Rightarrow> clock_status list \<Rightarrow> clock_status list" where
  "parse_lines [] current_port current_state statuses = statuses"
| "parse_lines (l # ls) current_port current_state statuses =
     (let l = trim l;
          (current_port, current_state) =
            (if starts_with ''portIdentity'' l then (last_word l, current_state)
             else if starts_with ''portState'' l then (current_port, last_word l)
             else (current_port, current_state))
      in case (current_port, current_state) of
           (Some port, Some state) \<Rightarrow> parse_lines ls None None (statuses @ [port_status port state])
         | _ \<Rightarrow> parse_lines ls current_port current_state statuses)"

definition parse_port_data_set :: "string \<Rightarrow> health_error + clock_status list" where
  "parse_port_data_set output = Inr (parse_lines (str_lines output) None None [])"

definition query_health :: "'w host \<Rightarrow> string \<Rightarrow> 'w \<Rightarrow> (health_error + clock_status list) \<times> 'w" where
  "query_health host uds_path w =
     (case h_output host ''pmc'' [''-u'', ''-b'', ''0'', ''-s'', uds_path, ''GET'', ''PORT_DATA_SET''] w of
        (Inl e, w) \<Rightarrow> (Inl (if io_kind e = NotFound then PmcNotFound else PmcExec e), w)
      | (Inr output, w) \<Rightarrow> (parse_port_data_set (out_stdout output), w))"

text \<open>
  The HEALTH column: the state prints itself with \<open>write!\<close>, which ignores the width asked for.
\<close>

definition status_row :: "clock_status \<Rightarrow> string" where
  "status_row s =
     (let field = (\<lambda>v. case v of Some o' \<Rightarrow> show_int (sint o') @ '' ns'' | None \<Rightarrow> em_dash)
      in pad_right 20 (cs_port s) @ '' '' @ pad_right 14 (cs_port_state s) @ '' '' @
         health_state_fmt (cs_health s) @ '' '' @ pad_right 14 (field (cs_offset_ns s)) @ '' '' @
         field (cs_path_delay_ns s) @ [newline])"

definition format_status_table :: "clock_status list \<Rightarrow> string" where
  "format_status_table statuses =
     pad_right 20 ''PORT'' @ '' '' @ pad_right 14 ''STATE'' @ '' '' @ pad_right 12 ''HEALTH'' @ '' '' @
     pad_right 14 ''OFFSET'' @ '' '' @ ''PATH DELAY'' @ [newline] @ concat (map status_row statuses)"

record kernel_sync_status =
  ks_sync_count :: i64
  ks_sync_error_count :: i64
  ks_adjtime_skip_count :: i64
  ks_adjtime_apply_count :: i64

definition read_param :: "fs \<Rightarrow> string \<Rightarrow> health_error + i64" where
  "read_param fs name =
     (case fs_read_to_string fs (''/sys/module/tsf_ptp/parameters/'' @ name) of
        Inl e \<Rightarrow> Inl (PmcExec e)
      | Inr s \<Rightarrow> (case parse_i64 (trim s) of
                    Some v \<Rightarrow> Inr v
                  | None \<Rightarrow> Inl (ParseError (name @ '': '' @ i64_error (trim s)))))"

definition query_kernel_sync_health :: "fs \<Rightarrow> health_error + kernel_sync_status" where
  "query_kernel_sync_health fs =
     (case read_param fs ''sync_count'' of
        Inl e \<Rightarrow> Inl e
      | Inr a \<Rightarrow>
          (case read_param fs ''sync_error_count'' of
             Inl e \<Rightarrow> Inl e
           | Inr b \<Rightarrow>
               (case read_param fs ''adjtime_skip_count'' of
                  Inl e \<Rightarrow> Inl e
                | Inr c \<Rightarrow>
                    (case read_param fs ''adjtime_apply_count'' of
                       Inl e \<Rightarrow> Inl e
                     | Inr d \<Rightarrow> Inr \<lparr>ks_sync_count = a, ks_sync_error_count = b,
                                   ks_adjtime_skip_count = c, ks_adjtime_apply_count = d\<rparr>))))"

abbreviation healthy_threshold_ns :: i64 where "healthy_threshold_ns \<equiv> 1000000"

definition classify_offset :: "profile \<Rightarrow> i64 \<Rightarrow> health_state option" where
  "classify_offset pr offset_ns =
     do { a \<leftarrow> (if offset_ns <s 0 then neg_i64 pr offset_ns else Some offset_ns);
          Some (if a <s healthy_threshold_ns then Healthy else Converging) }"

section \<open>Lemmas\<close>

text \<open>
  What a line of the report says: the port it names, the state it names, or neither.
\<close>

definition says_port :: "string \<Rightarrow> string \<Rightarrow> bool" where
  "says_port p l \<longleftrightarrow> starts_with ''portIdentity'' (trim l) \<and> last_word (trim l) = Some p"

definition says_state :: "string \<Rightarrow> string \<Rightarrow> bool" where
  "says_state s l \<longleftrightarrow> starts_with ''portState'' (trim l) \<and> last_word (trim l) = Some s"

definition says_nothing :: "string \<Rightarrow> bool" where
  "says_nothing l \<longleftrightarrow> \<not> starts_with ''portIdentity'' (trim l) \<and> \<not> starts_with ''portState'' (trim l)"

lemma identity_not_state: "starts_with ''portState'' l \<Longrightarrow> \<not> starts_with ''portIdentity'' l"
  by (auto simp: starts_with_iff)

lemma parse_lines_port:
  "says_port p l \<Longrightarrow> parse_lines (l # ls) cp None sts = parse_lines ls (Some p) None sts"
  by (simp add: says_port_def Let_def)

lemma parse_lines_state:
  "says_state s l \<Longrightarrow> parse_lines (l # ls) (Some p) None sts = parse_lines ls None None (sts @ [port_status p s])"
  by (simp add: says_state_def Let_def identity_not_state)

lemma parse_lines_noise:
  "list_all says_nothing ns \<Longrightarrow> cp = None \<or> cs = None \<Longrightarrow>
   parse_lines (ns @ ls) cp cs sts = parse_lines ls cp cs sts"
  by (induction ns) (auto simp: says_nothing_def Let_def split: option.split)

text \<open>The part of a report about one port.\<close>

definition port_report :: "string list \<Rightarrow> string \<Rightarrow> string \<Rightarrow> bool" where
  "port_report ls p s \<longleftrightarrow>
     (\<exists>as l bs m cs. ls = as @ [l] @ bs @ [m] @ cs \<and> says_port p l \<and> says_state s m \<and>
        list_all says_nothing as \<and> list_all says_nothing bs \<and> list_all says_nothing cs)"

lemma parse_lines_report:
  assumes "port_report ls p s"
  shows "parse_lines (ls @ rest) None None sts = parse_lines rest None None (sts @ [port_status p s])"
proof -
  obtain as l bs m cs where ls: "ls = as @ [l] @ bs @ [m] @ cs" and says: "says_port p l" "says_state s m"
      "list_all says_nothing as" "list_all says_nothing bs" "list_all says_nothing cs"
    using assms unfolding port_report_def by blast
  show ?thesis
    unfolding ls using says
    by (simp only: append_assoc append_Cons append_Nil parse_lines_noise parse_lines_port parse_lines_state simp_thms)
qed

lemma parse_lines_reports:
  "list_all2 (\<lambda>ls (p, s). port_report ls p s) reports ports \<Longrightarrow>
   parse_lines (concat reports) None None sts = sts @ map (\<lambda>(p, s). port_status p s) ports"
proof (induction arbitrary: sts rule: list_all2_induct)
  case (Cons ls reports port ports)
  then show ?case using parse_lines_report by (cases port) simp
qed simp

definition status_wf :: "clock_status \<Rightarrow> bool" where
  "status_wf s \<longleftrightarrow> cs_offset_ns s = None \<and> cs_path_delay_ns s = None \<and>
     cs_health s \<in> {Healthy, Converging, Failed} \<and>
     (cs_health s = Healthy \<longleftrightarrow> cs_port_state s \<in> {''MASTER'', ''SLAVE''}) \<and>
     (cs_health s = Failed \<longleftrightarrow> cs_port_state s \<in> {''FAULTY'', ''DISABLED''})"

lemma port_status_wf: "status_wf (port_status p s)"
  by (auto simp: status_wf_def port_status_def state_health_def)

lemma parse_lines_wf: "list_all status_wf sts \<Longrightarrow> list_all status_wf (parse_lines ls cp cs sts)"
  by (induction ls cp cs sts rule: parse_lines.induct)
    (auto simp: Let_def port_status_wf split: option.splits if_splits)

text \<open>The layout of pmc: two tabs, the name of the field, blanks up to a fixed column, the value.\<close>

definition token :: "string \<Rightarrow> bool" where
  "token v \<longleftrightarrow> v \<noteq> [] \<and> list_all (\<lambda>c. \<not> is_space c) v"

definition pmc_field :: "string \<Rightarrow> string \<Rightarrow> string" where
  "pmc_field name v = [CHR 0x09, CHR 0x09] @ pad_right 24 name @ v"

definition pmc_port :: "string \<times> string \<times> string list \<Rightarrow> string list" where
  "pmc_port = (\<lambda>(p, s, rest).
     ([CHR 0x09] @ p @ '' seq 0 RESPONSE MANAGEMENT PORT_DATA_SET '') #
     pmc_field ''portIdentity'' p # pmc_field ''portState'' s # rest)"

definition pmc_report :: "(string \<times> string \<times> string list) list \<Rightarrow> string" where
  "pmc_report ports = unlines (''sending: GET PORT_DATA_SET'' # concat (map pmc_port ports))"

lemma token_ends: "token v \<Longrightarrow> \<not> is_space (hd v) \<and> \<not> is_space (last v) \<and> v \<noteq> []"
  by (cases v) (auto simp: token_def list_all_iff)

lemma trim_tabs:
  assumes "list_all is_space us" "\<not> is_space (hd v)" "\<not> is_space (last v)" "v \<noteq> []"
  shows "trim (us @ v) = v"
proof -
  have "dropWhile is_space (us @ v) = v"
    using assms by (cases v) (auto simp: dropWhile_append2 list_all_iff)
  moreover have "trim v = v" by (rule trim_id) (use assms in auto)
  moreover have "dropWhile is_space v = v" using assms by (cases v) auto
  ultimately show ?thesis by (simp add: trim_def)
qed

lemma pad_right_blanks: "pad_right n s = s @ replicate (n - char_count s) (CHR '' '')"
  by (simp add: pad_right_def)

lemma pmc_field_trim:
  assumes "token v" "token name"
  shows "trim (pmc_field name v) = pad_right 24 name @ v"
proof -
  have "list_all is_space [CHR 0x09, CHR 0x09]" by (simp add: is_space_def)
  moreover have "hd (pad_right 24 name @ v) = hd name" "last (pad_right 24 name @ v) = last v"
    using token_ends [OF assms(1)] token_ends [OF assms(2)] by (simp_all add: pad_right_blanks)
  ultimately show ?thesis
    unfolding pmc_field_def using token_ends [OF assms(1)] token_ends [OF assms(2)]
    by (intro trim_tabs) (auto simp: pad_right_blanks)
qed

lemma pmc_field_words:
  assumes "token v" "token name" "char_count name < 24"
  shows "last_word (pad_right 24 name @ v) = Some v"
proof -
  have "split_whitespace (name @ replicate (24 - char_count name) (CHR '' '') @ v) = [name, v]"
    using assms by (intro split_two_words) (auto simp: token_def list_all_iff is_space_def)
  then show ?thesis by (simp add: last_word_def pad_right_blanks)
qed

lemma pmc_names:
  "token ''portIdentity''" "token ''portState''" "char_count ''portIdentity'' < 24" "char_count ''portState'' < 24"
  by (simp_all add: token_def is_space_def char_count_def)

lemma says_pmc:
  assumes "token v"
  shows "says_port v (pmc_field ''portIdentity'' v)" "says_state v (pmc_field ''portState'' v)"
  unfolding says_port_def says_state_def pmc_field_trim [OF assms pmc_names(1)] pmc_field_trim [OF assms pmc_names(2)]
    pmc_field_words [OF assms pmc_names(1,3)] pmc_field_words [OF assms pmc_names(2,4)]
  by (simp_all add: pad_right_blanks starts_with_def)

lemma trim_prefix: "\<exists>ys. dropWhile is_space s = trim s @ ys"
proof -
  define t where "t = dropWhile is_space s"
  have "rev t = takeWhile is_space (rev t) @ dropWhile is_space (rev t)" by simp
  then have "t = rev (dropWhile is_space (rev t)) @ rev (takeWhile is_space (rev t))"
    by (metis rev_append rev_rev_ident)
  then show ?thesis unfolding trim_def t_def by blast
qed

lemma says_nothing_hd:
  assumes "dropWhile is_space l = c # cs" "c \<noteq> CHR ''p''"
  shows "says_nothing l"
  using trim_prefix [of l] assms by (cases "trim l") (auto simp: says_nothing_def starts_with_def)

definition port_ok :: "string \<times> string \<times> string list \<Rightarrow> bool" where
  "port_ok = (\<lambda>(p, s, rest). token p \<and> hd p \<noteq> CHR ''p'' \<and> token s \<and>
     (\<forall>l \<in> set rest. says_nothing l \<and> clean l))"

lemma pmc_port_report:
  assumes "port_ok (p, s, rest)"
  shows "port_report (pmc_port (p, s, rest)) p s"
proof -
  have ok: "token p" "hd p \<noteq> CHR ''p''" "token s" "list_all says_nothing rest"
    using assms by (auto simp: port_ok_def list_all_iff)
  obtain c cs where p: "p = c # cs" "\<not> is_space c" using ok(1) by (cases p) (auto simp: token_def)
  have "says_nothing ([CHR 0x09] @ p @ '' seq 0 RESPONSE MANAGEMENT PORT_DATA_SET '')"
    by (rule says_nothing_hd [of _ c]) (use p ok(2) in \<open>simp_all add: is_space_def\<close>)
  then show ?thesis
    unfolding port_report_def pmc_port_def prod.case
    using says_pmc [OF ok(1)] says_pmc [OF ok(3)] ok(4)
    by (intro exI [of _ "[[CHR 0x09] @ p @ '' seq 0 RESPONSE MANAGEMENT PORT_DATA_SET '']"]
              exI [of _ "pmc_field ''portIdentity'' p"] exI [of _ "[]"]
              exI [of _ "pmc_field ''portState'' s"] exI [of _ rest]) simp
qed

lemma token_clean: "token v \<Longrightarrow> newline \<notin> set v \<and> last v \<noteq> CHR 0x0D"
proof -
  assume v: "token v"
  then have "\<forall>c \<in> set v. \<not> is_space c" by (simp add: token_def list_all_iff)
  moreover have "\<not> is_space (last v)" "is_space (CHR 0x0D)" "is_space newline"
    using token_ends [OF v] by (simp_all add: is_space_def newline_def)
  ultimately show ?thesis by metis
qed

lemma clean_append: "newline \<notin> set us \<Longrightarrow> token v \<Longrightarrow> clean (us @ v)"
  using token_clean [of v] token_ends [of v] by (simp add: clean_def chomp_def)

lemma pmc_field_clean: "newline \<notin> set name \<Longrightarrow> token v \<Longrightarrow> clean (pmc_field name v)"
  unfolding pmc_field_def pad_right_blanks append_assoc [symmetric]
  by (rule clean_append) (auto simp: newline_def)

lemma pmc_header_clean: "newline \<notin> set p \<Longrightarrow> clean ([CHR 0x09] @ p @ '' seq 0 RESPONSE MANAGEMENT PORT_DATA_SET '')"
  by (simp add: clean_def chomp_def newline_def)

lemma clean_sending: "clean ''sending: GET PORT_DATA_SET''"
  by (simp add: clean_def chomp_def newline_def)

lemma pmc_port_clean:
  assumes "port_ok (p, s, rest)" "l \<in> set (pmc_port (p, s, rest))"
  shows "clean l"
proof -
  have ok: "token p" "token s" "\<forall>l \<in> set rest. clean l"
    using assms(1) by (auto simp: port_ok_def)
  have "newline \<notin> set ''portIdentity''" "newline \<notin> set ''portState''" by (simp_all add: newline_def)
  note fields = pmc_field_clean [OF this(1) ok(1)] pmc_field_clean [OF this(2) ok(2)]
  have "newline \<notin> set p" using token_clean [OF ok(1)] by simp
  from pmc_header_clean [OF this] fields ok(3) show ?thesis
    using assms(2) unfolding pmc_port_def prod.case by (simp only: list.set insert_iff) blast
qed

section \<open>Properties\<close>

text \<open>C25: The parser reads every port of a report in the layout of pmc: for any list of ports with
  an identity and a state that are single words, the identity not starting with p (pmc prints hexadecimal ones),
  whatever other fields follow them, the statuses are those identities and states in order, each with the health
  of its state.\<close>

theorem parse_port_data_set_report:
  assumes "list_all port_ok ports"
  shows "parse_port_data_set (pmc_report ports) = Inr (map (\<lambda>(p, s, rest). port_status p s) ports)"
proof -
  have clean: "list_all clean (''sending: GET PORT_DATA_SET'' # concat (map pmc_port ports))"
    using assms pmc_port_clean
    by (auto simp: list_all_iff clean_sending)
  have "list_all2 (\<lambda>ls (p, s). port_report ls p s) (map pmc_port ports) (map (\<lambda>(p, s, rest). (p, s)) ports)"
    using assms pmc_port_report by (induction ports) auto
  from parse_lines_reports [OF this] have
    "parse_lines (concat (map pmc_port ports)) None None [] = map (\<lambda>(p, s, rest). port_status p s) ports"
    by (simp add: comp_def case_prod_beta)
  moreover have "says_nothing ''sending: GET PORT_DATA_SET''"
    by (rule says_nothing_hd [of _ "CHR ''s''"]) (simp_all add: is_space_def)
  then have "parse_lines (''sending: GET PORT_DATA_SET'' # ls) None None [] = parse_lines ls None None []" for ls
    using parse_lines_noise [of "[''sending: GET PORT_DATA_SET'']" None None ls] by simp
  ultimately show ?thesis
    unfolding parse_port_data_set_def pmc_report_def str_lines_unlines [OF clean] by simp
qed

theorem parse_port_data_set_report_witness:
  "parse_port_data_set (pmc_report [(''a1-1'', ''MASTER'', [''logSyncInterval 0'']), (''a1-2'', ''FAULTY'', [])]) =
     Inr [port_status ''a1-1'' ''MASTER'', port_status ''a1-2'' ''FAULTY'']"
  using parse_port_data_set_report [of "[(''a1-1'', ''MASTER'', [''logSyncInterval 0'']), (''a1-2'', ''FAULTY'', [])]"]
  by (simp add: port_ok_def token_def is_space_def says_nothing_hd clean_def newline_def chomp_def)

text \<open>What a health query can say: whatever pmc prints, the query never fails on it, no status
  has an offset or a delay, none is degraded or removed, and a port is healthy exactly when its
  state is MASTER or SLAVE, however large its offset, and failed exactly when it is FAULTY or
  DISABLED.\<close>

theorem parse_port_data_set_statuses:
  "\<exists>sts. parse_port_data_set output = Inr sts \<and> list_all status_wf sts"
  using parse_lines_wf [of "[]"] by (simp add: parse_port_data_set_def)

text \<open>The classification of an offset is right for every offset but one: it is healthy exactly
  when its magnitude is below a millisecond, except for the least 64-bit integer, whose magnitude
  overflows: the debug build panics and the release build calls that offset healthy.\<close>

theorem classify_offset_correct:
  "classify_offset pr offset =
     (if sint offset = - (2 ^ 63) then (if pr = Debug then None else Some Healthy)
      else Some (if \<bar>sint offset\<bar> < 1000000 then Healthy else Converging))"
proof -
  have same: "sint offset = - (2 ^ 63) \<longleftrightarrow> offset = i64_min"
    using sint_eq_iff [of offset i64_min] by simp
  show ?thesis
  proof (cases "offset = i64_min")
    case True
    then show ?thesis by (cases pr) (simp_all add: classify_offset_def neg_i64_def word_sless_alt)
  next
    case False
    then show ?thesis
      using sint_neg_exact [OF False] same by (auto simp: classify_offset_def neg_i64_def word_sless_alt)
  qed
qed

end
