(* ===== verification/Daemon.thy ===== *)
theory Daemon
  imports Machine ConfigGen Health
begin

text \<open>
  The daemon (src/daemon.rs): starting the stack in its three modes, stopping it, the status
  report, the monitoring loop until the signal, and the intervals of the command line.  Log
  messages are left out; the outer \<open>None\<close> of \<open>start_stack\<close> is a panic, that of the loop is a
  fuel that did not last.
\<close>

section \<open>Starting\<close>

datatype daemon_error =
    DiscoveryErr io_error
  | ConfigErr config_error
  | ModuleErr module_error
  | SyncErr sync_error
  | IoErr io_error

datatype sync_state = Phc2sys "sync_process list" | KernelSync | IoUringSync nat nat

fun drop_all :: "'w host \<Rightarrow> sync_process list \<Rightarrow> 'w \<Rightarrow> 'w" where
  "drop_all host [] w = w"
| "drop_all host (p # ps) w = drop_all host ps (drop_process host p w)"

definition needs_module :: "wifi_card \<Rightarrow> bool" where
  "needs_module c \<longleftrightarrow> wc_can_set_tsf c \<and> wc_ptp_clock c = None \<and> wc_ptp_source c = NoSource"

text \<open>The processes a state owns.\<close>

fun state_processes :: "sync_state \<Rightarrow> sync_process list" where
  "state_processes (Phc2sys ps) = ps"
| "state_processes KernelSync = []"
| "state_processes (IoUringSync _ _) = []"

text \<open>The first part: discovery, and the module when a card needs it.\<close>

definition prepare :: "'w host \<Rightarrow> string \<Rightarrow> u64 \<Rightarrow> sync_mode \<Rightarrow> u32 \<Rightarrow> 'w \<Rightarrow> (daemon_error + unit) \<times> 'w" where
  "prepare host primary adjtime_threshold_ns sync_mode sync_interval_ms w =
     (case discover_cards (h_fs host w) class_dir of
        Inl e \<Rightarrow> (Inl (DiscoveryErr e), w)
      | Inr cards \<Rightarrow>
          (if list_ex needs_module cards
           then (case load_tsf_ptp host adjtime_threshold_ns sync_mode
                        (if primary \<noteq> ''auto'' then Some primary else None) (Some sync_interval_ms) w of
                   (Inl e, w) \<Rightarrow> (Inl (ModuleErr e), w)
                 | (Inr _, w) \<Rightarrow> (Inr (), h_sleep host 500 w))
           else (Inr (), w)))"

text \<open>The processes of mode A; an error drops the ones started before it.\<close>

fun start_secondaries ::
    "'w host \<Rightarrow> wifi_card \<Rightarrow> string \<Rightarrow> wifi_card list \<Rightarrow> sync_process list \<Rightarrow> 'w \<Rightarrow>
     (daemon_error + sync_process list) \<times> 'w" where
  "start_secondaries host primary bin [] processes w = (Inr processes, w)"
| "start_secondaries host primary bin (c # cs) processes w =
     (if wc_phy c = wc_phy primary then start_secondaries host primary bin cs processes w
      else (case start_phc2sys host (the (wc_ptp_clock primary)) (the (wc_ptp_clock c)) bin w of
              (Inl e, w) \<Rightarrow> (Inl (SyncErr e), drop_all host processes w)
            | (Inr p, w) \<Rightarrow> start_secondaries host primary bin cs (processes @ [p]) w))"

text \<open>The thread of mode C: a synchroniser that cannot be made is only logged.\<close>

definition sync_thread :: "'w host \<Rightarrow> u32 \<Rightarrow> i64 \<Rightarrow> nat \<Rightarrow> nat \<Rightarrow> 'w \<Rightarrow> 'w option" where
  "sync_thread host primary_index threshold interval running w =
     (case syncer_new (h_tsf_sys host) (h_ring_new host) primary_index threshold w of
        (Inl _, w) \<Rightarrow> Some w
      | (Inr syncer, w) \<Rightarrow>
          iouring_run (h_profile host) (h_ring host) syncer (\<lambda>w. load_flag running (h_signals host w))
            (h_sleep host interval) w)"

definition start_mode ::
    "'w host \<Rightarrow> bool \<Rightarrow> wifi_card list \<Rightarrow> wifi_card \<Rightarrow> string \<Rightarrow> u64 \<Rightarrow> sync_mode \<Rightarrow> u32 \<Rightarrow> 'w \<Rightarrow>
     (daemon_error + sync_state) option \<times> 'w" where
  "start_mode host iouring ptp_cards primary linuxptp_bin adjtime_threshold_ns sync_mode sync_interval_ms w =
     (case sync_mode of
        Ptp \<Rightarrow>
          (case start_secondaries host primary (phc2sys_bin_from linuxptp_bin) ptp_cards [] w of
             (Inl e, w) \<Rightarrow> (Some (Inl e), w)
           | (Inr processes, w) \<Rightarrow> (Some (Inr (Phc2sys processes)), w))
      | Kernel \<Rightarrow> (Some (Inr KernelSync), w)
      | Iouring \<Rightarrow>
          (if iouring
           then (case find_primary_index (h_tsf_sys host) (bytes_of (wc_phy primary)) w of
                   (None, w) \<Rightarrow> (None, w)
                 | (Some (Inl e), w) \<Rightarrow> (Some (Inl (IoErr e)), w)
                 | (Some (Inr index), w) \<Rightarrow>
                     (let (running, sg) = new_flag (h_signals host w);
                          w = h_set_signals host sg w;
                          (handle, w) = h_thread host (sync_thread host index adjtime_threshold_ns (unat sync_interval_ms) running) w
                      in (Some (Inr (IoUringSync handle running)), w)))
           else (Some (Inl (IoErr (CustomError Unsupported ''iouring sync mode requires --features iouring''))), w)))"

definition start_stack ::
    "'w host \<Rightarrow> bool \<Rightarrow> string \<Rightarrow> string \<Rightarrow> u64 \<Rightarrow> sync_mode \<Rightarrow> u32 \<Rightarrow> 'w \<Rightarrow>
     (daemon_error + sync_state) option \<times> 'w" where
  "start_stack host iouring primary linuxptp_bin adjtime_threshold_ns sync_mode sync_interval_ms w =
     (case prepare host primary adjtime_threshold_ns sync_mode sync_interval_ms w of
        (Inl e, w) \<Rightarrow> (Some (Inl e), w)
      | (Inr _, w) \<Rightarrow>
          (case discover_cards (h_fs host w) class_dir of
             Inl e \<Rightarrow> (Some (Inl (DiscoveryErr e)), w)
           | Inr cards \<Rightarrow>
               (let ptp_cards = cards_with_clock cards
                in if length ptp_cards < 2 then (Some (Inl (ConfigErr OnlyOneClock)), w)
                   else (case select_primary ptp_cards primary of
                           Inl e \<Rightarrow> (Some (Inl (ConfigErr e)), w)
                         | Inr primary_card \<Rightarrow>
                             start_mode host iouring ptp_cards primary_card linuxptp_bin
                               adjtime_threshold_ns sync_mode sync_interval_ms w))))"

section \<open>Stopping\<close>

fun stop_processes :: "'w host \<Rightarrow> sync_process list \<Rightarrow> 'w \<Rightarrow> 'w" where
  "stop_processes host [] w = w"
| "stop_processes host (p # ps) w = stop_processes host ps (snd (stop_process host p w))"

definition stop_sync :: "'w host \<Rightarrow> sync_state \<Rightarrow> 'w \<Rightarrow> sync_state \<times> 'w" where
  "stop_sync host state w =
     (case state of
        Phc2sys processes \<Rightarrow> (Phc2sys [], drop_all host processes (stop_processes host processes w))
      | KernelSync \<Rightarrow> (KernelSync, w)
      | IoUringSync handle running \<Rightarrow>
          (IoUringSync handle running, h_set_signals host (clear_flag running (h_signals host w)) w))"

definition stop_stack :: "'w host \<Rightarrow> sync_state \<Rightarrow> 'w \<Rightarrow> (daemon_error + unit) \<times> sync_state \<times> 'w" where
  "stop_stack host state w =
     (let (state, w) = stop_sync host state w
      in case unload_tsf_ptp host w of
           (Inl e, w) \<Rightarrow> (Inl (ModuleErr e), state, w)
         | (Inr _, w) \<Rightarrow> (Inr (), state, w))"

section \<open>Status\<close>

abbreviation uds_path :: string where "uds_path \<equiv> ''/var/run/ptp4l''"

definition read_sysfs_counter :: "fs \<Rightarrow> string \<Rightarrow> i64 option" where
  "read_sysfs_counter fs name =
     (case fs_read_to_string fs (''/sys/module/tsf_ptp/parameters/'' @ name) of
        Inl _ \<Rightarrow> None
      | Inr s \<Rightarrow> parse_i64 (trim s))"

definition print_ln :: "'w host \<Rightarrow> string \<Rightarrow> 'w \<Rightarrow> 'w" where
  "print_ln host s w = h_print host (s @ [newline]) w"

definition show_i64 :: "i64 \<Rightarrow> string" where
  "show_i64 v = show_int (sint v)"

definition status_kernel :: "'w host \<Rightarrow> sync_mode \<Rightarrow> 'w \<Rightarrow> 'w" where
  "status_kernel host mode w =
     (case query_kernel_sync_health (h_fs host w) of
        Inr k \<Rightarrow>
          print_ln host (''  adjtime_apply:     '' @ show_i64 (ks_adjtime_apply_count k))
            (print_ln host (''  adjtime_skip:      '' @ show_i64 (ks_adjtime_skip_count k))
               (print_ln host (''  sync_error_count:  '' @ show_i64 (ks_sync_error_count k))
                  (print_ln host (''  sync_count:        '' @ show_i64 (ks_sync_count k))
                     (print_ln host (''Sync mode: '' @ sync_mode_fmt mode) w))))
      | Inl e \<Rightarrow> print_ln host (''Could not read kernel sync status: '' @ health_error_fmt (h_show_error host) e) w)"

definition status_ptp :: "'w host \<Rightarrow> 'w \<Rightarrow> 'w" where
  "status_ptp host w =
     (case query_health host uds_path w of
        (Inr statuses, w) \<Rightarrow>
          (if statuses = [] then print_ln host ''No clock statuses reported. Is ptp4l running?'' w
           else h_print host (format_status_table statuses) w)
      | (Inl e, w) \<Rightarrow> print_ln host (''Could not query ptp4l status: '' @ health_error_fmt (h_show_error host) e) w)"

definition status :: "'w host \<Rightarrow> 'w \<Rightarrow> 'w" where
  "status host w =
     (let w = (case detect_active_sync_mode (h_fs host w) of
                 Some Kernel \<Rightarrow> status_kernel host Kernel w
               | Some Iouring \<Rightarrow> status_kernel host Iouring w
               | _ \<Rightarrow> status_ptp host w)
      in case (read_sysfs_counter (h_fs host w) ''adjtime_skip_count'',
               read_sysfs_counter (h_fs host w) ''adjtime_apply_count'') of
           (Some skip, Some apply') \<Rightarrow>
             print_ln host (''  adjtime: '' @ show_i64 apply' @ '' applied, '' @ show_i64 skip @ '' skipped'') w
         | _ \<Rightarrow> w)"

section \<open>The daemon\<close>

fun check_running :: "'w host \<Rightarrow> sync_process list \<Rightarrow> 'w \<Rightarrow> 'w" where
  "check_running host [] w = w"
| "check_running host (p # ps) w = check_running host ps (snd (is_running host p w))"

text \<open>One round of monitoring, which only logs what it finds.\<close>

definition monitor :: "'w host \<Rightarrow> sync_state \<Rightarrow> 'w \<Rightarrow> 'w" where
  "monitor host state w =
     (case state of
        Phc2sys processes \<Rightarrow> snd (query_health host uds_path (check_running host processes w))
      | KernelSync \<Rightarrow> w
      | IoUringSync _ _ \<Rightarrow> w)"

fun daemon_loop :: "nat \<Rightarrow> 'w host \<Rightarrow> nat \<Rightarrow> nat \<Rightarrow> sync_state \<Rightarrow> 'w \<Rightarrow> 'w option" where
  "daemon_loop 0 host running interval state w = None"
| "daemon_loop (Suc n) host running interval state w =
     (if load_flag running (h_signals host w)
      then let w = h_sleep host interval w
           in if \<not> load_flag running (h_signals host w) then Some w
              else daemon_loop n host running interval state (monitor host state w)
      else Some w)"

definition run_daemon ::
    "nat \<Rightarrow> 'w host \<Rightarrow> bool \<Rightarrow> string \<Rightarrow> nat \<Rightarrow> string \<Rightarrow> u64 \<Rightarrow> sync_mode \<Rightarrow> u32 \<Rightarrow> 'w \<Rightarrow>
     ((daemon_error + unit) option \<times> 'w) option" where
  "run_daemon fuel host iouring primary interval linuxptp_bin adjtime_threshold_ns sync_mode sync_interval_ms w =
     (let (running, sg) = new_flag (h_signals host w);
          w = h_set_signals host (ctrlc_handler running sg) w
      in case start_stack host iouring primary linuxptp_bin adjtime_threshold_ns sync_mode sync_interval_ms w of
           (None, w) \<Rightarrow> Some (None, w)
         | (Some (Inl e), w) \<Rightarrow> Some (Some (Inl e), w)
         | (Some (Inr state), w) \<Rightarrow>
             (case daemon_loop fuel host running interval state w of
                None \<Rightarrow> None
              | Some w \<Rightarrow>
                  (case stop_stack host state w of
                     (Inl e, _, w) \<Rightarrow> Some (Some (Inl e), w)
                   | (Inr _, _, w) \<Rightarrow> Some (Some (Inr ()), w))))"

section \<open>Intervals\<close>

text \<open>A duration in milliseconds; the product of the minutes is a u64 product.\<close>

definition parse_seconds :: "string \<Rightarrow> string + nat" where
  "parse_seconds s = (case parse_u64 s of Some n \<Rightarrow> Inr (1000 * unat n) | None \<Rightarrow> Inl (u64_error s))"

definition parse_interval :: "profile \<Rightarrow> string \<Rightarrow> (string + nat) option" where
  "parse_interval pr s =
     (let s = trim s
      in case strip_suffix ''ms'' s of
           Some rest \<Rightarrow> Some (case parse_u64 rest of Some n \<Rightarrow> Inr (unat n) | None \<Rightarrow> Inl (u64_error rest))
         | None \<Rightarrow>
             (case strip_suffix ''s'' s of
                Some rest \<Rightarrow> Some (parse_seconds rest)
              | None \<Rightarrow>
                  (case strip_suffix ''m'' s of
                     Some rest \<Rightarrow>
                       (case parse_u64 rest of
                          Some m \<Rightarrow> do { n \<leftarrow> mul_u64 pr m 60; Some (Inr (1000 * unat n)) }
                        | None \<Rightarrow> Some (Inl (u64_error rest)))
                   | None \<Rightarrow>
                       Some (case parse_seconds s of
                               Inr d \<Rightarrow> Inr d
                             | Inl e \<Rightarrow> Inl (''invalid interval '' @ [CHR 0x27] @ s @ [CHR 0x27] @ '': '' @ e)))))"

section \<open>The environment of the daemon\<close>

text \<open>
  The process table and the kernel modules together, with the calls that neither start nor end a
  process.  \<open>accounted ps w0 w\<close>: the processes alive in \<open>w\<close> were alive in \<open>w0\<close> or are among \<open>ps\<close>.
\<close>

locale daemon_env = process_table host child alive + kernel_modules host loaded deps
  for host :: "'w host" and child :: "nat \<Rightarrow> 'w \<Rightarrow> bool" and alive :: "nat \<Rightarrow> 'w \<Rightarrow> bool"
    and loaded :: "'w \<Rightarrow> string set" and deps :: "string \<Rightarrow> string set" +
  assumes open_keeps: "sys_open (h_tsf_sys host) path w = (ro, w') \<Longrightarrow> no_revival child alive w w'"
    and read_keeps: "sys_read (h_tsf_sys host) fd buf w = (rb, w') \<Longrightarrow> no_revival child alive w w'"
    and thread_keeps: "h_thread host body w = (h, w') \<Longrightarrow> no_revival child alive w w'"
begin

definition accounted :: "sync_process list \<Rightarrow> 'w \<Rightarrow> 'w \<Rightarrow> bool" where
  "accounted ps w0 w \<longleftrightarrow>
     (\<forall>q. alive q w \<longrightarrow> alive q w0 \<or> q \<in> sp_child ` set ps) \<and> (\<forall>p \<in> set ps. child (sp_child p) w)"

lemma accounted_keeps: "accounted ps w0 w \<Longrightarrow> keeps w w' \<Longrightarrow> accounted ps w0 w'"
  by (auto simp: accounted_def no_revival_def)

lemma accounted_start: "keeps w0 w \<Longrightarrow> accounted [] w0 w"
  by (auto simp: accounted_def no_revival_def)

lemma accounted_dead:
  "accounted ps w0 w \<Longrightarrow> keeps w w' \<Longrightarrow> \<forall>p \<in> set ps. \<not> alive (sp_child p) w' \<Longrightarrow> accounted [] w0 w'"
  by (auto simp: accounted_def no_revival_def)

lemma all_dead_Cons:
  assumes "keeps w w1" "\<not> alive (sp_child p) w1" "keeps w1 w2 \<and> (\<forall>q \<in> set ps. \<not> alive (sp_child q) w2)"
  shows "keeps w w2 \<and> (\<forall>q \<in> set (p # ps). \<not> alive (sp_child q) w2)"
  using assms no_revival_trans [of child alive w w1 w2] no_revival_dead [of child alive w1 w2 "sp_child p"] by auto

lemma drop_all_dead:
  "\<forall>p \<in> set ps. child (sp_child p) w \<Longrightarrow>
   keeps w (drop_all host ps w) \<and> (\<forall>p \<in> set ps. \<not> alive (sp_child p) (drop_all host ps w))"
proof (induction ps arbitrary: w)
  case (Cons p ps)
  have p: "keeps w (drop_process host p w)" "\<not> alive (sp_child p) (drop_process host p w)"
    using drop_process_dead [of p w] Cons.prems by auto
  moreover have "\<forall>q \<in> set ps. child (sp_child q) (drop_process host p w)"
    using Cons.prems no_revival_child [OF p(1)] by auto
  ultimately show ?case
    using all_dead_Cons [OF p] Cons.IH [of "drop_process host p w"] by simp
qed simp

lemma stop_processes_dead:
  "\<forall>p \<in> set ps. child (sp_child p) w \<Longrightarrow>
   keeps w (stop_processes host ps w) \<and> (\<forall>p \<in> set ps. \<not> alive (sp_child p) (stop_processes host ps w))"
proof (induction ps arbitrary: w)
  case (Cons p ps)
  define w1 where "w1 = snd (stop_process host p w)"
  have "stop_process host p w = (fst (stop_process host p w), w1)" by (simp add: w1_def)
  then have p: "keeps w w1" "\<not> alive (sp_child p) w1"
    using stop_process_dead [of p w] Cons.prems by (metis list.set_intros(1))+
  moreover have "\<forall>q \<in> set ps. child (sp_child q) w1"
    using Cons.prems no_revival_child [OF p(1)] by auto
  ultimately show ?case
    using all_dead_Cons [OF p] Cons.IH [of w1] by (simp add: w1_def [symmetric])
qed simp

lemma load_keeps: "load_tsf_ptp host thr m pr i w = (k, w') \<Longrightarrow> keeps w w'"
proof -
  define params where "params = tsf_ptp_params thr m pr i"
  have load: "load_module host tsf_module params w = (k1, w1) \<Longrightarrow> keeps w w1" for k1 w w1
    using output_keeps [of "''modprobe''" "tsf_module # params" w]
    by (auto simp: load_module_def split: prod.splits sum.splits)
  have ins: "insmod host module_path params w = (k1, w1) \<Longrightarrow> keeps w w1" for k1 w w1
    using output_keeps [of "''insmod''" "module_path # params" w]
    by (auto simp: insmod_def split: prod.splits sum.splits)
  obtain q w1 where q: "load_module host tsf_module params w = (q, w1)" by fastforce
  show "load_tsf_ptp host thr m pr i w = (k, w') \<Longrightarrow> keeps w w'"
    using load [OF q] ins [of w1 k w'] no_revival_trans [OF load [OF q]] q
    by (cases "tsf_module \<in> loaded w"; cases q)
      (auto simp: load_tsf_ptp_def is_loaded Let_def params_def [symmetric] split: if_splits)
qed

lemma unload_keeps: "unload_tsf_ptp host w = (k, w') \<Longrightarrow> keeps w w'"
  using output_keeps [of "''rmmod''" "[tsf_module]" w]
  by (cases "tsf_module \<in> loaded w")
    (auto simp: unload_tsf_ptp_def unload_module_def is_loaded split: prod.splits sum.splits)

lemma start_phc2sys_accounted:
  assumes "start_phc2sys host a b bin w = (k, w')" "accounted ps w0 w"
  shows "case k of Inl _ \<Rightarrow> accounted ps w0 w' | Inr p \<Rightarrow> accounted (ps @ [p]) w0 w'"
proof (cases "fst (h_spawn host bin (phc2sys_args a b) w)")
  case (Inl e)
  then have "\<exists>e'. k = Inl e'" "h_spawn host bin (phc2sys_args a b) w = (Inl e, w')"
    using assms(1) by (auto simp: start_phc2sys_def spawn_def split: prod.splits sum.splits)
  then show ?thesis using accounted_keeps [OF assms(2) spawn_fail_keeps] by auto
next
  case (Inr p)
  then obtain q where q: "k = Inr q" "sp_child q = p" and sp: "h_spawn host bin (phc2sys_args a b) w = (Inr p, w')"
    using assms(1) by (auto simp: start_phc2sys_def spawn_def split: prod.splits sum.splits)
  then show ?thesis
    using assms(2) spawn_child [OF sp] spawn_alive [OF sp] spawn_children [OF sp]
    by (auto simp: accounted_def)
qed

lemma start_secondaries_accounted:
  assumes "start_secondaries host primary bin cs ps w = (k, w')" "accounted ps w0 w"
  shows "case k of Inl _ \<Rightarrow> accounted [] w0 w' | Inr ps' \<Rightarrow> accounted ps' w0 w'"
  using assms
proof (induction cs arbitrary: ps w)
  case (Cons c cs)
  show ?case
  proof (cases "wc_phy c = wc_phy primary")
    case False
    obtain x w1 where x: "start_phc2sys host (the (wc_ptp_clock primary)) (the (wc_ptp_clock c)) bin w = (x, w1)"
      by fastforce
    show ?thesis
    proof (cases x)
      case (Inl e)
      then have acc: "accounted ps w0 w1" using start_phc2sys_accounted [OF x Cons.prems(2)] by simp
      then have "keeps w1 (drop_all host ps w1) \<and> (\<forall>p \<in> set ps. \<not> alive (sp_child p) (drop_all host ps w1))"
        using drop_all_dead [of ps w1] by (simp add: accounted_def)
      then show ?thesis using Cons.prems(1) False x Inl accounted_dead [OF acc] by auto
    next
      case (Inr p)
      then have "accounted (ps @ [p]) w0 w1" using start_phc2sys_accounted [OF x Cons.prems(2)] by simp
      then show ?thesis using Cons.prems(1) False x Inr Cons.IH [of "ps @ [p]" w1] by simp
    qed
  qed (use Cons in simp)
qed auto

lemma prepare_keeps: "prepare host primary thr m i w = (k, w') \<Longrightarrow> keeps w w'"
  using load_keeps no_revival_trans [OF load_keeps sleep_keeps]
  by (fastforce simp: prepare_def split: prod.splits sum.splits if_split_asm)

lemma find_primary_keeps: "find_primary_index (h_tsf_sys host) phy w = (k, w') \<Longrightarrow> keeps w w'"
  using open_keeps no_revival_trans [OF open_keeps read_keeps]
  by (fastforce simp: find_primary_index_def Let_def split: prod.splits sum.splits if_split_asm)

lemma start_mode_accounted:
  assumes "start_mode host iouring cs primary bin thr m i w = (k, w')" "keeps w0 w"
  shows "case k of Some (Inr st) \<Rightarrow> accounted (state_processes st) w0 w' | _ \<Rightarrow> accounted [] w0 w'"
proof (cases m)
  case Ptp
  obtain x w1 where x: "start_secondaries host primary (phc2sys_bin_from bin) cs [] w = (x, w1)" by fastforce
  show ?thesis
    using start_secondaries_accounted [OF x accounted_start [OF assms(2)]] assms(1) x Ptp
    by (auto simp: start_mode_def split: sum.splits)
next
  case Kernel
  then show ?thesis using assms accounted_start by (auto simp: start_mode_def)
next
  case Iouring
  have "keeps w w'"
  proof (cases iouring)
    case True
    obtain x w1 where x: "find_primary_index (h_tsf_sys host) (bytes_of (wc_phy primary)) w = (x, w1)" by fastforce
    obtain f sg where f: "new_flag (h_signals host w1) = (f, sg)" by fastforce
    obtain h w2 where h: "h_thread host (sync_thread host (projr (the x)) thr (unat i) f) (h_set_signals host sg w1) = (h, w2)"
      by fastforce
    note k1 = find_primary_keeps [OF x]
    note k2 = no_revival_trans [OF no_revival_trans [OF k1 set_signals_keeps] thread_keeps [OF h]]
    show ?thesis
      using assms(1) Iouring True x f h k1 k2
      by (auto simp: start_mode_def split: option.splits sum.splits)
  qed (use assms Iouring in \<open>simp add: start_mode_def\<close>)
  moreover have "k = None \<or> (\<exists>e. k = Some (Inl e)) \<or> (\<exists>h f. k = Some (Inr (IoUringSync h f)))"
    using assms(1) Iouring
    by (auto simp: start_mode_def Let_def split: option.splits sum.splits prod.splits if_split_asm)
  ultimately show ?thesis
    using accounted_start [OF no_revival_trans [OF assms(2)]] by auto
qed

lemma start_stack_accounted:
  assumes "start_stack host iouring primary bin thr m i w = (k, w')" "keeps w0 w"
  shows "case k of Some (Inr st) \<Rightarrow> accounted (state_processes st) w0 w' | _ \<Rightarrow> accounted [] w0 w'"
proof -
  obtain x w1 where x: "prepare host primary thr m i w = (x, w1)" by fastforce
  have k1: "keeps w0 w1" by (rule no_revival_trans [OF assms(2) prepare_keeps [OF x]])
  consider e where "k = Some (Inl e)" "w' = w1"
    | cs p where "start_mode host iouring cs p bin thr m i w1 = (k, w')"
    using assms(1) x by (auto simp: start_stack_def Let_def split: sum.splits if_split_asm)
  then show ?thesis
    using accounted_start [OF k1] start_mode_accounted [OF _ k1] by cases auto
qed

lemma stop_stack_dead:
  assumes "stop_stack host st w = (k, st', w')" "accounted (state_processes st) w0 w"
  shows "accounted [] w0 w'"
proof -
  obtain st1 w1 where st1: "stop_sync host st w = (st1, w1)" by fastforce
  have "accounted [] w0 w1"
  proof (cases st)
    case (Phc2sys ps)
    have stop: "keeps w (stop_processes host ps w)" "\<forall>p \<in> set ps. \<not> alive (sp_child p) (stop_processes host ps w)"
      using stop_processes_dead [of ps w] assms(2) Phc2sys by (auto simp: accounted_def)
    then have "\<forall>p \<in> set ps. child (sp_child p) (stop_processes host ps w)"
      using assms(2) Phc2sys no_revival_child [OF stop(1)] by (auto simp: accounted_def)
    from drop_all_dead [OF this] have "keeps (stop_processes host ps w) w1" "\<forall>p \<in> set ps. \<not> alive (sp_child p) w1"
      using st1 Phc2sys by (auto simp: stop_sync_def)
    then show ?thesis
      using accounted_dead [OF _ no_revival_trans [OF stop(1)]] assms(2) Phc2sys by simp
  next
    case KernelSync
    then show ?thesis using assms(2) st1 by (auto simp: stop_sync_def)
  next
    case (IoUringSync h f)
    then show ?thesis using accounted_keeps [OF assms(2) set_signals_keeps] st1 by (auto simp: stop_sync_def)
  qed
  moreover have "keeps w1 w'"
    using assms(1) st1 unload_keeps [of w1] by (auto simp: stop_stack_def split: prod.splits sum.splits)
  ultimately show ?thesis by (rule accounted_keeps)
qed

lemma check_running_keeps: "keeps w (check_running host ps w)"
proof (induction ps arbitrary: w)
  case (Cons p ps)
  have "keeps w (snd (is_running host p w))"
    using try_wait_keeps [of "sp_child p" w] by (auto simp: is_running_def split: prod.splits sum.splits option.splits)
  then show ?case using no_revival_trans [OF _ Cons.IH] by simp
qed simp

lemma query_health_keeps: "keeps w (snd (query_health host uds w))"
  using output_keeps [of "''pmc''" "[''-u'', ''-b'', ''0'', ''-s'', uds, ''GET'', ''PORT_DATA_SET'']" w]
  by (auto simp: query_health_def split: prod.splits sum.splits)

lemma monitor_keeps: "keeps w (monitor host st w)"
  using no_revival_trans [OF check_running_keeps query_health_keeps] by (simp add: monitor_def split: sync_state.split)

lemma daemon_loop_keeps: "daemon_loop n host f i st w = Some w' \<Longrightarrow> keeps w w'"
proof (induction n arbitrary: w)
  case (Suc n)
  define w1 where "w1 = h_sleep host i w"
  have k1: "keeps w w1" unfolding w1_def by (rule sleep_keeps)
  have "daemon_loop n host f i st (monitor host st w1) = Some w' \<Longrightarrow> keeps w w'"
    using Suc.IH no_revival_trans [OF no_revival_trans [OF k1 monitor_keeps]] by blast
  then show ?case
    using Suc.prems k1 by (auto simp: Let_def w1_def [symmetric] split: if_split_asm)
qed simp

lemma run_daemon_accounted:
  assumes "run_daemon n host iouring primary interval bin thr m i w = Some (k, w')"
  shows "accounted [] w w' \<and> (k = Some (Inr ()) \<longrightarrow> tsf_module \<notin> loaded w')"
proof -
  obtain f sg where f: "new_flag (h_signals host w) = (f, sg)" by fastforce
  define w1 where "w1 = h_set_signals host (ctrlc_handler f sg) w"
  have k1: "keeps w w1" unfolding w1_def by (rule set_signals_keeps)
  obtain x w2 where x: "start_stack host iouring primary bin thr m i w1 = (x, w2)" by fastforce
  note start = start_stack_accounted [OF x k1]
  show ?thesis
  proof (cases "\<exists>st. x = Some (Inr st)")
    case False
    then have "w' = w2" "k \<noteq> Some (Inr ())"
      using assms f x by (auto simp: run_daemon_def w1_def Let_def split: option.splits sum.splits)
    then show ?thesis using start False by (auto split: option.splits sum.splits)
  next
    case True
    then obtain st where st: "x = Some (Inr st)" by blast
    obtain w3 where w3: "daemon_loop n host f interval st w2 = Some w3"
      using assms f x st by (auto simp: run_daemon_def w1_def Let_def split: option.splits)
    obtain y st' where y: "stop_stack host st w3 = (y, st', w')" "k = Some y"
      using assms f x st w3 by (auto simp: run_daemon_def w1_def Let_def split: prod.splits sum.splits)
    have "accounted (state_processes st) w w3"
      using accounted_keeps [OF _ daemon_loop_keeps [OF w3]] start st by simp
    moreover have "y = Inr () \<longrightarrow> tsf_module \<notin> loaded w'"
      using y(1) unload_loaded by (auto simp: stop_stack_def split: prod.splits sum.splits)
    ultimately show ?thesis using stop_stack_dead [OF y(1)] y(2) by auto
  qed
qed

end

interpretation machine_env: daemon_env machine_host machine_child machine_alive machine_modules machine_deps
  by unfold_locales (auto simp: machine_host_def)

section \<open>Lemmas\<close>

text \<open>One round of the daemon.\<close>

definition daemon_round :: "'w host \<Rightarrow> nat \<Rightarrow> sync_state \<Rightarrow> 'w \<Rightarrow> 'w" where
  "daemon_round host interval state w = monitor host state (h_sleep host interval w)"

lemma trim_number: "u \<in> {''ms'', ''s'', ''m'', []} \<Longrightarrow> trim (show_nat n @ u) = show_nat n @ u"
proof -
  assume u: "u \<in> {''ms'', ''s'', ''m'', []}"
  have digits: "\<forall>c \<in> set (show_nat n). is_digit c" "show_nat n \<noteq> []"
    using show_nat_digits [of n] by (auto simp: list_all_iff)
  have no_space: "is_digit c \<Longrightarrow> \<not> is_space c" for c by (auto simp: is_digit_def is_space_def)
  show ?thesis
  proof (rule trim_id)
    show "\<not> is_space (hd (show_nat n @ u))" using digits no_space by (simp add: hd_append)
    show "\<not> is_space (last (show_nat n @ u))"
      using u digits no_space by (auto simp: last_append is_space_def)
  qed (use digits in simp)
qed

lemma digits_last: "is_digit (last (show_nat n))"
  using show_nat_digits [of n] by (auto simp: list_all_iff)

lemma strip_suffix_last: "s \<noteq> [] \<Longrightarrow> last s \<noteq> c \<Longrightarrow> strip_suffix [c] s = None"
  by (cases s rule: rev_cases) (auto simp: strip_suffix_def)

lemma strip_ms_None:
  assumes "s \<noteq> []" "is_digit (last s)"
  shows "strip_suffix ''ms'' s = None" "strip_suffix ''ms'' (s @ ''s'') = None" "strip_suffix ''ms'' (s @ ''m'') = None"
proof -
  have no_ms: "t @ [c] \<noteq> r @ ''ms'' \<or> (c = CHR ''s'' \<and> t \<noteq> [] \<and> last t = CHR ''m'')" for t r and c :: char
    by (metis append_Cons append_Nil append_assoc append_is_Nil_conv butlast_snoc last_snoc list.distinct(1))
  have "\<not> is_digit (CHR ''m'')" "\<not> is_digit (CHR ''s'')" by (simp_all add: is_digit_def)
  then have d: "last s \<noteq> CHR ''m''" "last s \<noteq> CHR ''s''" using assms(2) by metis+
  show "strip_suffix ''ms'' s = None" "strip_suffix ''ms'' (s @ ''s'') = None" "strip_suffix ''ms'' (s @ ''m'') = None"
    using no_ms [of "butlast s" "last s"] no_ms [of s "CHR ''s''"] no_ms [of s "CHR ''m''"] d assms(1)
    by (auto simp: strip_suffix_iff [symmetric] not_Some_eq [symmetric] simp del: not_Some_eq)
qed

lemma machine_check_running: "check_running machine_host ps m = m"
  by (induction ps) (simp_all add: is_running_def machine_try_wait_def split: sum.split option.split)

lemma machine_monitor:
  "\<exists>cs. monitor machine_host st m = m\<lparr>mc_commands := cs\<rparr>"
proof (cases st)
  case (Phc2sys ps)
  then show ?thesis
    by (auto simp: monitor_def machine_check_running query_health_def machine_output_def Let_def
        reply_def split: if_split)
qed (auto simp: monitor_def intro: exI [of _ "mc_commands m"])

lemma machine_stop: "\<exists>st' m'. stop_stack machine_host st m = (Inr (), st', m')"
  using machine_unload [of "snd (stop_sync machine_host st m)"] by (auto simp: stop_stack_def split: prod.split)

text \<open>The rounds of the machine, while SIGTERM is to come at \<open>t\<close>.\<close>

lemma machine_loop:
  assumes "mc_term_at m = Some t" "mc_time m < t" "sig_handler (mc_signals m) = Some f" "t \<le> mc_time m + Suc n * i"
  shows "\<exists>m'. daemon_loop (Suc n) machine_host f i st m = Some m'"
  using assms
proof (induction n arbitrary: m)
  case 0
  then show ?case
    by (auto simp: Let_def machine_sleep_def signal_handler_def load_flag_def clear_flag_def)
next
  case (Suc n)
  define m1 where "m1 = machine_sleep i m"
  obtain cs where cs: "monitor machine_host st m1 = m1\<lparr>mc_commands := cs\<rparr>" using machine_monitor by blast
  show ?case
  proof (cases "t \<le> mc_time m + i")
    case True
    then have "\<not> load_flag f (mc_signals m1)"
      using Suc.prems by (simp add: m1_def machine_sleep_def Let_def signal_handler_def load_flag_def clear_flag_def)
    then show ?thesis by (simp add: Let_def m1_def [symmetric])
  next
    case False
    then have "\<exists>m'. daemon_loop (Suc n) machine_host f i st (m1\<lparr>mc_commands := cs\<rparr>) = Some m'"
      using Suc.prems by (intro Suc.IH) (simp_all add: m1_def machine_sleep_def Let_def)
    then show ?thesis by (subst daemon_loop.simps(2)) (simp add: Let_def m1_def [symmetric] cs del: daemon_loop.simps)
  qed
qed

definition native_card :: "string \<Rightarrow> string \<Rightarrow> wifi_card" where
  "native_card phy clock = \<lparr>wc_phy = phy, wc_driver = ''iwlwifi'', wc_ptp_clock = Some clock,
     wc_ptp_source = Native, wc_can_set_tsf = True\<rparr>"

lemma example_cards:
  assumes "mc_cards m = mc_cards machine_example"
  shows "make_card (machine_fs m) class_dir ''phy0'' = native_card ''phy0'' ''/dev/ptp0''"
    "make_card (machine_fs m) class_dir ''phy1'' = native_card ''phy1'' ''/dev/ptp1''"
  using assms
  by (simp_all add: make_card_def machine_fs_def machine_example_def native_card_def class_dir_def path_join_def
      starts_with_def read_driver_def find_ptp_clock_def file_name_def path_components_def
      native_ptp_drivers_def fullmac_drivers_def read_only_drivers_def)

lemma example_discovered:
  assumes "mc_cards m = mc_cards machine_example"
  shows "discover_cards (machine_fs m) class_dir = Inr [native_card ''phy0'' ''/dev/ptp0'', native_card ''phy1'' ''/dev/ptp1'']"
proof -
  have dir: "fs_read_dir (machine_fs m) class_dir = Inr (map Inr [''phy0'', ''phy1''])"
    using assms by (simp add: machine_fs_def machine_example_def)
  note cards = example_cards [OF assms]
  have num: "show_nat 0 = ''0''" "show_nat 1 = ''1''" by code_simp+
  have "natural_sort_key ''phy0'' = (''phy'', 0)" "natural_sort_key ''phy1'' = (''phy'', 1)"
    using natural_sort_key_phy [of 0] natural_sort_key_phy [of 1] unfolding num by simp_all
  then show ?thesis
    unfolding discover_cards_listed [OF dir] by (simp add: cards starts_with_def) (simp add: native_card_def)
qed

lemma example_start:
  assumes "mc_cards m = mc_cards machine_example"
  shows "start_stack machine_host iouring ''auto'' bin thr mode ms m =
    start_mode machine_host iouring [native_card ''phy0'' ''/dev/ptp0'', native_card ''phy1'' ''/dev/ptp1'']
      (native_card ''phy0'' ''/dev/ptp0'') bin thr mode ms m"
proof -
  have "h_fs machine_host m = machine_fs m" by (simp)
  then show ?thesis
    unfolding start_stack_def prepare_def
    by (simp add: example_discovered [OF assms] needs_module_def cards_with_clock_def select_primary_def native_card_def)
qed

text \<open>The processes of mode A on the machine.\<close>

definition secondaries :: "wifi_card \<Rightarrow> wifi_card list \<Rightarrow> wifi_card list" where
  "secondaries p cs = filter (\<lambda>c. wc_phy c \<noteq> wc_phy p) cs"

definition phc2sys_command :: "string \<Rightarrow> wifi_card \<Rightarrow> wifi_card \<Rightarrow> string list" where
  "phc2sys_command bin p c = bin # phc2sys_args (the (wc_ptp_clock p)) (the (wc_ptp_clock c))"

lemma start_secondaries_machine:
  assumes "start_secondaries machine_host p bin cs ps m = (k, m')" "length (secondaries p cs) \<le> mc_spawns m"
  shows "mc_commands m' = mc_commands m @ map (phc2sys_command bin p) (secondaries p cs) \<and>
    (\<exists>qs. k = Inr (ps @ qs) \<and> length qs = length (secondaries p cs) \<and>
       (\<forall>q \<in> set qs. length (mc_procs m) \<le> sp_child q \<and> sp_child q < length (mc_procs m'))) \<and>
    mc_procs m' = mc_procs m @ replicate (length (secondaries p cs)) (Running (mc_delay m))"
  using assms
proof (induction cs arbitrary: ps m)
  case (Cons c cs)
  show ?case
  proof (cases "wc_phy c = wc_phy p")
    case True
    then have same: "secondaries p (c # cs) = secondaries p cs" by (simp add: secondaries_def)
    show ?thesis unfolding same by (rule Cons.IH) (use Cons.prems True same in simp_all)
  next
    case False
    define m1 where "m1 = m\<lparr>mc_commands := mc_commands m @ [phc2sys_command bin p c],
      mc_spawns := mc_spawns m - 1, mc_procs := mc_procs m @ [Running (mc_delay m)]\<rparr>"
    obtain q where q: "start_phc2sys machine_host (the (wc_ptp_clock p)) (the (wc_ptp_clock c)) bin m = (Inr q, m1)"
      "sp_child q = length (mc_procs m)"
      using Cons.prems(2) False
      by (auto simp: start_phc2sys_def spawn_def machine_spawn_def secondaries_def m1_def phc2sys_command_def)
    have "length (secondaries p cs) \<le> mc_spawns m1" "start_secondaries machine_host p bin cs (ps @ [q]) m1 = (k, m')"
      using Cons.prems False q by (auto simp: m1_def secondaries_def)
    from Cons.IH [OF this(2,1)] obtain qs where
      "mc_commands m' = mc_commands m1 @ map (phc2sys_command bin p) (secondaries p cs)"
      "k = Inr ((ps @ [q]) @ qs)" "length qs = length (secondaries p cs)"
      "\<forall>q \<in> set qs. length (mc_procs m1) \<le> sp_child q \<and> sp_child q < length (mc_procs m')"
      "mc_procs m' = mc_procs m1 @ replicate (length (secondaries p cs)) (Running (mc_delay m1))" by blast
    moreover have "secondaries p (c # cs) = c # secondaries p cs" using False by (simp add: secondaries_def)
    ultimately show ?thesis
      using q(2) by (intro conjI exI [of _ "q # qs"]) (auto simp: m1_def)
  qed
qed (auto simp: secondaries_def)


lemma example_run:
  "\<exists>m'. run_daemon 3 machine_host False ''auto'' 1000 ''ptp4l'' 5000 Ptp 10 machine_example = Some (Some (Inr ()), m')"
proof -
  obtain f sg where f: "new_flag (h_signals machine_host machine_example) = (f, sg)" by fastforce
  then have f0: "f = 0" "sg = \<lparr>sig_once = False, sig_handler = None, sig_flags = [True]\<rparr>"
    by (simp_all add: machine_example_def new_flag_def)
  define m1 where "m1 = machine_example\<lparr>mc_signals := ctrlc_handler f sg\<rparr>"
  have m1: "mc_cards m1 = mc_cards machine_example" by (simp add: m1_def)
  obtain ps m2 where m2: "start_mode machine_host False [native_card ''phy0'' ''/dev/ptp0'', native_card ''phy1'' ''/dev/ptp1'']
      (native_card ''phy0'' ''/dev/ptp0'') ''ptp4l'' 5000 Ptp 10 m1 = (Some (Inr (Phc2sys ps)), m2)"
     "mc_signals m2 = mc_signals m1" "mc_time m2 = 0" "mc_term_at m2 = Some 2500"
    by (simp add: start_mode_def native_card_def start_phc2sys_def spawn_def machine_spawn_def m1_def machine_example_def)
  then have "\<exists>m3. daemon_loop 3 machine_host f 1000 (Phc2sys ps) m2 = Some m3"
    using f0 machine_loop [of m2 2500 f 2 1000 "Phc2sys ps"]
    by (simp add: m1_def machine_example_def ctrlc_handler_def numeral_3_eq_3 numeral_2_eq_2)
  then obtain m3 where m3: "daemon_loop 3 machine_host f 1000 (Phc2sys ps) m2 = Some m3" by blast
  have "start_stack machine_host False ''auto'' ''ptp4l'' 5000 Ptp 10 m1 = (Some (Inr (Phc2sys ps)), m2)"
    unfolding example_start [OF m1] by (rule m2(1))
  then show ?thesis
    using machine_stop [of "Phc2sys ps" m3] unfolding run_daemon_def f
    by (auto simp: m1_def [symmetric] m3)
qed

section \<open>Properties\<close>

text \<open>C10: The daemon leaves nothing behind: in every environment that keeps the laws of processes and
  modules, in every mode and for every outcome, the processes alive when the daemon returns were
  alive when it was started, so that a start that fails half way has stopped the processes it had
  started, and after a successful end the module is not loaded.\<close>

theorem run_daemon_leaves_nothing:
  assumes env: "daemon_env host child alive loaded deps"
    and run: "run_daemon fuel host iouring primary interval bin thr mode ms w = Some (k, w')"
  shows "(\<forall>p. alive p w' \<longrightarrow> alive p w) \<and> (k = Some (Inr ()) \<longrightarrow> ''tsf_ptp'' \<notin> loaded w')"
  using daemon_env.run_daemon_accounted [OF env run] by (simp add: daemon_env.accounted_def [OF env])

theorem run_daemon_leaves_nothing_witness:
  "\<exists>m'. run_daemon 3 machine_host False ''auto'' 1000 ''ptp4l'' 5000 Ptp 10 machine_example = Some (Some (Inr ()), m') \<and>
     (\<forall>p. machine_alive p m' \<longrightarrow> machine_alive p machine_example) \<and> ''tsf_ptp'' \<notin> machine_modules m'"
proof -
  obtain m' where m': "run_daemon 3 machine_host False ''auto'' 1000 ''ptp4l'' 5000 Ptp 10 machine_example = Some (Some (Inr ()), m')"
    using example_run by blast
  with run_daemon_leaves_nothing [OF machine_env.daemon_env_axioms this] show ?thesis by auto
qed

text \<open>C31: The loop ends after the signal: once the flag has been cleared when the round after k
  rounds wakes up, every fuel above k suffices for the loop to return.\<close>

theorem daemon_loop_returns:
  assumes "\<not> load_flag f (h_signals host (h_sleep host i ((daemon_round host i st ^^ k) w)))" "k < n"
  shows "\<exists>w'. daemon_loop n host f i st w = Some w'"
  using assms
proof (induction n arbitrary: k w)
  case (Suc n)
  show ?case
  proof (cases k)
    case (Suc k')
    then have "\<not> load_flag f (h_signals host (h_sleep host i ((daemon_round host i st ^^ k') (daemon_round host i st w))))"
      using Suc.prems(1) by (simp add: funpow_swap1)
    from Suc.IH [OF this] Suc.prems(2) show ?thesis by (simp add: Let_def daemon_round_def Suc)
  qed (use Suc.prems in \<open>simp add: Let_def\<close>)
qed simp

theorem daemon_loop_returns_witness:
  "\<exists>m'. daemon_loop 5 machine_host 0 1000 KernelSync
     (machine_example\<lparr>mc_signals := \<lparr>sig_once = True, sig_handler = Some 0, sig_flags = [True]\<rparr>\<rparr>) = Some m'"
proof -
  define m where "m = machine_example\<lparr>mc_signals := \<lparr>sig_once = True, sig_handler = Some 0, sig_flags = [True]\<rparr>\<rparr>"
  have "\<not> load_flag 0 (h_signals machine_host (h_sleep machine_host 1000 ((daemon_round machine_host 1000 KernelSync ^^ 2) m)))"
    by (simp add: m_def machine_example_def daemon_round_def monitor_def machine_sleep_def numeral_2_eq_2
        signal_handler_def clear_flag_def load_flag_def)
  from daemon_loop_returns [OF this, of 5] show ?thesis by (simp add: m_def)
qed

text \<open>C21: Mode A follows the primary: when the cards found need no module, at least two have a clock and enough
  processes can be spawned, starting runs exactly one phc2sys for every card with a clock other than the selected
  primary, from the directory of the given binary, with the clock of the primary as its source and
  the clock of that card as its sink, in the order of the cards, and no other command; all of these
  processes are alive when the start returns.  In particular no ptp4l is started, which the help of the
  start command and docs/userspace-tool.md announce.\<close>

theorem ptp_mode_follows_primary:
  assumes "discover_cards (machine_fs m) class_dir = Inr cards" "\<not> list_ex needs_module cards"
    and "2 \<le> length (cards_with_clock cards)" "select_primary (cards_with_clock cards) primary = Inr p"
    and "length (filter (\<lambda>c. wc_phy c \<noteq> wc_phy p) (cards_with_clock cards)) \<le> mc_spawns m"
  shows "\<exists>ps m'. start_stack machine_host iouring primary bin thr Ptp ms m = (Some (Inr (Phc2sys ps)), m') \<and>
     mc_commands m' = mc_commands m @
       map (\<lambda>c. [phc2sys_bin_from bin, ''-s'', the (wc_ptp_clock p), ''-c'', the (wc_ptp_clock c),
                   ''-R'', ''10'', ''-O'', ''0'', ''-m''])
         (filter (\<lambda>c. wc_phy c \<noteq> wc_phy p) (cards_with_clock cards)) \<and>
     length ps = length (filter (\<lambda>c. wc_phy c \<noteq> wc_phy p) (cards_with_clock cards)) \<and>
     (\<forall>q \<in> set ps. machine_alive (sp_child q) m')"
proof -
  define cs where "cs = cards_with_clock cards"
  obtain k m' where run: "start_secondaries machine_host p (phc2sys_bin_from bin) cs [] m = (k, m')" by fastforce
  obtain ps where ps: "k = Inr ps" "length ps = length (secondaries p cs)"
      "\<forall>q \<in> set ps. length (mc_procs m) \<le> sp_child q \<and> sp_child q < length (mc_procs m')"
    and m': "mc_commands m' = mc_commands m @ map (phc2sys_command (phc2sys_bin_from bin) p) (secondaries p cs)"
      "mc_procs m' = mc_procs m @ replicate (length (secondaries p cs)) (Running (mc_delay m))"
    using start_secondaries_machine [OF run] assms(5) by (auto simp: secondaries_def cs_def)
  have "\<forall>q \<in> set ps. machine_alive (sp_child q) m'"
    using ps(3) m'(2) by (auto simp: machine_alive_def proc_alive_def nth_append)
  moreover have "start_stack machine_host iouring primary bin thr Ptp ms m = (Some (Inr (Phc2sys ps)), m')"
    using assms(1-4) run ps(1) by (simp add: start_stack_def prepare_def start_mode_def Let_def cs_def)
  ultimately show ?thesis
    using ps(2) m'(1) by (simp add: phc2sys_command_def [abs_def] phc2sys_args_def secondaries_def cs_def)
qed

theorem ptp_mode_follows_primary_witness:
  "\<exists>ps m'. start_stack machine_host False ''auto'' ''/opt/ptp4l'' 5000 Ptp 10 machine_example = (Some (Inr (Phc2sys ps)), m') \<and>
     mc_commands m' = [[''/opt/phc2sys'', ''-s'', ''/dev/ptp0'', ''-c'', ''/dev/ptp1'', ''-R'', ''10'', ''-O'', ''0'', ''-m'']] \<and>
     length ps = 1 \<and> (\<forall>q \<in> set ps. machine_alive (sp_child q) m')"
proof -
  have bin: "phc2sys_bin_from ''/opt/ptp4l'' = ''/opt/phc2sys''"
    by (simp add: phc2sys_bin_from_def path_parent_def trim_segments.simps path_join_def starts_with_def)
  have "discover_cards (machine_fs machine_example) class_dir =
      Inr [native_card ''phy0'' ''/dev/ptp0'', native_card ''phy1'' ''/dev/ptp1'']"
    by (simp add: example_discovered)
  from ptp_mode_follows_primary [OF this, of "''auto''" "native_card ''phy0'' ''/dev/ptp0''" False "''/opt/ptp4l''" 5000 10]
  show ?thesis
    unfolding bin
    by (simp add: native_card_def machine_example_def needs_module_def cards_with_clock_def select_primary_def)
qed

text \<open>Mode B can start without anything that synchronises: when the cards already have clocks, so
  that no card needs the module, starting in kernel mode reports success although it has run no
  command at all and the world is the one it found; the kernel loop, which is a parameter of the
  module, has not been asked for.\<close>

theorem kernel_mode_without_module:
  assumes "discover_cards (h_fs host w) class_dir = Inr cards" "\<not> list_ex needs_module cards"
    and "2 \<le> length (cards_with_clock cards)" "select_primary (cards_with_clock cards) primary = Inr p"
  shows "start_stack host iouring primary bin thr Kernel ms w = (Some (Inr KernelSync), w)"
  using assms by (simp add: start_stack_def prepare_def start_mode_def Let_def)

theorem kernel_mode_without_module_witness:
  "start_stack machine_host False ''auto'' ''ptp4l'' 5000 Kernel 10 machine_example = (Some (Inr KernelSync), machine_example)
   \<and> \<not> mc_loaded machine_example"
proof -
  have "discover_cards (h_fs machine_host machine_example) class_dir =
      Inr [native_card ''phy0'' ''/dev/ptp0'', native_card ''phy1'' ''/dev/ptp1'']"
    using example_discovered [of machine_example] by simp
  from kernel_mode_without_module [OF this, of "''auto''" "native_card ''phy0'' ''/dev/ptp0''" False "''ptp4l''" 5000 10]
  show ?thesis
    by (simp add: needs_module_def native_card_def cards_with_clock_def select_primary_def machine_example_def)
qed

text \<open>Intervals are read in their units: a number of milliseconds, seconds or minutes, and seconds
  without a unit, for every 64-bit number, except that minutes beyond the 64-bit range of seconds
  panic in the debug build and wrap around in the release build.\<close>

theorem parse_interval_units:
  assumes "n < 2 ^ 64"
  shows "parse_interval pr (show_nat n @ ''ms'') = Some (Inr n) \<and>
    parse_interval pr (show_nat n @ ''s'') = Some (Inr (1000 * n)) \<and>
    parse_interval pr (show_nat n) = Some (Inr (1000 * n)) \<and>
    parse_interval pr (show_nat n @ ''m'') =
      (if 60 * n < 2 ^ 64 then Some (Inr (60000 * n))
       else if pr = Debug then None else Some (Inr (1000 * ((60 * n) mod 2 ^ 64))))"
proof -
  have num: "parse_u64 (show_nat n) = Some (word_of_nat n)" "unat (word_of_nat n :: u64) = n"
    using parse_u64_show [OF assms] assms by (simp_all add: unat_of_nat take_bit_nat_eq_self)
  note none = strip_ms_None [OF show_nat_digits(1) digits_last]
  have d: "last (show_nat n) \<noteq> CHR ''s''" "last (show_nat n) \<noteq> CHR ''m''"
    using digits_last [of n] by (auto simp: is_digit_def)
  have s: "strip_suffix ''s'' (show_nat n) = None" "strip_suffix ''m'' (show_nat n) = None"
    "strip_suffix ''s'' (show_nat n @ ''m'') = None"
    using d show_nat_digits(1) [of n] by (auto intro: strip_suffix_last)
  have ms: "parse_interval pr (show_nat n @ ''ms'') = Some (Inr n)"
    using trim_number [of "''ms''" n] by (simp add: parse_interval_def num)
  have sec: "parse_interval pr (show_nat n @ ''s'') = Some (Inr (1000 * n))"
    using trim_number [of "''s''" n] by (simp add: parse_interval_def parse_seconds_def none num)
  have bare: "parse_interval pr (show_nat n) = Some (Inr (1000 * n))"
    using trim_number [of "[]" n] by (simp add: parse_interval_def parse_seconds_def none s num)
  have "unat (word_of_nat n * 60 :: u64) = (60 * n) mod 2 ^ 64"
    using num(2) by (simp add: unat_word_ariths mult.commute)
  then have "parse_interval pr (show_nat n @ ''m'') =
      (if pr = Debug \<and> 2 ^ 64 \<le> n * 60 then None else Some (Inr (1000 * ((60 * n) mod 2 ^ 64))))"
    using trim_number [of "''m''" n] by (simp add: parse_interval_def none s num mul_u64_def)
  then show ?thesis using ms sec bare by (simp add: mult.commute)
qed


theorem parse_interval_units_witness:
  "parse_interval Release (show_nat 400000000000000000 @ ''m'') = Some (Inr 5553255926290448384000) \<and>
   parse_interval Debug (show_nat 5 @ ''m'') = Some (Inr 300000)"
  using parse_interval_units [of 400000000000000000 Release] parse_interval_units [of 5 Debug] by simp

end
