(* ===== verification/DiscoveryTests.thy ===== *)
theory DiscoveryTests
  imports Discovery
begin

text \<open>
  The unit tests of discovery.rs, run on the model: each test is the conjunction of its assertions,
  and the lemmas show that it passes.
\<close>

section \<open>A temporary directory\<close>

text \<open>A temporary directory: its directories, the entries of each, and the links.\<close>

record mock_tree =
  mt_dirs :: "string list"
  mt_entries :: "(string \<times> string) list"
  mt_links :: "(string \<times> string) list"

definition temp_dir :: "string \<Rightarrow> mock_tree" where
  "temp_dir root = \<lparr>mt_dirs = [root], mt_entries = [], mt_links = []\<rparr>"

definition mkdir :: "string \<Rightarrow> string \<Rightarrow> mock_tree \<Rightarrow> mock_tree" where
  "mkdir dir name t =
     (if (dir, name) \<in> set (mt_entries t) then t
      else t\<lparr>mt_dirs := mt_dirs t @ [path_join dir name], mt_entries := mt_entries t @ [(dir, name)]\<rparr>)"

definition symlink :: "string \<Rightarrow> string \<Rightarrow> string \<Rightarrow> mock_tree \<Rightarrow> mock_tree" where
  "symlink target dir name t =
     t\<lparr>mt_entries := mt_entries t @ [(dir, name)], mt_links := mt_links t @ [(path_join dir name, target)]\<rparr>"

definition mock_fs :: "mock_tree \<Rightarrow> fs" where
  "mock_fs t =
     \<lparr>fs_read_dir = (\<lambda>d. if d \<in> set (mt_dirs t)
                      then Inr (map (\<lambda>e. Inr (snd e)) (filter (\<lambda>e. fst e = d) (mt_entries t))) else Inl (OsError 2)),
      fs_read_link = (\<lambda>l. case map_of (mt_links t) l of Some target \<Rightarrow> Inr target | None \<Rightarrow> Inl (OsError 2)),
      fs_read_to_string = (\<lambda>_. Inl (OsError 2)), fs_exists = (\<lambda>p. p \<in> set (mt_dirs t))\<rparr>"

definition create_mock_phy :: "string \<Rightarrow> string \<Rightarrow> string \<Rightarrow> string option \<Rightarrow> mock_tree \<Rightarrow> mock_tree" where
  "create_mock_phy root phy_name driver_name ptp_clock t =
     (let phy_dir = path_join root phy_name;
          device_dir = path_join phy_dir ''device'';
          t = mkdir phy_dir ''device'' (mkdir root phy_name t);
          driver_target = path_join (path_join root ''_drivers'') driver_name;
          t = mkdir (path_join root ''_drivers'') driver_name (mkdir root ''_drivers'' t);
          t = symlink driver_target device_dir ''driver'' t
      in case ptp_clock of Some ptp \<Rightarrow> mkdir device_dir ptp t | None \<Rightarrow> t)"

abbreviation troot :: string where
  "troot \<equiv> ''/t''"

definition discovered :: "(mock_tree \<Rightarrow> mock_tree) \<Rightarrow> (wifi_card list \<Rightarrow> bool) \<Rightarrow> bool" where
  "discovered create check =
     (case discover_cards (mock_fs (create (temp_dir troot))) troot of Inr cards \<Rightarrow> check cards | Inl e \<Rightarrow> False)"

definition test_discover_intel_native_ptp :: bool where
  "test_discover_intel_native_ptp \<longleftrightarrow>
     discovered (create_mock_phy troot ''phy0'' ''iwlwifi'' (Some ''ptp0''))
       (\<lambda>cards. length cards = 1 \<and> wc_phy (cards ! 0) = ''phy0'' \<and> wc_driver (cards ! 0) = ''iwlwifi'' \<and>
          wc_ptp_source (cards ! 0) = Native \<and> wc_ptp_clock (cards ! 0) = Some ''/dev/ptp0'' \<and> wc_can_set_tsf (cards ! 0))"

definition test_discover_mediatek_needs_module :: bool where
  "test_discover_mediatek_needs_module \<longleftrightarrow>
     discovered (create_mock_phy troot ''phy1'' ''mt76'' None)
       (\<lambda>cards. length cards = 1 \<and> wc_driver (cards ! 0) = ''mt76'' \<and> wc_ptp_source (cards ! 0) = NoSource \<and>
          wc_ptp_clock (cards ! 0) = None \<and> wc_can_set_tsf (cards ! 0))"

definition test_discover_mediatek_with_tsf_ptp :: bool where
  "test_discover_mediatek_with_tsf_ptp \<longleftrightarrow>
     discovered (create_mock_phy troot ''phy1'' ''mt76'' (Some ''ptp1''))
       (\<lambda>cards. length cards = 1 \<and> wc_ptp_source (cards ! 0) = TsfPtp \<and> wc_ptp_clock (cards ! 0) = Some ''/dev/ptp1'')"

definition test_discover_fullmac_unsupported :: bool where
  "test_discover_fullmac_unsupported \<longleftrightarrow>
     discovered (create_mock_phy troot ''phy3'' ''brcmfmac'' None)
       (\<lambda>cards. length cards = 1 \<and> wc_ptp_source (cards ! 0) = NoSource \<and> \<not> wc_can_set_tsf (cards ! 0))"

definition test_discover_missing_driver_symlink :: bool where
  "test_discover_missing_driver_symlink \<longleftrightarrow>
     discovered (\<lambda>t. mkdir (path_join troot ''phy0'') ''device'' (mkdir troot ''phy0'' t))
       (\<lambda>cards. length cards = 1 \<and> wc_driver (cards ! 0) = ''unknown'')"

definition test_discover_read_only_driver :: bool where
  "test_discover_read_only_driver \<longleftrightarrow>
     discovered (create_mock_phy troot ''phy0'' ''rtl8xxxu'' None)
       (\<lambda>cards. length cards = 1 \<and> \<not> wc_can_set_tsf (cards ! 0))"

definition test_discover_empty_sysfs :: bool where
  "test_discover_empty_sysfs \<longleftrightarrow> discovered (\<lambda>t. t) (\<lambda>cards. cards = [])"

definition test_discover_nonexistent_path :: bool where
  "test_discover_nonexistent_path \<longleftrightarrow>
     (case discover_cards (mock_fs (temp_dir troot)) ''/nonexistent/path'' of Inr cards \<Rightarrow> cards = [] | Inl e \<Rightarrow> False)"

definition test_discover_sorted_output :: bool where
  "test_discover_sorted_output \<longleftrightarrow>
     discovered (create_mock_phy troot ''phy0'' ''iwlwifi'' (Some ''ptp0'') \<circ> create_mock_phy troot ''phy2'' ''mt76'' None \<circ>
         create_mock_phy troot ''phy10'' ''mt76'' None)
       (\<lambda>cards. 2 < length cards \<and> wc_phy (cards ! 0) = ''phy0'' \<and> wc_phy (cards ! 1) = ''phy2'' \<and> wc_phy (cards ! 2) = ''phy10'')"

text \<open>The offset of the first occurrence, and whether there is one.\<close>

fun find_str :: "string \<Rightarrow> string \<Rightarrow> nat option" where
  "find_str p [] = (if p = [] then Some 0 else None)"
| "find_str p (c # s) = (if starts_with p (c # s) then Some 0 else map_option Suc (find_str p s))"

text \<open>The comparison stops at the first difference.\<close>

lemma starts_with_code [code]:
  "starts_with [] s = True" "starts_with (a # p) [] = False"
  "starts_with (a # p) (b # s) = (if a = b then starts_with p s else False)"
  by (auto simp: starts_with_def)

definition contains :: "string \<Rightarrow> string \<Rightarrow> bool" where
  "contains s p \<longleftrightarrow> find_str p s \<noteq> None"

definition test_format_table :: bool where
  "test_format_table \<longleftrightarrow>
     (let cards =
        [\<lparr>wc_phy = ''phy0'', wc_driver = ''iwlwifi'', wc_ptp_clock = Some ''/dev/ptp0'', wc_ptp_source = Native, wc_can_set_tsf = True\<rparr>,
         \<lparr>wc_phy = ''phy1'', wc_driver = ''mt76'', wc_ptp_clock = None, wc_ptp_source = NoSource, wc_can_set_tsf = True\<rparr>];
        table = format_table cards
      in contains table ''native PTP'' \<and> contains table ''needs tsf-ptp module'')"

definition test_mixed_topology :: bool where
  "test_mixed_topology \<longleftrightarrow>
     discovered (create_mock_phy troot ''phy3'' ''brcmfmac'' None \<circ> create_mock_phy troot ''phy2'' ''mt76'' None \<circ>
         create_mock_phy troot ''phy1'' ''mt76'' (Some ''ptp1'') \<circ> create_mock_phy troot ''phy0'' ''iwlwifi'' (Some ''ptp0''))
       (\<lambda>cards. length cards = 4 \<and>
          map_option wc_ptp_source (find (\<lambda>c. wc_driver c = ''iwlwifi'') cards) = Some Native \<and>
          map_option wc_ptp_source (find (\<lambda>c. wc_phy c = ''phy1'') cards) = Some TsfPtp \<and>
          map_option wc_ptp_source (find (\<lambda>c. wc_phy c = ''phy2'') cards) = Some NoSource \<and>
          map_option wc_can_set_tsf (find (\<lambda>c. wc_driver c = ''brcmfmac'') cards) = Some False)"

lemmas discover_eval = discovered_def discover_cards_def mock_fs_def temp_dir_def mkdir_def symlink_def create_mock_phy_def path_join_def
  starts_with_def make_card_def read_driver_def find_ptp_clock_def file_name_def path_components_def native_ptp_drivers_def
  fullmac_drivers_def read_only_drivers_def io_kind_def Let_def

lemmas number_eval = parse_u64_def parse_digits_def digits_val_def digit_val_def is_digit_def starts_with_def

lemma phy_keys:
  "natural_sort_key ''phy0'' = (''phy'', 0)" "natural_sort_key ''phy1'' = (''phy'', 1)" "natural_sort_key ''phy2'' = (''phy'', 2)"
  "natural_sort_key ''phy3'' = (''phy'', 3)" "natural_sort_key ''phy10'' = (''phy'', 10)"
  by (simp_all add: natural_sort_key_def number_eval)

lemma discover_tests: "test_discover_intel_native_ptp \<and> test_discover_mediatek_needs_module \<and> test_discover_mediatek_with_tsf_ptp \<and>
    test_discover_fullmac_unsupported \<and> test_discover_missing_driver_symlink \<and> test_discover_read_only_driver \<and>
    test_discover_empty_sysfs \<and> test_discover_nonexistent_path"
  by (simp add: test_discover_intel_native_ptp_def test_discover_mediatek_needs_module_def test_discover_mediatek_with_tsf_ptp_def
      test_discover_fullmac_unsupported_def test_discover_missing_driver_symlink_def test_discover_read_only_driver_def
      test_discover_empty_sysfs_def test_discover_nonexistent_path_def discover_eval)

text \<open>The larger trees are built once, before the scan reads them.\<close>

lemma discovered_tree:
  assumes "create (temp_dir troot) = t" "case discover_cards (mock_fs t) troot of Inr cards \<Rightarrow> check cards | Inl e \<Rightarrow> False"
  shows "discovered create check"
  using assms by (simp add: discovered_def)

lemmas tree_eval = temp_dir_def mkdir_def symlink_def create_mock_phy_def path_join_def starts_with_def Let_def

lemma sorted_output_test: "test_discover_sorted_output"
  unfolding test_discover_sorted_output_def
  by (rule discovered_tree, simp add: tree_eval) (simp add: discover_eval phy_keys)

lemma mixed_topology_test: "test_mixed_topology"
  unfolding test_mixed_topology_def
  by (rule discovered_tree, simp add: tree_eval) (simp add: discover_eval phy_keys)

lemma table_test: "test_format_table"
  by code_simp

end
