(* ===== verification/DaemonTests.thy ===== *)
theory DaemonTests
  imports Daemon DiscoveryTests
begin

text \<open>
  The unit tests of config\_gen.rs, health.rs, module\_loader.rs, ptp4l.rs and daemon.rs, run on
  the model: each test is the conjunction of its assertions, and the lemmas show that it passes.
\<close>

section \<open>The configuration generator\<close>

definition test_card :: "string \<Rightarrow> string \<Rightarrow> string option \<Rightarrow> ptp_source \<Rightarrow> wifi_card" where
  "test_card phy driver ptp source =
     \<lparr>wc_phy = phy, wc_driver = driver, wc_ptp_clock = ptp, wc_ptp_source = source, wc_can_set_tsf = True\<rparr>"

text \<open>The option serverOnly comes less than 50 bytes after the section of a clock.\<close>

definition server_follows :: "string \<Rightarrow> string \<Rightarrow> bool" where
  "server_follows config sect =
     (case find_str sect config of
        Some master_pos \<Rightarrow> (case find_str ''serverOnly'' (drop master_pos config) of Some n \<Rightarrow> n < 50 | None \<Rightarrow> False)
      | None \<Rightarrow> False)"

definition test_generate_config_basic :: bool where
  "test_generate_config_basic \<longleftrightarrow>
     (let cards =
        [test_card ''phy0'' ''iwlwifi'' (Some ''/dev/ptp0'') Native,
         test_card ''phy1'' ''mt76'' (Some ''/dev/ptp1'') TsfPtp,
         test_card ''phy2'' ''mt76'' (Some ''/dev/ptp2'') TsfPtp]
      in case generate_config cards ''auto'' of
           Inl e \<Rightarrow> False
         | Inr config \<Rightarrow>
             contains config ''[global]'' \<and> contains config ''clockClass              248'' \<and>
             contains config ''domainNumber            42'' \<and> contains config ''[/dev/ptp0]'' \<and>
             contains config ''serverOnly              1'' \<and> contains config ''[/dev/ptp1]'' \<and>
             contains config ''[/dev/ptp2]'')"

definition test_auto_prefers_intel :: bool where
  "test_auto_prefers_intel \<longleftrightarrow>
     (let cards =
        [test_card ''phy0'' ''mt76'' (Some ''/dev/ptp1'') TsfPtp,
         test_card ''phy1'' ''iwlwifi'' (Some ''/dev/ptp0'') Native]
      in case generate_config cards ''auto'' of Inl e \<Rightarrow> False | Inr config \<Rightarrow> server_follows config ''[/dev/ptp0]'')"

definition test_explicit_primary :: bool where
  "test_explicit_primary \<longleftrightarrow>
     (let cards =
        [test_card ''phy0'' ''iwlwifi'' (Some ''/dev/ptp0'') Native,
         test_card ''phy1'' ''mt76'' (Some ''/dev/ptp1'') TsfPtp]
      in case generate_config cards ''phy1'' of Inl e \<Rightarrow> False | Inr config \<Rightarrow> server_follows config ''[/dev/ptp1]'')"

definition test_no_ptp_clocks_error :: bool where
  "test_no_ptp_clocks_error \<longleftrightarrow>
     generate_config [test_card ''phy0'' ''brcmfmac'' None NoSource] ''auto'' = Inl NoPtpClocks"

definition test_only_one_clock_error :: bool where
  "test_only_one_clock_error \<longleftrightarrow>
     generate_config [test_card ''phy0'' ''iwlwifi'' (Some ''/dev/ptp0'') Native] ''auto'' = Inl OnlyOneClock"

definition test_primary_not_found :: bool where
  "test_primary_not_found \<longleftrightarrow>
     (let cards =
        [test_card ''phy0'' ''mt76'' (Some ''/dev/ptp0'') TsfPtp,
         test_card ''phy1'' ''mt76'' (Some ''/dev/ptp1'') TsfPtp]
      in case generate_config cards ''phy99'' of Inl (PrimaryNotFound _) \<Rightarrow> True | _ \<Rightarrow> False)"

definition test_auto_without_intel :: bool where
  "test_auto_without_intel \<longleftrightarrow>
     (let cards =
        [test_card ''phy0'' ''mt76'' (Some ''/dev/ptp0'') TsfPtp,
         test_card ''phy1'' ''ath9k'' (Some ''/dev/ptp1'') TsfPtp]
      in case generate_config cards ''auto'' of Inl e \<Rightarrow> False | Inr config \<Rightarrow> server_follows config ''[/dev/ptp0]'')"

definition test_cards_without_ptp_excluded :: bool where
  "test_cards_without_ptp_excluded \<longleftrightarrow>
     (let cards =
        [test_card ''phy0'' ''mt76'' (Some ''/dev/ptp0'') TsfPtp,
         test_card ''phy1'' ''brcmfmac'' None NoSource,
         test_card ''phy2'' ''mt76'' (Some ''/dev/ptp2'') TsfPtp]
      in case generate_config cards ''auto'' of
           Inl e \<Rightarrow> False
         | Inr config \<Rightarrow>
             \<not> contains config ''brcmfmac'' \<and> contains config ''[/dev/ptp0]'' \<and> contains config ''[/dev/ptp2]'')"

lemma config_error_tests: "test_no_ptp_clocks_error \<and> test_only_one_clock_error \<and> test_primary_not_found"
  by (simp add: test_no_ptp_clocks_error_def test_only_one_clock_error_def test_primary_not_found_def test_card_def
      generate_config_def cards_with_clock_def select_primary_def)

lemma config_basic_test: "test_generate_config_basic"
  by code_simp

lemma config_excluded_test: "test_cards_without_ptp_excluded"
  by code_simp

lemma config_primary_tests: "test_auto_prefers_intel \<and> test_explicit_primary \<and> test_auto_without_intel"
  by code_simp

section \<open>Health\<close>

definition test_parse_port_data_set :: bool where
  "test_parse_port_data_set \<longleftrightarrow>
     (let output = unlines
        [''sending: GET PORT_DATA_SET'',
         ''    portIdentity            001122.fffe.334455-1'',
         ''    portState               MASTER'',
         ''    logMinDelayReqInterval  0'',
         ''sending: GET PORT_DATA_SET'',
         ''    portIdentity            001122.fffe.334455-2'',
         ''    portState               SLAVE'',
         ''    logMinDelayReqInterval  0'']
      in case parse_port_data_set output of
           Inl e \<Rightarrow> False
         | Inr statuses \<Rightarrow>
             length statuses = 2 \<and>
             cs_port_state (statuses ! 0) = ''MASTER'' \<and> cs_health (statuses ! 0) = Healthy \<and>
             cs_port_state (statuses ! 1) = ''SLAVE'' \<and> cs_health (statuses ! 1) = Healthy)"

definition test_classify_offset :: "profile \<Rightarrow> bool" where
  "test_classify_offset pr \<longleftrightarrow>
     classify_offset pr 500 = Some Healthy \<and> classify_offset pr (- 999999) = Some Healthy \<and>
     classify_offset pr 1000001 = Some Converging \<and> classify_offset pr (- 2000000) = Some Converging"

definition test_health_state_display :: bool where
  "test_health_state_display \<longleftrightarrow>
     health_state_fmt Healthy = ''HEALTHY'' \<and> health_state_fmt Converging = ''CONVERGING'' \<and>
     health_state_fmt Failed = ''FAILED''"

definition test_parse_empty_output :: bool where
  "test_parse_empty_output \<longleftrightarrow> parse_port_data_set [] = Inr []"

lemma parse_port_tests: "test_parse_port_data_set \<and> test_parse_empty_output"
  by code_simp

lemma classify_offset_test: "test_classify_offset pr"
  by (cases pr) (simp_all add: test_classify_offset_def classify_offset_def neg_i64_def word_sless_alt)

lemma health_display_test: "test_health_state_display"
  by (simp add: test_health_state_display_def health_state_fmt_def)

section \<open>The module loader\<close>

definition sample_proc_modules :: string where
  "sample_proc_modules = unlines
     [''mac80211_hwsim 69632 0 - Live 0xffffffffa0200000'',
      ''tsf_ptp 16384 0 - Live 0xffffffffa0100000'',
      ''mac80211 1036288 2 mac80211_hwsim,tsf_ptp, Live 0xffffffffa0000000'',
      ''cfg80211 1130496 2 mac80211_hwsim,mac80211, Live 0xffffffff9fe00000'',
      ''rfkill 36864 4 cfg80211, Live 0xffffffff9fd00000'']"

definition test_module_loaded :: bool where
  "test_module_loaded \<longleftrightarrow>
     is_module_loaded_from sample_proc_modules ''tsf_ptp'' \<and> is_module_loaded_from sample_proc_modules ''mac80211_hwsim'' \<and>
     is_module_loaded_from sample_proc_modules ''mac80211'' \<and> is_module_loaded_from sample_proc_modules ''cfg80211''"

definition test_module_not_loaded :: bool where
  "test_module_not_loaded \<longleftrightarrow>
     \<not> is_module_loaded_from sample_proc_modules ''iwlwifi'' \<and> \<not> is_module_loaded_from sample_proc_modules ''nonexistent''"

definition test_hyphen_underscore_normalization :: bool where
  "test_hyphen_underscore_normalization \<longleftrightarrow>
     is_module_loaded_from sample_proc_modules ''tsf-ptp'' \<and> is_module_loaded_from sample_proc_modules ''mac80211-hwsim''"

definition test_empty_proc_modules :: bool where
  "test_empty_proc_modules \<longleftrightarrow> \<not> is_module_loaded_from [] ''tsf_ptp''"

definition test_partial_name_no_false_positive :: bool where
  "test_partial_name_no_false_positive \<longleftrightarrow>
     \<not> is_module_loaded_from sample_proc_modules ''tsf'' \<and> \<not> is_module_loaded_from sample_proc_modules ''ptp''"

text \<open>The first words of the sample.\<close>

lemma sample_names:
  "map (hd \<circ> split_whitespace) (str_lines sample_proc_modules) = [''mac80211_hwsim'', ''tsf_ptp'', ''mac80211'', ''cfg80211'', ''rfkill'']"
  "list_all (\<lambda>l. split_whitespace l \<noteq> []) (str_lines sample_proc_modules)"
  by code_simp+

lemma loaded_from_names:
  assumes "map (hd \<circ> split_whitespace) (str_lines s) = names" "list_all (\<lambda>l. split_whitespace l \<noteq> []) (str_lines s)"
  shows "is_module_loaded_from s m \<longleftrightarrow> map (\<lambda>c. if c = CHR ''-'' then CHR ''_'' else c) m \<in> set names"
proof -
  have "(case split_whitespace l of [] \<Rightarrow> False | n # _ \<Rightarrow> n = k) \<longleftrightarrow> hd (split_whitespace l) = k"
    if "l \<in> set (str_lines s)" for l k
    using assms(2) that by (cases "split_whitespace l") (auto simp: list_all_iff)
  then have "is_module_loaded_from s m \<longleftrightarrow>
      (\<exists>l \<in> set (str_lines s). hd (split_whitespace l) = map (\<lambda>c. if c = CHR ''-'' then CHR ''_'' else c) m)"
    unfolding is_module_loaded_from_def Let_def list_ex_iff by (intro bex_cong) simp_all
  then show ?thesis unfolding assms(1) [symmetric] set_map comp_def image_iff by (simp add: eq_commute)
qed

lemma module_loader_tests: "test_module_loaded \<and> test_module_not_loaded \<and> test_hyphen_underscore_normalization \<and>
    test_empty_proc_modules \<and> test_partial_name_no_false_positive"
  by (simp add: test_module_loaded_def test_module_not_loaded_def test_hyphen_underscore_normalization_def
      test_empty_proc_modules_def test_partial_name_no_false_positive_def loaded_from_names [OF sample_names]
      is_module_loaded_from_def [of "[]"] str_lines_def)

section \<open>The path of phc2sys\<close>

definition test_phc2sys_bin_from_full_path :: bool where
  "test_phc2sys_bin_from_full_path \<longleftrightarrow>
     phc2sys_bin_from ''/nix/store/abc-linuxptp-4.4/bin/ptp4l'' = ''/nix/store/abc-linuxptp-4.4/bin/phc2sys''"

definition test_phc2sys_bin_from_bare_name :: bool where
  "test_phc2sys_bin_from_bare_name \<longleftrightarrow> phc2sys_bin_from ''ptp4l'' = ''phc2sys''"

lemma phc2sys_path_tests: "test_phc2sys_bin_from_full_path \<and> test_phc2sys_bin_from_bare_name"
  by code_simp

section \<open>Intervals\<close>

definition test_parse_interval :: "profile \<Rightarrow> bool" where
  "test_parse_interval pr \<longleftrightarrow>
     parse_interval pr ''10s'' = Some (Inr 10000) \<and> parse_interval pr ''5m'' = Some (Inr 300000) \<and>
     parse_interval pr ''100ms'' = Some (Inr 100) \<and> parse_interval pr ''30'' = Some (Inr 30000)"

definition test_parse_interval_invalid :: "profile \<Rightarrow> bool" where
  "test_parse_interval_invalid pr \<longleftrightarrow>
     (case parse_interval pr ''abc'' of Some (Inl _) \<Rightarrow> True | _ \<Rightarrow> False) \<and>
     (case parse_interval pr [] of Some (Inl _) \<Rightarrow> True | _ \<Rightarrow> False)"

lemmas interval_eval = parse_interval_def parse_seconds_def trim_def is_space_def strip_suffix_def mul_u64_def number_eval

lemma interval_tests: "test_parse_interval pr \<and> test_parse_interval_invalid pr"
  by (cases pr) (simp_all add: test_parse_interval_def test_parse_interval_invalid_def interval_eval)

end
