(* ===== verification/F64.thy ===== *)
theory F64
  imports Prelude "HOL-Library.Log_Nat"
begin

text \<open>
  Rust's \<open>f64\<close> as rational numbers rounded to binary64: every operation is the exact result
  rounded to the nearest value with a 53-bit significand, ties to even, and exponents down to
  the subnormal -1074.  Overflow to infinity is left out: the values of the tool stay many
  hundred binary orders below it.  The locale \<open>rounding\<close> holds what the filters rely on, and
  its interpretation shows that the rounding function has these properties.
\<close>

type_synonym f64 = rat

section \<open>Rounding to binary64\<close>

definition pow2 :: "int \<Rightarrow> rat" where
  "pow2 e = (if 0 \<le> e then 2 ^ nat e else 1 / 2 ^ nat (- e))"

text \<open>The binary exponent of a positive rational: \<open>2^e \<le> x < 2^(e+1)\<close>.\<close>

definition ilog2 :: "rat \<Rightarrow> int" where
  "ilog2 x =
     (let (n, d) = quotient_of x; k = bitlen n - bitlen d
      in if pow2 k \<le> x then k else k - 1)"

definition round_even :: "rat \<Rightarrow> int" where
  "round_even x =
     (let f = \<lfloor>x\<rfloor>; d = x - of_int f
      in if d < 1 / 2 then f else if 1 / 2 < d then f + 1 else if even f then f else f + 1)"

definition ulp_exp :: "rat \<Rightarrow> int" where
  "ulp_exp x = max (ilog2 \<bar>x\<bar> - 52) (- 1074)"

definition f64_round :: "rat \<Rightarrow> f64" where
  "f64_round x =
     (if x = 0 then 0
      else of_int (round_even (x / pow2 (ulp_exp x))) * pow2 (ulp_exp x))"

definition fadd :: "f64 \<Rightarrow> f64 \<Rightarrow> f64" where "fadd x y = f64_round (x + y)"
definition fsub :: "f64 \<Rightarrow> f64 \<Rightarrow> f64" where "fsub x y = f64_round (x - y)"
definition fmul :: "f64 \<Rightarrow> f64 \<Rightarrow> f64" where "fmul x y = f64_round (x * y)"
definition fdiv :: "f64 \<Rightarrow> f64 \<Rightarrow> f64" where "fdiv x y = f64_round (x / y)"

text \<open>The casts: i64 and u64 to f64 round, f64 to i64 truncates and saturates.\<close>

definition f64_of_i64 :: "i64 \<Rightarrow> f64" where
  "f64_of_i64 w = f64_round (of_int (sint w))"

definition f64_of_u64 :: "u64 \<Rightarrow> f64" where
  "f64_of_u64 w = f64_round (of_int (uint w))"

definition trunc_rat :: "rat \<Rightarrow> int" where
  "trunc_rat x = (if 0 \<le> x then \<lfloor>x\<rfloor> else \<lceil>x\<rceil>)"

definition f64_to_u64 :: "f64 \<Rightarrow> u64" where
  "f64_to_u64 x = word_of_int (max 0 (min 18446744073709551615 (trunc_rat x)))"

definition f64_to_i64 :: "f64 \<Rightarrow> i64" where
  "f64_to_i64 x = word_of_int (max (- 9223372036854775808) (min 9223372036854775807 (trunc_rat x)))"

section \<open>Powers of two and exponents\<close>

lemma pow2_pos [simp]: "0 < pow2 e"
  by (simp add: pow2_def)

lemma pow2_ne0 [simp]: "pow2 e \<noteq> 0"
  using pow2_pos [of e] by (simp del: pow2_pos)

lemma pow2_powi: "pow2 e = 2 powi e"
  by (simp add: pow2_def power_int_def power_one_over)

lemma pow2_add: "pow2 (a + b) = pow2 a * pow2 b"
  by (simp add: pow2_powi power_int_add)

lemma pow2_diff: "pow2 (a - b) = pow2 a / pow2 b"
  by (simp add: pow2_powi power_int_diff)

lemma pow2_mono: "a \<le> b \<Longrightarrow> pow2 a \<le> pow2 b"
  by (simp add: pow2_powi power_int_increasing)

lemma pow2_strict: "a < b \<Longrightarrow> pow2 a < pow2 b"
  by (simp add: pow2_powi power_int_strict_increasing)

lemma pow2_int: "0 \<le> e \<Longrightarrow> pow2 e = of_int (2 ^ nat e)"
  by (simp add: pow2_def)

lemma bitlen_pow2_bounds:
  assumes "0 < n"
  shows "pow2 (bitlen n - 1) \<le> of_int n" "of_int n < pow2 (bitlen n)"
proof -
  have "1 \<le> bitlen n" using bitlen_nonneg [of n] bitlen_eq_zero_iff [of n] assms by linarith
  moreover have "2 ^ nat (bitlen n - 1) \<le> n" "n < 2 ^ nat (bitlen n)"
    using bitlen_bounds [OF assms] by auto
  ultimately show "pow2 (bitlen n - 1) \<le> of_int n" "of_int n < pow2 (bitlen n)"
    by (simp_all only: pow2_int of_int_le_iff of_int_less_iff diff_ge_0_iff_ge bitlen_nonneg)
qed

lemma ilog2_bounds:
  assumes "0 < x"
  shows "pow2 (ilog2 x) \<le> x" "x < pow2 (ilog2 x + 1)"
proof -
  obtain n d where q: "quotient_of x = (n, d)" by (cases "quotient_of x")
  have d: "0 < d" and x: "x = of_int n / of_int d"
    using quotient_of_denom_pos [OF q] quotient_of_div [OF q] by auto
  have n: "0 < n" using assms x d by (simp add: zero_less_divide_iff)
  let ?k = "bitlen n - bitlen d"
  have bn: "pow2 (bitlen n - 1) \<le> of_int n" "of_int n < pow2 (bitlen n)"
    and bd: "pow2 (bitlen d - 1) \<le> of_int d" "of_int d < pow2 (bitlen d)"
    using bitlen_pow2_bounds [OF n] bitlen_pow2_bounds [OF d] by auto
  have "x < pow2 (bitlen n) / pow2 (bitlen d - 1)"
    unfolding x using bn bd d n by (intro frac_less) auto
  then have hi: "x < pow2 (?k + 1)" by (simp add: pow2_diff [symmetric] algebra_simps)
  have "pow2 (bitlen n - 1) / pow2 (bitlen d) \<le> x"
    unfolding x using bn bd d n by (intro frac_le) auto
  then have lo: "pow2 (?k - 1) \<le> x" by (simp add: pow2_diff [symmetric] algebra_simps)
  show "pow2 (ilog2 x) \<le> x" "x < pow2 (ilog2 x + 1)"
    using hi lo by (auto simp: ilog2_def q Let_def)
qed


lemma ilog2_less: "0 < x \<Longrightarrow> x < pow2 e \<Longrightarrow> ilog2 x < e"
  using ilog2_bounds(1) [of x] pow2_mono [of e "ilog2 x"] by fastforce

lemma ilog2_ge: "0 < x \<Longrightarrow> pow2 e \<le> x \<Longrightarrow> e \<le> ilog2 x"
  using ilog2_bounds(2) [of x] pow2_mono [of "ilog2 x + 1" e] by fastforce

section \<open>Rounding to an integer\<close>

lemma round_even_int [simp]: "round_even (of_int n) = n"
  by (simp add: round_even_def)

lemma round_even_bounds: "\<lfloor>x\<rfloor> \<le> round_even x" "round_even x \<le> \<lfloor>x\<rfloor> + 1"
  by (simp_all add: round_even_def Let_def)

lemma round_even_mono: "x \<le> y \<Longrightarrow> round_even x \<le> round_even y"
proof -
  assume le: "x \<le> y"
  then have f: "\<lfloor>x\<rfloor> \<le> \<lfloor>y\<rfloor>" by (rule floor_mono)
  show ?thesis
  proof (cases "\<lfloor>x\<rfloor> = \<lfloor>y\<rfloor>")
    case True
    with le show ?thesis by (auto simp: round_even_def Let_def)
  next
    case False
    with f have "\<lfloor>x\<rfloor> + 1 \<le> \<lfloor>y\<rfloor>" by simp
    then show ?thesis using round_even_bounds [of x] round_even_bounds [of y] by linarith
  qed
qed

lemma round_even_nonneg: "0 \<le> x \<Longrightarrow> 0 \<le> round_even x"
  using round_even_bounds(1) [of x] zero_le_floor [of x] by linarith

lemma round_even_minus: "round_even (- x) = - round_even x"
proof (cases "x = of_int \<lfloor>x\<rfloor>")
  case True
  then show ?thesis by (metis of_int_minus round_even_int)
next
  case False
  then have "\<lfloor>- x\<rfloor> = - \<lfloor>x\<rfloor> - 1"
    by (metis (no_types) ceiling_altdef ceiling_def floor_minus minus_diff_eq diff_minus_eq_add uminus_add_conv_diff minus_add_distrib add.inverse_inverse)
  then show ?thesis by (auto simp: round_even_def Let_def)
qed

section \<open>The rounding function\<close>

lemma f64_round_0 [simp]: "f64_round 0 = 0"
  by (simp add: f64_round_def)

lemma f64_round_minus: "f64_round (- x) = - f64_round x"
  by (simp add: f64_round_def ulp_exp_def round_even_minus)

text \<open>The finite binary64 values.\<close>

definition is_f64 :: "rat \<Rightarrow> bool" where
  "is_f64 x \<longleftrightarrow> (\<exists>m e. x = of_int m * pow2 e \<and> \<bar>m\<bar> \<le> 2 ^ 53 \<and> - 1074 \<le> e)"

lemma pow2_Suc: "pow2 (e + 1) = 2 * pow2 e"
  by (simp add: pow2_add) (simp add: pow2_def)

lemma is_f64_strict:
  assumes "is_f64 x"
  obtains m e where "x = of_int m * pow2 e" "\<bar>m\<bar> < 2 ^ 53" "- 1074 \<le> e"
proof -
  obtain m e where x: "x = of_int m * pow2 e" "\<bar>m\<bar> \<le> 2 ^ 53" "- 1074 \<le> e"
    using assms by (auto simp: is_f64_def)
  show thesis
  proof (cases "\<bar>m\<bar> < 2 ^ 53")
    case True
    with x that show thesis by blast
  next
    case False
    then have m: "m = 2 * (sgn m * 2 ^ 52)" using x(2) by (auto simp: abs_if sgn_if split: if_splits)
    have m': "(of_int m :: rat) = 2 * of_int (sgn m * 2 ^ 52)"
      using arg_cong [OF m, of rat_of_int] by (simp only: of_int_mult of_int_numeral)
    then have "x = of_int (sgn m * 2 ^ 52) * pow2 (e + 1)"
      by (simp only: x(1) m' pow2_Suc mult_ac)
    moreover have "\<bar>sgn m * 2 ^ 52\<bar> < (2 ^ 53 :: int)" by (simp add: sgn_if)
    ultimately show thesis using x(3) that by force
  qed
qed

lemma f64_round_exact:
  assumes "is_f64 x"
  shows "f64_round x = x"
proof (cases "x = 0")
  case False
  obtain m e where x: "x = of_int m * pow2 e" "\<bar>m\<bar> < 2 ^ 53" "- 1074 \<le> e"
    using assms by (rule is_f64_strict)
  have m: "(of_int \<bar>m\<bar> :: rat) < of_int (2 ^ 53)" using x(2) by (simp only: of_int_less_iff)
  have "\<bar>x\<bar> = of_int \<bar>m\<bar> * pow2 e" using pow2_pos [of e] by (simp add: x(1) abs_mult less_imp_le del: pow2_pos)
  also have "\<dots> < of_int (2 ^ 53) * pow2 e" using m by (rule mult_strict_right_mono) simp
  finally have "\<bar>x\<bar> < 2 ^ 53 * pow2 e" by simp
  then have "\<bar>x\<bar> < pow2 (53 + e)" by (simp add: pow2_add) (simp add: pow2_def [of 53])
  then have il: "ilog2 \<bar>x\<bar> < 53 + e" using False by (intro ilog2_less) auto
  define u where "u = ulp_exp x"
  have le: "u \<le> e" using x(3) il by (simp add: u_def ulp_exp_def)
  have "x / pow2 u = of_int m * pow2 (e - u)" by (simp add: x(1) pow2_diff)
  also have "\<dots> = of_int (m * 2 ^ nat (e - u))" using le by (simp add: pow2_int)
  finally obtain k where k: "x / pow2 u = of_int k" by blast
  then have "f64_round x = of_int k * pow2 u" using False by (simp add: f64_round_def u_def)
  also have "\<dots> = x" unfolding k [symmetric] by simp
  finally show ?thesis .
qed simp


lemma is_f64_minus: "is_f64 (- x) \<longleftrightarrow> is_f64 x"
proof -
  have "is_f64 (- x)" if h: "is_f64 x" for x
  proof -
    obtain m e where "x = of_int m * pow2 e" "\<bar>m\<bar> \<le> 2 ^ 53" "- 1074 \<le> e"
      using h unfolding is_f64_def by blast
    then have "- x = of_int (- m) * pow2 e \<and> \<bar>- m\<bar> \<le> 2 ^ 53 \<and> - 1074 \<le> e" by simp
    then show ?thesis unfolding is_f64_def by blast
  qed
  from this [of x] this [of "- x"] show ?thesis by auto
qed

lemma is_f64_round_pos:
  assumes "0 < x"
  shows "is_f64 (f64_round x)"
proof -
  let ?u = "ulp_exp x"
  have "x < pow2 (ilog2 x + 1)" using ilog2_bounds(2) [OF assms] .
  also have "\<dots> \<le> pow2 (53 + ?u)" using assms by (intro pow2_mono) (simp add: ulp_exp_def)
  also have "\<dots> = 2 ^ 53 * pow2 ?u" by (simp add: pow2_add) (simp add: pow2_def)
  finally have "x / pow2 ?u < of_int (2 ^ 53)" by (simp add: divide_less_eq)
  then have "round_even (x / pow2 ?u) \<le> 2 ^ 53"
    using round_even_mono [of "x / pow2 ?u" "of_int (2 ^ 53)"] by (simp only: round_even_int less_imp_le)
  moreover have "0 \<le> round_even (x / pow2 ?u)"
    using assms by (intro round_even_nonneg) (simp add: less_imp_le)
  moreover have "- 1074 \<le> ?u" by (simp add: ulp_exp_def)
  ultimately show ?thesis
    using assms unfolding is_f64_def f64_round_def
    by (intro exI [of _ "round_even (x / pow2 ?u)"] exI [of _ ?u]) simp
qed

lemma is_f64_round: "is_f64 (f64_round x)"
proof (cases x "0 :: rat" rule: linorder_cases)
  case less
  then have "is_f64 (f64_round (- x))" by (intro is_f64_round_pos) simp
  then show ?thesis by (simp add: f64_round_minus is_f64_minus)
next
  case equal
  then show ?thesis by (simp add: is_f64_def) (rule exI [of _ 0], auto)
next
  case greater
  then show ?thesis by (rule is_f64_round_pos)
qed

lemma f64_round_idem: "f64_round (f64_round x) = f64_round x"
  by (rule f64_round_exact) (rule is_f64_round)

lemma f64_round_int:
  assumes "\<bar>n\<bar> \<le> 2 ^ 53"
  shows "f64_round (of_int n) = of_int n"
proof (rule f64_round_exact)
  show "is_f64 (of_int n)" unfolding is_f64_def
    by (intro exI [of _ n] exI [of _ 0]) (use assms in \<open>simp add: pow2_def\<close>)
qed

lemma f64_round_nonneg: "0 \<le> x \<Longrightarrow> 0 \<le> f64_round x"
  by (simp add: f64_round_def round_even_nonneg less_imp_le)

text \<open>A power of two separates the binades below it from those above.\<close>

lemma f64_round_le_pow2:
  assumes "0 < x" "x \<le> pow2 l" "ulp_exp x \<le> l"
  shows "f64_round x \<le> pow2 l"
proof -
  let ?u = "ulp_exp x"
  have l: "pow2 l = pow2 (l - ?u) * pow2 ?u" by (simp add: pow2_add [symmetric])
  have "x / pow2 ?u \<le> of_int (2 ^ nat (l - ?u))"
    using assms(2,3) by (simp add: l pow2_int divide_le_eq)
  then have "round_even (x / pow2 ?u) \<le> 2 ^ nat (l - ?u)"
    using round_even_mono [of "x / pow2 ?u" "of_int (2 ^ nat (l - ?u))"] by (simp only: round_even_int)
  then have "of_int (round_even (x / pow2 ?u)) \<le> pow2 (l - ?u)"
    using assms(3) by (simp only: pow2_int of_int_le_iff diff_ge_0_iff_ge)
  then show ?thesis using assms(1) by (simp add: f64_round_def l mult_right_mono)
qed

lemma f64_round_ge_pow2:
  assumes "pow2 l \<le> x" "ulp_exp x \<le> l"
  shows "pow2 l \<le> f64_round x"
proof -
  let ?u = "ulp_exp x"
  have l: "pow2 l = pow2 (l - ?u) * pow2 ?u" by (simp add: pow2_add [symmetric])
  have x: "0 < x" using assms(1) pow2_pos [of l] by linarith
  have "of_int (2 ^ nat (l - ?u)) \<le> x / pow2 ?u"
    using assms by (simp add: l pow2_int le_divide_eq)
  then have "2 ^ nat (l - ?u) \<le> round_even (x / pow2 ?u)"
    using round_even_mono [of "of_int (2 ^ nat (l - ?u))" "x / pow2 ?u"] by (simp only: round_even_int)
  then have "pow2 (l - ?u) \<le> of_int (round_even (x / pow2 ?u))"
    using assms(2) by (simp only: pow2_int of_int_le_iff diff_ge_0_iff_ge)
  then show ?thesis using x by (simp add: f64_round_def l mult_right_mono)
qed

lemma f64_round_mono_pos:
  assumes "0 < x" "x \<le> y"
  shows "f64_round x \<le> f64_round y"
proof (cases "ulp_exp x = ulp_exp y")
  case True
  have "round_even (x / pow2 (ulp_exp y)) \<le> round_even (y / pow2 (ulp_exp y))"
    using assms by (intro round_even_mono divide_right_mono) (simp_all add: less_imp_le)
  with assms True show ?thesis by (simp add: f64_round_def)
next
  case False
  have "ilog2 x \<le> ilog2 y"
    using assms ilog2_bounds(1) [of x] by (intro ilog2_ge) auto
  with False assms have lt: "ilog2 x < ilog2 y" and u: "ulp_exp y = ilog2 y - 52" "ulp_exp x \<le> ilog2 y"
    by (auto simp: ulp_exp_def max_def split: if_splits)
  have "x < pow2 (ilog2 x + 1)" using ilog2_bounds(2) [OF assms(1)] .
  also have "\<dots> \<le> pow2 (ilog2 y)" using lt by (intro pow2_mono) simp
  finally have "f64_round x \<le> pow2 (ilog2 y)" using u assms(1) by (intro f64_round_le_pow2) simp_all
  also have "\<dots> \<le> f64_round y"
    using ilog2_bounds(1) [of y] assms u by (intro f64_round_ge_pow2) simp_all
  finally show ?thesis .
qed

lemma f64_round_mono: "x \<le> y \<Longrightarrow> f64_round x \<le> f64_round y"
proof -
  assume le: "x \<le> y"
  consider "0 < x" | "x \<le> 0" "0 \<le> y" | "y < 0" using le by linarith
  then show ?thesis
  proof cases
    case 1 then show ?thesis using le by (rule f64_round_mono_pos)
  next
    case 2
    have "0 \<le> f64_round (- x)" "0 \<le> f64_round y" using 2 by (simp_all add: f64_round_nonneg del: f64_round_minus)
    then show ?thesis by (simp add: f64_round_minus)
  next
    case 3
    then have "f64_round (- y) \<le> f64_round (- x)" using le by (intro f64_round_mono_pos) simp_all
    then show ?thesis by (simp add: f64_round_minus)
  qed
qed


lemma round_even_le_double: "0 \<le> x \<Longrightarrow> of_int (round_even x) \<le> 2 * (x :: rat)"
proof -
  assume x: "0 \<le> x"
  show ?thesis
  proof (cases "\<lfloor>x\<rfloor> = 0")
    case True
    with x show ?thesis by (auto simp: round_even_def Let_def)
  next
    case False
    then have "1 \<le> \<lfloor>x\<rfloor>" using x zero_le_floor [of x] by linarith
    then have "of_int (\<lfloor>x\<rfloor> + 1) \<le> 2 * (of_int \<lfloor>x\<rfloor> :: rat)" by simp
    moreover have "of_int (round_even x) \<le> (of_int (\<lfloor>x\<rfloor> + 1) :: rat)"
      using round_even_bounds(2) [of x] by (simp only: of_int_le_iff)
    ultimately show ?thesis using of_int_floor_le [of x] by linarith
  qed
qed

lemma f64_round_le_double:
  assumes "0 \<le> x"
  shows "f64_round x \<le> 2 * x"
proof (cases "x = 0")
  case False
  have "of_int (round_even (x / pow2 (ulp_exp x))) \<le> 2 * (x / pow2 (ulp_exp x))"
    using assms by (intro round_even_le_double) (simp add: less_imp_le)
  then have "of_int (round_even (x / pow2 (ulp_exp x))) * pow2 (ulp_exp x) \<le> 2 * (x / pow2 (ulp_exp x)) * pow2 (ulp_exp x)"
    by (rule mult_right_mono) (simp add: less_imp_le)
  with False show ?thesis by (simp add: f64_round_def)
qed simp

text \<open>The error is at most half a unit in the last place.\<close>

lemma round_even_err: "\<bar>of_int (round_even x) - x\<bar> \<le> 1 / (2 :: rat)"
  using of_int_floor_le [of x] floor_correct [of x] by (auto simp: round_even_def Let_def)

lemma f64_round_err:
  assumes "\<bar>x\<bar> < pow2 k" "- 1021 \<le> k"
  shows "\<bar>f64_round x - x\<bar> \<le> pow2 (k - 54)"
proof (cases "x = 0")
  case False
  let ?u = "ulp_exp x"
  have "ilog2 \<bar>x\<bar> < k" using False assms(1) by (intro ilog2_less) simp_all
  then have u: "?u \<le> k - 53" using assms(2) by (simp add: ulp_exp_def)
  have "f64_round x - x = (of_int (round_even (x / pow2 ?u)) - x / pow2 ?u) * pow2 ?u"
    using False by (simp add: f64_round_def left_diff_distrib)
  then have "\<bar>f64_round x - x\<bar> \<le> 1 / 2 * pow2 ?u"
    using round_even_err [of "x / pow2 ?u"]
    by (simp only: abs_mult abs_of_pos [OF pow2_pos]) (rule mult_right_mono, auto simp: less_imp_le)
  also have "\<dots> \<le> 1 / 2 * pow2 (k - 53)" using u by (intro mult_left_mono pow2_mono) simp_all
  also have "\<dots> = pow2 (k - 54)" using pow2_Suc [of "k - 54"] by simp
  finally show ?thesis .
qed (simp add: less_imp_le)

text \<open>
  Halving the rounded difference of two binary64 values stays below the difference itself:
  in the normal range rounding enlarges by at most a third, and below it both are multiples
  of the smallest subnormal.
\<close>

lemma round_even_le_third: "1 \<le> x \<Longrightarrow> of_int (round_even x) \<le> 4 / 3 * (x :: rat)"
proof -
  assume x: "1 \<le> x"
  then have f: "(1 :: rat) \<le> of_int \<lfloor>x\<rfloor>" by simp
  have "round_even x = \<lfloor>x\<rfloor> \<or> round_even x = \<lfloor>x\<rfloor> + 1 \<and> \<not> x - of_int \<lfloor>x\<rfloor> < 1 / 2"
    unfolding round_even_def Let_def by (cases "x - of_int \<lfloor>x\<rfloor> < 1 / 2") (simp_all only: if_True if_False, auto)
  then consider "of_int (round_even x) = (of_int \<lfloor>x\<rfloor> :: rat)"
    | "of_int (round_even x) = (of_int \<lfloor>x\<rfloor> + 1 :: rat)" "1 / 2 \<le> x - of_int \<lfloor>x\<rfloor>"
    by (metis not_less of_int_1 of_int_add)
  then show ?thesis
  proof cases
    case 1
    then show ?thesis using x of_int_floor_le [of x] by linarith
  next
    case 2
    then show ?thesis using f by linarith
  qed
qed

lemma f64_round_le_third:
  assumes "pow2 (- 1074) \<le> x"
  shows "f64_round x \<le> 4 / 3 * x"
proof -
  let ?u = "ulp_exp x"
  have x: "0 < x" using assms pow2_pos [of "- 1074"] by linarith
  have "pow2 ?u \<le> x"
  proof (cases "?u = - 1074")
    case False
    then have "pow2 ?u \<le> pow2 (ilog2 x)" using x by (intro pow2_mono) (simp add: ulp_exp_def max_def split: if_splits)
    then show ?thesis using ilog2_bounds(1) [OF x] by simp
  qed (use assms in simp)
  then have "of_int (round_even (x / pow2 ?u)) \<le> 4 / 3 * (x / pow2 ?u)"
    by (intro round_even_le_third) (simp add: le_divide_eq_1)
  then have "of_int (round_even (x / pow2 ?u)) * pow2 ?u \<le> 4 / 3 * (x / pow2 ?u) * pow2 ?u"
    by (rule mult_right_mono) (simp add: less_imp_le)
  with x show ?thesis by (simp add: f64_round_def)
qed

lemma is_f64_multiple: "is_f64 x \<Longrightarrow> \<exists>k. x = of_int k * pow2 (- 1074)"
proof -
  assume "is_f64 x"
  then obtain m e where x: "x = of_int m * pow2 e" "- 1074 \<le> e" by (auto simp: is_f64_def)
  have "pow2 e = pow2 (e + 1074) * pow2 (- 1074)" by (simp add: pow2_add [symmetric])
  then have "x = of_int (m * 2 ^ nat (e + 1074)) * pow2 (- 1074)" using x by (simp add: pow2_int)
  then show ?thesis by blast
qed

lemma f64_round_half_diff:
  assumes "f64_round m = m" "f64_round x = x" "m \<le> x"
  shows "f64_round (f64_round (x - m) / 2) \<le> x - m"
proof (cases "m = x")
  case False
  let ?u = "pow2 (- 1074)" and ?y = "x - m"
  obtain a b where ab: "x = of_int a * ?u" "m = of_int b * ?u"
    using is_f64_multiple [OF is_f64_round [of x]] is_f64_multiple [OF is_f64_round [of m]]
    unfolding assms(1,2) by blast
  then have "?y = of_int (a - b) * ?u" by (simp add: left_diff_distrib)
  moreover have "0 < ?y" using assms(3) False by simp
  ultimately have "0 < of_int (a - b) * ?u" by simp
  then have "0 < (of_int (a - b) :: rat)" using zero_less_mult_pos2 [OF _ pow2_pos] by blast
  then have "1 \<le> a - b" by simp
  then have "(1 :: rat) \<le> of_int (a - b)" by simp
  then have y: "?u \<le> ?y"
    using \<open>?y = of_int (a - b) * ?u\<close> mult_right_mono [of 1 "of_int (a - b)" ?u] by (simp add: less_imp_le)
  let ?z = "f64_round ?y / 2"
  have z: "?z \<le> 2 / 3 * ?y" using f64_round_le_third [OF y] by simp
  show ?thesis
  proof (cases "?u \<le> ?z")
    case True
    then have "f64_round ?z \<le> 4 / 3 * ?z" by (rule f64_round_le_third)
    also have "\<dots> \<le> 4 / 3 * (2 / 3 * ?y)" using z by (rule mult_left_mono) simp
    also have "\<dots> \<le> ?y" using \<open>0 < ?y\<close> by simp
    finally show ?thesis .
  next
    case False
    then have "f64_round ?z \<le> f64_round ?u" by (intro f64_round_mono) simp
    also have "f64_round ?u = ?u"
      by (rule f64_round_exact, unfold is_f64_def, intro exI [of _ 1] exI [of _ "- 1074"]) simp
    finally show ?thesis using y by simp
  qed
qed simp

section \<open>Square roots\<close>

text \<open>
  \<open>f64_sqrt\<close> takes the integer square root of the argument scaled by \<open>4 ^ k\<close> to at least
  106 bits and appends a sticky bit, so that the final rounding sees on which side of every
  tie the root lies.
\<close>

function isqrt :: "int \<Rightarrow> int" where
  "isqrt n = (if n \<le> 0 then 0
     else let r = 2 * isqrt (n div 4) in if (r + 1) * (r + 1) \<le> n then r + 1 else r)"
  by pat_completeness auto
termination
  by (relation "measure nat") (auto simp: nat_less_iff pos_imp_zdiv_nonneg_iff)

declare isqrt.simps [simp del]

lemma isqrt_correct:
  "0 \<le> n \<Longrightarrow> 0 \<le> isqrt n \<and> isqrt n * isqrt n \<le> n \<and> n < (isqrt n + 1) * (isqrt n + 1)"
proof (induction n rule: isqrt.induct)
  case (1 n)
  show ?case
  proof (cases "n = 0")
    case False
    define s where "s = isqrt (n div 4)"
    have s: "0 \<le> s" "s * s \<le> n div 4" "n div 4 < (s + 1) * (s + 1)"
      using 1 False by (simp_all add: s_def pos_imp_zdiv_nonneg_iff)
    have eq: "isqrt n = (if (2 * s + 1) * (2 * s + 1) \<le> n then 2 * s + 1 else 2 * s)"
      using False "1.prems" by (subst isqrt.simps) (simp add: Let_def s_def)
    have lo: "2 * s * (2 * s) \<le> n" using s(2) by simp
    have "n < 4 * ((s + 1) * (s + 1))" using s(3) by linarith
    then have hi: "n < (2 * s + 2) * (2 * s + 2)" by (simp add: algebra_simps)
    from lo hi s(1) show ?thesis unfolding eq by (auto simp: algebra_simps)
  qed (simp add: isqrt.simps)
qed

definition f64_sqrt :: "f64 \<Rightarrow> f64" where
  "f64_sqrt x =
     (if x \<le> 0 then 0
      else let k = nat (max 0 (55 - ilog2 x div 2)); y = x * 4 ^ k; s = isqrt \<lfloor>y\<rfloor>
           in f64_round (of_int (2 * s + (if of_int (s * s) = y then 0 else 1)) / 2 ^ (k + 1)))"

lemma f64_sqrt_0 [simp]: "f64_sqrt 0 = 0"
  by (simp add: f64_sqrt_def)

lemma f64_sqrt_nonneg: "0 \<le> f64_sqrt x"
proof (cases "x \<le> 0")
  case False
  then have "0 \<le> isqrt \<lfloor>x * 4 ^ k\<rfloor>" for k using isqrt_correct [of "\<lfloor>x * 4 ^ k\<rfloor>"] by simp
  with False show ?thesis by (simp add: f64_sqrt_def Let_def f64_round_nonneg)
qed (simp add: f64_sqrt_def)

text \<open>The root of a value up to the square of an integer that is a binary64 value is at most that integer.\<close>

lemma f64_sqrt_le_int:
  assumes "x \<le> of_int (d * d)" "0 \<le> d" "f64_round (of_int d) = of_int d"
  shows "f64_sqrt x \<le> of_int d"
proof (cases "x \<le> 0")
  case False
  define k where "k = nat (max 0 (55 - ilog2 x div 2))"
  define y where "y = x * 4 ^ k"
  define s where "s = isqrt \<lfloor>y\<rfloor>"
  define b :: int where "b = (if of_int (s * s) = y then 0 else 1)"
  have y: "0 \<le> \<lfloor>y\<rfloor>" "y \<le> of_int (d * 2 ^ k * (d * 2 ^ k))"
  proof -
    show "0 \<le> \<lfloor>y\<rfloor>" using False by (simp add: y_def)
    have "x * 4 ^ k \<le> of_int (d * d) * 4 ^ k" using assms(1) by (rule mult_right_mono) simp
    moreover have "(4 :: rat) ^ k = 2 ^ k * 2 ^ k" by (simp add: power_mult_distrib [symmetric])
    then have "of_int (d * 2 ^ k * (d * 2 ^ k)) = (of_int (d * d) * 4 ^ k :: rat)" by simp
    ultimately show "y \<le> of_int (d * 2 ^ k * (d * 2 ^ k))" by (simp only: y_def)
  qed
  have s: "0 \<le> s" "s * s \<le> \<lfloor>y\<rfloor>" using isqrt_correct [OF y(1)] by (simp_all add: s_def)
  have ss: "of_int (s * s) \<le> y" using s(2) by (simp add: le_floor_iff)
  then have "of_int (s * s) \<le> (of_int (d * 2 ^ k * (d * 2 ^ k)) :: rat)" using y(2) by (rule order_trans)
  then have sq: "s * s \<le> d * 2 ^ k * (d * 2 ^ k)" by (simp only: of_int_le_iff)
  have D: "0 \<le> d * 2 ^ k" using assms(2) by simp
  have sd: "s \<le> d * 2 ^ k"
  proof (rule ccontr)
    assume "\<not> s \<le> d * 2 ^ k"
    then have "d * 2 ^ k * (d * 2 ^ k) < s * s" using D by (intro mult_strict_mono') simp_all
    with sq show False by simp
  qed
  have "2 * s + b \<le> 2 * (d * 2 ^ k)"
  proof (cases "s = d * 2 ^ k")
    case True
    then have "of_int (s * s) = y" using ss y(2) by (intro antisym) simp_all
    then show ?thesis using True by (simp add: b_def)
  qed (use sd in \<open>simp add: b_def\<close>)
  then have "of_int (2 * s + b) \<le> (of_int (2 * (d * 2 ^ k)) :: rat)" by (simp only: of_int_le_iff)
  then have "of_int (2 * s + b) / 2 ^ (k + 1) \<le> (of_int d :: rat)" by (simp add: divide_le_eq mult_ac)
  then have "f64_round (of_int (2 * s + b) / 2 ^ (k + 1)) \<le> of_int d"
    using f64_round_mono assms(3) by fastforce
  moreover have "f64_sqrt x = f64_round (of_int (2 * s + b) / 2 ^ (k + 1))"
    using False by (simp add: f64_sqrt_def Let_def k_def [symmetric] y_def [symmetric] s_def [symmetric] b_def)
  ultimately show ?thesis by simp
qed (use assms(2) in \<open>simp add: f64_sqrt_def\<close>)

section \<open>What a filter needs of rounding\<close>

text \<open>
  A monotone, idempotent rounding that keeps 0 and 1, and the consequences a Kalman update
  draws from it: a gain between 0 and 1, a covariance that stays non-negative and does not
  grow, an estimate that moves towards the measurement.
\<close>

locale rounding =
  fixes rnd :: "rat \<Rightarrow> rat"
  assumes rnd_mono: "x \<le> y \<Longrightarrow> rnd x \<le> rnd y"
    and rnd_idem: "rnd (rnd x) = rnd x"
    and rnd_0: "rnd 0 = 0"
    and rnd_1: "rnd 1 = 1"
    and rnd_double: "0 \<le> x \<Longrightarrow> rnd x \<le> 2 * x"
    and rnd_minus: "rnd (- x) = - rnd x"

context rounding begin

lemma rnd_nonneg: "0 \<le> x \<Longrightarrow> 0 \<le> rnd x"
  using rnd_mono [of 0 x] by (simp add: rnd_0)

lemma rnd_nonpos: "x \<le> 0 \<Longrightarrow> rnd x \<le> 0"
  using rnd_mono [of x 0] by (simp add: rnd_0)

lemma rnd_unit: "0 \<le> x \<Longrightarrow> x \<le> 1 \<Longrightarrow> 0 \<le> rnd x \<and> rnd x \<le> 1"
  using rnd_nonneg [of x] rnd_mono [of x 1] by (simp add: rnd_1)

lemma gain_unit:
  assumes "rnd p = p" "0 \<le> p" "0 \<le> r"
  shows "0 \<le> rnd (p / rnd (p + r)) \<and> rnd (p / rnd (p + r)) \<le> 1"
proof (rule rnd_unit)
  have "p \<le> rnd (p + r)" using rnd_mono [of p "p + r"] assms by simp
  with assms(2) show "0 \<le> p / rnd (p + r)" "p / rnd (p + r) \<le> 1"
    by (auto simp: divide_le_eq_1)
qed

lemma shrink:
  assumes "rnd p = p" "0 \<le> p" "0 \<le> k" "k \<le> 1"
  shows "0 \<le> rnd (p * rnd (1 - k)) \<and> rnd (p * rnd (1 - k)) \<le> p"
proof -
  have "0 \<le> rnd (1 - k) \<and> rnd (1 - k) \<le> 1" using assms by (intro rnd_unit) simp_all
  then have "0 \<le> p * rnd (1 - k)" "p * rnd (1 - k) \<le> p"
    using assms(2) mult_left_le [of "rnd (1 - k)" p] by simp_all
  then show ?thesis using rnd_nonneg rnd_mono [of "p * rnd (1 - k)" p] assms(1) by simp
qed

lemma moves_up:
  assumes "rnd x = x" "rnd z = z" "x \<le> z" "0 \<le> k" "k \<le> 1 / 8"
  shows "x \<le> rnd (x + rnd (k * rnd (z - x)))" "rnd (x + rnd (k * rnd (z - x))) \<le> z"
proof -
  have d: "0 \<le> rnd (z - x)" "rnd (z - x) \<le> 2 * (z - x)"
    using assms(3) by (simp_all add: rnd_nonneg rnd_double del: right_diff_distrib_numeral)
  then have kd: "0 \<le> k * rnd (z - x)" using assms(4) by simp
  have "k * rnd (z - x) \<le> 1 / 8 * (2 * (z - x))" using d assms(4,5) by (intro mult_mono) simp_all
  then have "2 * (k * rnd (z - x)) \<le> z - x" using assms(3) by simp
  then have hi: "rnd (k * rnd (z - x)) \<le> z - x" using rnd_double [OF kd] by (rule order_trans [rotated])
  have lo: "0 \<le> rnd (k * rnd (z - x))" using kd by (rule rnd_nonneg)
  show "x \<le> rnd (x + rnd (k * rnd (z - x)))"
    using rnd_mono [of x "x + rnd (k * rnd (z - x))"] lo assms(1) by simp
  show "rnd (x + rnd (k * rnd (z - x))) \<le> z"
    using rnd_mono [of "x + rnd (k * rnd (z - x))" z] hi assms(2) by simp
qed

lemma moves_down:
  assumes "rnd x = x" "rnd z = z" "z \<le> x" "0 \<le> k" "k \<le> 1 / 8"
  shows "z \<le> rnd (x + rnd (k * rnd (z - x)))" "rnd (x + rnd (k * rnd (z - x))) \<le> x"
proof -
  have "rnd (- x + rnd (k * rnd (- z - - x))) = - rnd (x + rnd (k * rnd (z - x)))"
    using rnd_minus [of "z - x"] rnd_minus [of "k * rnd (z - x)"] rnd_minus [of "x + rnd (k * rnd (z - x))"]
    by simp
  moreover have "rnd (- x) = - x" "rnd (- z) = - z" using assms(1,2) by (simp_all add: rnd_minus)
  ultimately show "z \<le> rnd (x + rnd (k * rnd (z - x)))" "rnd (x + rnd (k * rnd (z - x))) \<le> x"
    using moves_up [of "- x" "- z" k] assms(3-5) by auto
qed

end

lemma f64_round_1: "f64_round 1 = 1"
  using f64_round_int [of 1] by simp

interpretation f64: rounding f64_round
  by unfold_locales (rule f64_round_mono f64_round_idem f64_round_0 f64_round_1 f64_round_le_double f64_round_minus; assumption?)+

end
