(* ===== verification/Control.thy ===== *)
theory Control
  imports F64
begin

text \<open>
  The proportional controller of the debugfs tool (src/bin/tsf\_sync\_debugfs/control.rs) with
  its optional one-dimensional Kalman filter.  Machine arithmetic follows the build profile;
  the filter computes in binary64 (theory \<open>F64\<close>).  \<open>step_spec\<close> is the controller over the
  integers, and the lemmas show that the code computes it wherever no product overflows.
\<close>

section \<open>The Kalman filter\<close>

record kalman_filter =
  kf_x :: f64
  kf_p :: f64
  kf_q :: f64
  kf_r :: f64

definition kf_new :: kalman_filter where
  "kf_new = \<lparr>kf_x = 0, kf_p = 1, kf_q = 50, kf_r = 4000\<rparr>"

definition kf_update :: "kalman_filter \<Rightarrow> f64 \<Rightarrow> f64 \<times> kalman_filter" where
  "kf_update kf z =
     (let p = fadd (kf_p kf) (kf_q kf);
          k = fdiv p (fadd p (kf_r kf));
          x = fadd (kf_x kf) (fmul k (fsub z (kf_x kf)));
          p = fmul p (fsub 1 k)
      in (x, kf\<lparr>kf_x := x, kf_p := p\<rparr>))"

section \<open>The controller\<close>

record controller =
  kp_ppm :: i64
  max_step_us :: i64
  kalman :: "kalman_filter option"

definition controller_new :: "i64 \<Rightarrow> i64 \<Rightarrow> bool \<Rightarrow> controller" where
  "controller_new kp mx use_kalman =
     \<lparr>kp_ppm = kp, max_step_us = mx, kalman = (if use_kalman then Some kf_new else None)\<rparr>"

text \<open>\<open>Ord::clamp\<close> of the standard library: it panics when the bounds are the wrong way round.\<close>

definition clamp_i64 :: "i64 \<Rightarrow> i64 \<Rightarrow> i64 \<Rightarrow> i64 option" where
  "clamp_i64 x lo hi =
     (if lo \<le>s hi then Some (if x <s lo then lo else if hi <s x then hi else x) else None)"

definition clamp_step :: "profile \<Rightarrow> i64 \<Rightarrow> i64 \<Rightarrow> i64 \<Rightarrow> i64 option" where
  "clamp_step pr step mx err = do {
     lo \<leftarrow> neg_i64 pr mx;
     clamped \<leftarrow> clamp_i64 step lo mx;
     Some (if clamped = 0 \<and> err \<noteq> 0 then (if 0 <s err then 1 else - 1) else clamped)
   }"

definition filter_error :: "controller \<Rightarrow> i64 \<Rightarrow> i64 \<times> controller" where
  "filter_error c raw_err =
     (case kalman c of
        Some kf \<Rightarrow>
          (case kf_update kf (f64_of_i64 raw_err) of
             (x, kf) \<Rightarrow> (f64_to_i64 x, c\<lparr>kalman := Some kf\<rparr>))
      | None \<Rightarrow> (raw_err, c))"

definition controller_apply ::
    "profile \<Rightarrow> controller \<Rightarrow> u64 \<Rightarrow> u64 \<Rightarrow> ((i64 \<times> i64) \<times> controller) option" where
  "controller_apply pr c master_tsf follower_tsf = do {
     raw_err \<leftarrow> sub_i64 pr master_tsf follower_tsf;
     let (err, c) = filter_error c raw_err;
     prod \<leftarrow> mul_i64 pr err (kp_ppm c);
     quot \<leftarrow> div_i64 prod 1000000;
     step \<leftarrow> clamp_step pr quot (max_step_us c) err;
     Some ((step, raw_err), c)
   }"

section \<open>The step over the integers\<close>

definition step_spec :: "int \<Rightarrow> int \<Rightarrow> int \<Rightarrow> int" where
  "step_spec kp mx err =
     (let s = max (- mx) (min mx ((err * kp) sdiv 1000000))
      in if s = 0 then sgn err else s)"

lemma step_spec_bound: "0 \<le> mx \<Longrightarrow> \<bar>step_spec kp mx err\<bar> \<le> max 1 mx"
  by (auto simp: step_spec_def Let_def sgn_if max_def min_def)

lemma step_spec_0 [simp]: "0 \<le> mx \<Longrightarrow> step_spec kp mx 0 = 0"
  by (simp add: step_spec_def Let_def)

lemma sdiv_gain:
  assumes "0 < kp" "kp \<le> 1000000" "0 < (e :: int)"
  shows "0 \<le> (e * kp) sdiv 1000000" "(e * kp) sdiv 1000000 \<le> e"
proof -
  have "0 < e * kp" using assms by simp
  then have eq: "(e * kp) sdiv 1000000 = e * kp div 1000000" by (simp add: sdiv_pos)
  show "0 \<le> (e * kp) sdiv 1000000" unfolding eq using \<open>0 < e * kp\<close> by (simp add: pos_imp_zdiv_nonneg_iff)
  have "e * kp \<le> e * 1000000" using assms by (intro mult_left_mono) simp_all
  then show "(e * kp) sdiv 1000000 \<le> e" unfolding eq using zdiv_mono1 [of "e * kp" "e * 1000000" 1000000] by simp
qed

lemma step_spec_minus: "0 \<le> mx \<Longrightarrow> step_spec kp mx (- e) = - step_spec kp mx e"
proof -
  assume mx: "0 \<le> mx"
  have "(- e * kp) sdiv 1000000 = - ((e * kp) sdiv 1000000)" by (simp add: sdiv_minus)
  moreover have "max (- mx) (min mx (- s)) = - max (- mx) (min mx s)" for s using mx by linarith
  ultimately show ?thesis by (simp add: step_spec_def Let_def sgn_minus)
qed

text \<open>Between 0 and the error, never 0 for a non-zero error: the correction cannot overshoot.\<close>

lemma step_spec_pos:
  assumes "0 < kp" "kp \<le> 1000000" "0 \<le> mx" "0 < e"
  shows "1 \<le> step_spec kp mx e" "step_spec kp mx e \<le> e"
proof -
  let ?s = "(e * kp) sdiv 1000000"
  have s: "0 \<le> ?s" "?s \<le> e" using sdiv_gain [OF assms(1,2,4)] by auto
  then have "max (- mx) (min mx ?s) = min mx ?s" using assms(3) by linarith
  then have "step_spec kp mx e = (if min mx ?s = 0 then 1 else min mx ?s)"
    using assms(4) by (simp add: step_spec_def Let_def)
  then show "1 \<le> step_spec kp mx e" "step_spec kp mx e \<le> e"
    using s assms(3,4) by (auto simp: min_def)
qed

lemma step_spec_between:
  assumes "0 < kp" "kp \<le> 1000000" "0 \<le> mx" "e \<noteq> 0"
  shows "\<bar>e - step_spec kp mx e\<bar> < \<bar>e\<bar>" "sgn (step_spec kp mx e) = sgn e"
    "\<bar>e\<bar> = \<bar>step_spec kp mx e\<bar> + \<bar>e - step_spec kp mx e\<bar>"
proof -
  consider "0 < e" | "0 < - e" using assms(4) by linarith
  then have *: "\<bar>e - step_spec kp mx e\<bar> < \<bar>e\<bar> \<and> sgn (step_spec kp mx e) = sgn e \<and>
    \<bar>e\<bar> = \<bar>step_spec kp mx e\<bar> + \<bar>e - step_spec kp mx e\<bar>"
  proof cases
    case 1
    with step_spec_pos [OF assms(1-3) 1] show ?thesis by (simp add: sgn_if)
  next
    case 2
    from step_spec_pos [OF assms(1-3) 2] have "1 \<le> - step_spec kp mx e" "- step_spec kp mx e \<le> - e"
      using assms(3) by (simp_all only: step_spec_minus)
    with 2 show ?thesis by (simp add: sgn_if)
  qed
  show "\<bar>e - step_spec kp mx e\<bar> < \<bar>e\<bar>" by (rule conjunct1 [OF *])
  show "sgn (step_spec kp mx e) = sgn e" by (rule conjunct1 [OF conjunct2 [OF *]])
  show "\<bar>e\<bar> = \<bar>step_spec kp mx e\<bar> + \<bar>e - step_spec kp mx e\<bar>"
    by (rule conjunct2 [OF conjunct2 [OF *]])
qed

text \<open>Unit gain within the limit corrects the whole error at once; beyond it by the limit.\<close>

lemma step_spec_unit_gain:
  assumes "0 < mx"
  shows "step_spec 1000000 mx e = max (- mx) (min mx e)"
proof -
  have "(e * 1000000) sdiv 1000000 = e" by (simp add: sdiv_pos abs_mult sgn_mult sgn_mult_abs)
  then show ?thesis using assms by (auto simp: step_spec_def Let_def max_def min_def)
qed

section \<open>The code computes the step\<close>

lemma clamp_i64_sint:
  assumes "sint lo \<le> sint hi"
  shows "\<exists>c. clamp_i64 x lo hi = Some c \<and> sint c = max (sint lo) (min (sint hi) (sint x))"
  using assms by (auto simp: clamp_i64_def word_sle_eq word_sless_alt)

lemma clamp_step_sint:
  assumes "0 \<le> sint mx"
  shows "\<exists>s. clamp_step pr step mx err = Some s \<and>
     sint s = (let c = max (- sint mx) (min (sint mx) (sint step)) in if c = 0 then sgn (sint err) else c)"
proof -
  have "mx \<noteq> i64_min" using assms by auto
  then have neg: "neg_i64 pr mx = Some (- mx)" "sint (- mx) = - sint mx"
    by (simp_all add: neg_i64_def sint_neg_exact)
  obtain c where c: "clamp_i64 step (- mx) mx = Some c" "sint c = max (- sint mx) (min (sint mx) (sint step))"
    using clamp_i64_sint [of "- mx" mx step] assms neg(2) by auto
  have zero: "sint x = 0 \<longleftrightarrow> x = 0" for x :: i64 using sint_eq_iff [of x 0] by simp
  show ?thesis
    using c zero [of c] zero [of err]
    by (auto simp: clamp_step_def neg Let_def word_sless_alt sgn_if)
qed

lemma div_million:
  "div_i64 x 1000000 = Some (word_of_int (sint x sdiv 1000000))"
  "sint (word_of_int (sint x sdiv 1000000) :: i64) = sint x sdiv 1000000"
proof -
  show "div_i64 x 1000000 = Some (word_of_int (sint x sdiv 1000000))" by (simp add: div_i64_def)
  have "\<bar>sint x sdiv 1000000\<bar> \<le> \<bar>sint x\<bar> div 1000000"
    by (simp add: sdiv_pos abs_mult sgn_if pos_imp_zdiv_nonneg_iff)
  also have "\<dots> \<le> 9223372036854775808 div 1000000"
    using sint_bounds [of x] by (intro zdiv_mono1) linarith+
  finally show "sint (word_of_int (sint x sdiv 1000000) :: i64) = sint x sdiv 1000000"
    by (intro sint_word_of_int_i64, unfold in_i64_def) linarith
qed

lemma apply_shape:
  assumes "sub_i64 pr m f = Some raw" "filter_error c raw = (err, c')" "mul_i64 pr err (kp_ppm c') = Some pd"
    "0 \<le> sint (max_step_us c')"
  shows "\<exists>s. controller_apply pr c m f = Some ((s, raw), c') \<and>
     sint s = (let t = max (- sint (max_step_us c')) (min (sint (max_step_us c')) (sint pd sdiv 1000000))
               in if t = 0 then sgn (sint err) else t)"
  using assms clamp_step_sint [OF assms(4), of pr "word_of_int (sint pd sdiv 1000000)" err]
  by (auto simp: controller_apply_def div_million)

lemma filter_error_params:
  "filter_error c raw = (err, c') \<Longrightarrow> kp_ppm c' = kp_ppm c \<and> max_step_us c' = max_step_us c"
  by (auto simp: filter_error_def split: option.splits prod.splits)

lemma apply_step_spec:
  assumes "in_i64 (sint m - sint f)" "filter_error c (m - f) = (err, c')"
    "in_i64 (sint err * sint (kp_ppm c))" "0 \<le> sint (max_step_us c)"
  shows "\<exists>s. controller_apply pr c m f = Some ((s, m - f), c') \<and> sint (m - f) = sint m - sint f \<and>
     sint s = step_spec (sint (kp_ppm c)) (sint (max_step_us c)) (sint err)"
proof -
  have par: "kp_ppm c' = kp_ppm c" "max_step_us c' = max_step_us c"
    using filter_error_params [OF assms(2)] by auto
  have "sub_i64 pr m f = Some (m - f)" "mul_i64 pr err (kp_ppm c') = Some (err * kp_ppm c')"
    using assms(1,3) par by (simp_all add: sub_i64_def mul_i64_def)
  from apply_shape [OF this(1) assms(2) this(2)] show ?thesis
    using assms par by (simp add: step_spec_def sint_sub_exact sint_mul_exact)
qed

section \<open>The filter over a run of measurements\<close>

fun kf_run :: "kalman_filter \<Rightarrow> f64 list \<Rightarrow> kalman_filter" where
  "kf_run kf [] = kf"
| "kf_run kf (z # zs) = kf_run (snd (kf_update kf z)) zs"

text \<open>The covariance settles below the fixed point of its recursion, which is 422.9.\<close>

definition kf_wf :: "kalman_filter \<Rightarrow> bool" where
  "kf_wf kf \<longleftrightarrow> kf_q kf = 50 \<and> kf_r kf = 4000 \<and> f64_round (kf_x kf) = kf_x kf \<and>
     f64_round (kf_p kf) = kf_p kf \<and> 0 \<le> kf_p kf \<and> kf_p kf \<le> 423"

lemma kf_wf_new: "kf_wf kf_new"
  by (simp add: kf_wf_def kf_new_def f64_round_1)

lemma f64_round_numeral:
  "f64_round 423 = 423" "f64_round 473 = 473" "f64_round 4000 = 4000" "f64_round 4473 = 4473"
  using f64_round_int [of 423] f64_round_int [of 473] f64_round_int [of 4000] f64_round_int [of 4473] by simp_all

lemma f64_round_eighth: "f64_round (1 / 8) = 1 / 8"
  by (rule f64_round_exact, unfold is_f64_def, intro exI [of _ 1] exI [of _ "- 3"]) (simp add: pow2_def)

lemma cov_bound:
  assumes "0 \<le> p" "p \<le> 473"
  shows "p * (1 - p / 4473 + 1 / 1000000) \<le> (423 :: rat)"
proof -
  have "0 \<le> (473 - p) * (1 + 1 / 1000000 - (473 + p) / 4473)"
    using assms by (intro mult_nonneg_nonneg) simp_all
  then show ?thesis by (simp add: field_simps)
qed

lemma gain_bounds:
  assumes "0 \<le> p" "p \<le> 473" "f64_round p = p"
  shows "0 \<le> fdiv p (fadd p 4000)" "fdiv p (fadd p 4000) \<le> 1 / 8"
    "fmul p (fsub 1 (fdiv p (fadd p 4000))) \<le> 423"
proof -
  define s where "s = fadd p 4000"
  define k where "k = fdiv p s"
  have s: "4000 \<le> s" "s \<le> 4473"
    using f64_round_mono [of 4000 "p + 4000"] f64_round_mono [of "p + 4000" 4473] assms
    by (simp_all add: s_def fadd_def f64_round_numeral)
  have le: "0 \<le> p / s" "p / s \<le> 1 / 8" using s assms by (simp_all add: field_simps)
  have k: "0 \<le> k" "k \<le> 1 / 8"
    using f64_round_nonneg [OF le(1)] f64_round_mono [OF le(2)] by (simp_all add: k_def fdiv_def f64_round_eighth)
  then show "0 \<le> fdiv p (fadd p 4000)" "fdiv p (fadd p 4000) \<le> 1 / 8" by (simp_all add: k_def s_def)
  have "p / s < 1" using le(2) by (rule order.strict_trans1) simp
  then have "\<bar>p / s\<bar> < pow2 0" using le(1) by (simp only: abs_of_nonneg) (simp add: pow2_def)
  then have "\<bar>k - p / s\<bar> \<le> pow2 (0 - 54)" unfolding k_def fdiv_def by (rule f64_round_err) simp
  moreover have "\<bar>fsub 1 k - (1 - k)\<bar> \<le> pow2 (1 - 54)"
    using k by (unfold fsub_def, intro f64_round_err) (simp_all add: pow2_def)
  moreover have "pow2 (0 - 54) + pow2 (1 - 54) \<le> 1 / 1000000" by (simp add: pow2_def)
  moreover have "p / 4473 \<le> p / s" using s assms by (intro divide_left_mono) simp_all
  ultimately have "fsub 1 k \<le> 1 - p / 4473 + 1 / 1000000" by linarith
  then have "p * fsub 1 k \<le> p * (1 - p / 4473 + 1 / 1000000)" using assms(1) by (rule mult_left_mono)
  then have "p * fsub 1 k \<le> 423" using cov_bound [OF assms(1,2)] by linarith
  then show "fmul p (fsub 1 (fdiv p (fadd p 4000))) \<le> 423"
    using f64_round_mono [of "p * fsub 1 k" 423] by (simp add: fmul_def k_def s_def f64_round_numeral)
qed

lemma kf_update_step:
  assumes "kf_wf kf" "f64_round z = z" "kf_update kf z = (x, kf')"
  shows "kf_wf kf'" "kf_x kf' = x" "min (kf_x kf) z \<le> x" "x \<le> max (kf_x kf) z"
proof -
  let ?p = "fadd (kf_p kf) 50"
  let ?k = "fdiv ?p (fadd ?p 4000)"
  have wf: "kf_q kf = 50" "kf_r kf = 4000" "f64_round (kf_x kf) = kf_x kf" "0 \<le> kf_p kf" "kf_p kf \<le> 423"
    using assms(1) by (simp_all add: kf_wf_def)
  have x: "x = f64_round (kf_x kf + f64_round (?k * f64_round (z - kf_x kf)))"
    and kf': "kf' = kf\<lparr>kf_x := x, kf_p := fmul ?p (fsub 1 ?k)\<rparr>"
    using assms(3) by (auto simp: kf_update_def Let_def wf fadd_def [of "kf_x kf"] fmul_def [of ?k] fsub_def [of z])
  have p: "0 \<le> ?p" "?p \<le> 473" "f64_round ?p = ?p"
    using wf f64_round_mono [of "kf_p kf + 50" 473] f64_round_nonneg [of "kf_p kf + 50"]
    by (simp_all add: fadd_def f64_round_numeral f64_round_idem)
  note g = gain_bounds [OF p]
  have "0 \<le> fmul ?p (fsub 1 ?k)"
    using f64.shrink [OF p(3,1), of ?k] g(1,2) by (simp add: fmul_def fsub_def)
  then show "kf_wf kf'" using g(3) wf by (simp add: kf_wf_def kf' x fmul_def f64_round_idem)
  show "kf_x kf' = x" by (simp add: kf')
  show "min (kf_x kf) z \<le> x" "x \<le> max (kf_x kf) z"
    using f64.moves_up [OF wf(3) assms(2) _ g(1,2)] f64.moves_down [OF wf(3) assms(2) _ g(1,2)]
    by (cases "kf_x kf \<le> z"; simp add: x min_def max_def)+
qed

lemma kf_run_wf: "kf_wf kf \<Longrightarrow> \<forall>z \<in> set zs. f64_round z = z \<Longrightarrow> kf_wf (kf_run kf zs)"
proof (induction zs arbitrary: kf)
  case (Cons z zs)
  have "kf_wf (snd (kf_update kf z))"
    using kf_update_step(1) [of kf z "fst (kf_update kf z)" "snd (kf_update kf z)"] Cons.prems by simp
  then show ?case using Cons by simp
qed simp

lemma f64_of_i64_rounded [simp]: "f64_round (f64_of_i64 w) = f64_of_i64 w"
  by (simp add: f64_of_i64_def f64_round_idem)

lemma kf_run_bounded:
  assumes "kf_wf kf" "\<bar>kf_x kf\<bar> \<le> b" "\<forall>z \<in> set zs. f64_round z = z \<and> \<bar>z\<bar> \<le> b"
  shows "\<bar>kf_x (kf_run kf zs)\<bar> \<le> b"
  using assms
proof (induction zs arbitrary: kf)
  case (Cons z zs)
  let ?kf = "snd (kf_update kf z)"
  have z: "f64_round z = z" "\<bar>z\<bar> \<le> b" using Cons.prems by auto
  note st = kf_update_step [OF Cons.prems(1) z(1) prod.collapse [symmetric]]
  have "\<bar>kf_x ?kf\<bar> \<le> b" using st(2-4) z(2) Cons.prems(2) by (auto simp: min_def max_def split: if_splits)
  then show ?case using st(1) Cons.prems(3) Cons.IH [of ?kf] by simp
qed simp

section \<open>Properties\<close>

text \<open>C28: without the Kalman filter, with a step limit that is not negative and while neither the difference of the TSFs nor its product with kp_ppm leaves the i64 range, apply returns in both build profiles the signed error and the step of the integer controller: error * kp_ppm / 10^6 truncated, limited to +-max_step_us, and at least one microsecond towards the master when the error is not zero.\<close>

theorem controller_step_correct:
  assumes "kalman c = None" "0 \<le> sint (max_step_us c)"
    "in_i64 (sint m - sint f)" "in_i64 ((sint m - sint f) * sint (kp_ppm c))"
  shows "\<exists>s e. controller_apply pr c m f = Some ((s, e), c) \<and> sint e = sint m - sint f \<and>
     sint s = step_spec (sint (kp_ppm c)) (sint (max_step_us c)) (sint m - sint f)"
  using apply_step_spec [of m f c "m - f" c pr] assms
  by (auto simp: filter_error_def sint_sub_exact)

theorem controller_step_correct_witness:
  "\<exists>s e. controller_apply Debug (controller_new 500000 200 False) 1000000 1000301 =
       Some ((s, e), controller_new 500000 200 False) \<and>
     sint e = sint (1000000 :: u64) - sint (1000301 :: u64) \<and>
     sint s = step_spec (sint (kp_ppm (controller_new 500000 200 False)))
       (sint (max_step_us (controller_new 500000 200 False))) (sint (1000000 :: u64) - sint (1000301 :: u64))"
  by (rule controller_step_correct) (simp_all add: controller_new_def in_i64_def)

text \<open>Whatever the TSFs, the gain, the filter state and the build profile, a step that apply returns is at most max_step_us in size (one microsecond when the limit is 0), and it is zero only when the filtered error is zero.\<close>

theorem controller_step_bounded:
  assumes "0 \<le> sint (max_step_us c)" "controller_apply pr c m f = Some ((s, e), c')"
  shows "\<bar>sint s\<bar> \<le> max 1 (sint (max_step_us c)) \<and> e = m - f \<and>
     (s = 0 \<longleftrightarrow> fst (filter_error c e) = 0) \<and> c' = snd (filter_error c e)"
proof -
  obtain pd err where *: "sub_i64 pr m f = Some e" "filter_error c e = (err, c')"
      "mul_i64 pr err (kp_ppm c') = Some pd"
    using assms(2) by (auto simp: controller_apply_def split: prod.splits Option.bind_splits)
  have mx: "max_step_us c' = max_step_us c" using filter_error_params [OF *(2)] by simp
  let ?t = "max (- sint (max_step_us c)) (min (sint (max_step_us c)) (sint pd sdiv 1000000))"
  have s: "sint s = (if ?t = 0 then sgn (sint err) else ?t)"
    using apply_shape [OF *] assms mx by (simp add: Let_def)
  have "\<bar>?t\<bar> \<le> sint (max_step_us c)" using assms(1) by linarith
  then have "\<bar>sint s\<bar> \<le> max 1 (sint (max_step_us c))"
    unfolding s by (cases "?t = 0") (auto simp: sgn_if)
  moreover have "s = 0 \<longleftrightarrow> err = 0"
  proof (cases "err = 0")
    case True
    then have "pd = 0" using *(3) by (auto simp: mul_i64_def split: if_splits)
    then show ?thesis using s True assms(1) sint_eq_iff [of s 0] by simp
  next
    case False
    then show ?thesis
      using s sint_eq_iff [of s 0] sint_eq_iff [of err 0] by (auto simp: sgn_if split: if_splits)
  qed
  moreover have "e = m - f" using *(1) by (simp add: sub_i64_def split: if_splits)
  ultimately show ?thesis using *(2) by simp
qed

theorem controller_step_bounded_witness:
  "\<bar>sint (200 :: i64)\<bar> \<le> max 1 (sint (max_step_us (controller_new 1000000 200 False))) \<and>
   (500 :: i64) = 1000500 - 1000000 \<and>
   ((200 :: i64) = 0 \<longleftrightarrow> fst (filter_error (controller_new 1000000 200 False) 500) = 0) \<and>
   controller_new 1000000 200 False = snd (filter_error (controller_new 1000000 200 False) 500)"
  by (rule controller_step_bounded [where pr = Debug])
    (simp_all add: controller_new_def controller_apply_def filter_error_def clamp_step_def clamp_i64_def
      rust_arith in_i64_def word_sle_eq word_sless_alt signed_divide_int_def)

text \<open>C29: the Kalman filter is stable: after any sequence of measured errors of magnitude up to b, at most 2^53, its covariance lies between 0 and 423, its estimate stays within b, and the next estimate lies between the current one and the new measurement, with every operation rounded to binary64.\<close>

theorem kalman_filter_stable:
  assumes "\<forall>e \<in> set errs. \<bar>sint e\<bar> \<le> b" "0 \<le> b" "b \<le> 2 ^ 53"
    "kf = kf_run kf_new (map f64_of_i64 errs)"
  shows "0 \<le> kf_p kf \<and> kf_p kf \<le> 423 \<and> \<bar>kf_x kf\<bar> \<le> of_int b \<and>
     min (kf_x kf) (f64_of_i64 e) \<le> fst (kf_update kf (f64_of_i64 e)) \<and>
     fst (kf_update kf (f64_of_i64 e)) \<le> max (kf_x kf) (f64_of_i64 e)"
proof -
  have wf: "kf_wf kf" unfolding assms(4) by (rule kf_run_wf [OF kf_wf_new]) simp
  have "\<bar>f64_of_i64 w\<bar> \<le> of_int b" if "w \<in> set errs" for w
  proof -
    have w: "\<bar>sint w\<bar> \<le> b" using assms(1) that by blast
    then have "f64_of_i64 w = of_int (sint w)"
      unfolding f64_of_i64_def using assms(3) by (intro f64_round_int) linarith
    with w show ?thesis by (simp only: of_int_abs [symmetric] of_int_le_iff)
  qed
  then have "\<bar>kf_x kf\<bar> \<le> of_int b"
    unfolding assms(4) using assms(2) by (intro kf_run_bounded [OF kf_wf_new]) (simp_all add: kf_new_def)
  with wf kf_update_step [OF wf f64_of_i64_rounded prod.collapse [symmetric], of e]
  show ?thesis by (simp add: kf_wf_def)
qed

text \<open>After three errors, an estimate and a covariance that are no longer those of the start.\<close>

theorem kalman_filter_stable_witness:
  "let kf = kf_run kf_new (map f64_of_i64 [500, - 300, 20])
   in 0 \<le> kf_p kf \<and> kf_p kf \<le> 423 \<and> \<bar>kf_x kf\<bar> \<le> 500 \<and>
     min (kf_x kf) (f64_of_i64 100) \<le> fst (kf_update kf (f64_of_i64 100)) \<and>
     fst (kf_update kf (f64_of_i64 100)) \<le> max (kf_x kf) (f64_of_i64 100)"
  unfolding Let_def using kalman_filter_stable [of "[500, - 300, 20]" 500, OF _ _ _ refl] by simp

text \<open>In a release build an error whose product with kp_ppm exceeds the i64 range is corrected in the wrong direction: with the master ahead, apply steps the follower back by max_step_us (with kp_ppm = 10^6 from an error of about 9.2 * 10^12 microseconds, 107 days); a debug build panics instead.\<close>

theorem gain_overflow_wrong_direction:
  assumes "kalman c = None" "0 < sint (max_step_us c)" "in_i64 (sint m - sint f)"
    "2 ^ 63 \<le> (sint m - sint f) * sint (kp_ppm c)"
    "(sint m - sint f) * sint (kp_ppm c) \<le> 2 ^ 64 - 1000000 * sint (max_step_us c)"
  shows "controller_apply Debug c m f = None \<and>
     (\<exists>s. controller_apply Release c m f = Some ((s, m - f), c) \<and> sint s = - sint (max_step_us c))"
proof -
  let ?P = "(sint m - sint f) * sint (kp_ppm c)" and ?mx = "sint (max_step_us c)"
  have err: "sint (m - f) = sint m - sint f" using assms(3) by (rule sint_sub_exact)
  have "\<not> in_i64 ?P" using assms(4) by (simp add: in_i64_def)
  then have debug: "controller_apply Debug c m f = None"
    using assms(1) err by (simp add: controller_apply_def filter_error_def rust_arith assms(3))
  let ?pd = "(m - f) * kp_ppm c"
  have "sint ?pd = signed_take_bit 63 (sint (m - f) * sint (kp_ppm c))" by (simp add: sint_word_mult)
  also have "\<dots> = signed_take_bit 63 (?P - 2 ^ 64)"
    unfolding err signed_take_bit_eq_iff_take_bit_eq by (simp add: take_bit_eq_mod)
  also have "\<dots> = ?P - 2 ^ 64"
    using assms(2,4,5) sint_bounds [of "max_step_us c"] by (intro signed_take_bit_in_i64) (simp add: in_i64_def)
  finally have pd: "sint ?pd = ?P - 2 ^ 64" .
  have "sint ?pd sdiv 1000000 \<le> - ?mx"
  proof -
    have "1000000 * ?mx \<le> - sint ?pd" using pd assms(5) by simp
    then have "?mx \<le> (- sint ?pd) div 1000000" using zdiv_mono1 [of "1000000 * ?mx" "- sint ?pd" 1000000] by simp
    moreover have "sint ?pd sdiv 1000000 = - ((- sint ?pd) div 1000000)"
      using \<open>1000000 * ?mx \<le> - sint ?pd\<close> assms(2) by (simp add: sdiv_pos)
    ultimately show ?thesis by simp
  qed
  then have t: "max (- ?mx) (min ?mx (sint ?pd sdiv 1000000)) = - ?mx" using assms(2) by linarith
  have "\<exists>s. controller_apply Release c m f = Some ((s, m - f), c) \<and> sint s = - ?mx"
    using apply_shape [of Release m f "m - f" c "m - f" c ?pd] assms(1,2) t
    by (simp add: sub_i64_def mul_i64_def filter_error_def)
  with debug show ?thesis ..
qed

theorem gain_overflow_wrong_direction_witness:
  "controller_apply Debug (controller_new 1000000 200 False) 9223372036855 0 = None \<and>
     (\<exists>s. controller_apply Release (controller_new 1000000 200 False) 9223372036855 0 =
         Some ((s, 9223372036855 - 0), controller_new 1000000 200 False) \<and>
       sint s = - sint (max_step_us (controller_new 1000000 200 False)))"
  using gain_overflow_wrong_direction [of "controller_new 1000000 200 False" 9223372036855 0]
  by (simp add: controller_new_def in_i64_def)

text \<open>A negative --max-step-us makes every correction panic in both profiles, because clamp is called with its bounds the wrong way round, except i64::MIN in a release build, where every step becomes i64::MIN.\<close>

theorem clamp_step_negative_limit:
  assumes "sint mx < 0"
  shows "clamp_step pr step mx err =
    (if mx = i64_min \<and> pr = Release then Some i64_min else None)"
proof (cases "mx = i64_min")
  case True
  have "clamp_i64 step i64_min i64_min = Some i64_min"
    using sint_bounds [of step] sint_eq_iff [of step i64_min]
    by (auto simp: clamp_i64_def word_sle_eq word_sless_alt)
  moreover have m: "- i64_min = i64_min" by simp
  ultimately show ?thesis unfolding True by (cases pr) (simp_all add: clamp_step_def neg_i64_def m)
next
  case False
  then have "clamp_i64 step (- mx) mx = None"
    using assms sint_neg_exact [OF False] by (simp add: clamp_i64_def word_sle_eq)
  with False show ?thesis by (simp add: clamp_step_def neg_i64_def)
qed

theorem clamp_step_negative_limit_witness:
  "clamp_step Release 5 (- 1) 5 = (if - 1 = i64_min \<and> Release = Release then Some i64_min else None)"
  by (rule clamp_step_negative_limit) simp

end
