(* ===== verification/Stats.thy ===== *)
theory Stats
  imports F64
begin

text \<open>
  The online error statistics of the debugfs tool (src/bin/tsf\_sync\_debugfs/stats.rs):
  Welford's recurrences in binary64 and the two maxima in i64.  The recurrences are written
  over a rounding function, so that the lemmas can compare the code's binary64 instance with
  exact arithmetic.
\<close>

section \<open>The accumulator\<close>

record welford_stats =
  ws_n :: u64
  ws_mean :: f64
  ws_m2 :: f64
  ws_max_abs_err :: i64
  ws_max_abs_step :: i64

definition stats_new :: welford_stats where
  "stats_new = \<lparr>ws_n = 0, ws_mean = 0, ws_m2 = 0, ws_max_abs_err = 0, ws_max_abs_step = 0\<rparr>"

definition unsigned_abs :: "i64 \<Rightarrow> u64" where
  "unsigned_abs a = (if a <s 0 then - a else a)"

text \<open>One step of the recurrences on the mean and the sum of squares, for the count \<open>n\<close>.\<close>

definition welford_step :: "(rat \<Rightarrow> rat) \<Rightarrow> rat \<Rightarrow> rat \<times> rat \<Rightarrow> rat \<Rightarrow> rat \<times> rat" where
  "welford_step rnd n mm x =
     (case mm of (mean, m2) \<Rightarrow>
        let delta = rnd (x - mean);
            mean' = rnd (mean + rnd (delta / n));
            delta2 = rnd (x - mean')
        in (mean', rnd (m2 + rnd (delta * delta2))))"

definition raise_max :: "i64 \<Rightarrow> i64 \<Rightarrow> i64" where
  "raise_max v m = (if m <s v then v else m)"

definition stats_update :: "profile \<Rightarrow> welford_stats \<Rightarrow> i64 \<Rightarrow> i64 \<Rightarrow> welford_stats option" where
  "stats_update pr st err step = do {
     n \<leftarrow> add_u64 pr (ws_n st) 1;
     let (mean, m2) = welford_step f64_round (f64_of_u64 n) (ws_mean st, ws_m2 st) (f64_of_i64 err);
     Some (st\<lparr>ws_n := n, ws_mean := mean, ws_m2 := m2,
              ws_max_abs_err := raise_max (unsigned_abs err) (ws_max_abs_err st),
              ws_max_abs_step := raise_max (unsigned_abs step) (ws_max_abs_step st)\<rparr>)
   }"

definition rms :: "welford_stats \<Rightarrow> f64" where
  "rms st = (if ws_n st = 0 then 0 else f64_sqrt (fdiv (ws_m2 st) (f64_of_u64 (ws_n st))))"

text \<open>
  The line printed is kept as the label with the accumulator and the RMS it shows; the
  decimal formatting of the floats is the standard library's.
\<close>

definition print_and_reset ::
    "welford_stats \<Rightarrow> string \<Rightarrow> f64 \<times> welford_stats \<times> (string \<times> welford_stats \<times> f64) option" where
  "print_and_reset st label =
     (let r = rms st
      in (r, stats_new, if 0 < ws_n st then Some (label, st, r) else None))"

text \<open>The accumulator after a list of observations (error, step).\<close>

fun stats_run :: "profile \<Rightarrow> welford_stats \<Rightarrow> (i64 \<times> i64) list \<Rightarrow> welford_stats option" where
  "stats_run pr st [] = Some st"
| "stats_run pr st ((e, s) # obs) = do { st' \<leftarrow> stats_update pr st e s; stats_run pr st' obs }"

section \<open>Maxima\<close>

lemma unsigned_abs_sint: "a \<noteq> i64_min \<Longrightarrow> sint (unsigned_abs a) = \<bar>sint a\<bar>"
  by (simp add: unsigned_abs_def word_sless_alt sint_neg_exact)

lemma sint_raise_max: "sint (raise_max v m) = max (sint v) (sint m)"
  by (simp add: raise_max_def word_sless_alt)

section \<open>Exact recurrences\<close>

fun welford_run :: "(rat \<Rightarrow> rat) \<Rightarrow> nat \<Rightarrow> rat \<times> rat \<Rightarrow> rat list \<Rightarrow> rat \<times> rat" where
  "welford_run rnd n mm [] = mm"
| "welford_run rnd n mm (x # xs) = welford_run rnd (Suc n) (welford_step rnd (of_nat (Suc n)) mm x) xs"

text \<open>
  With exact arithmetic, a pair that holds the mean and the centred sum of squares of \<open>ys\<close>
  holds those of \<open>ys @ [x]\<close> after one step.
\<close>

definition mean_of :: "rat list \<Rightarrow> rat" where
  "mean_of xs = sum_list xs / of_nat (length xs)"

definition sq_dev :: "rat list \<Rightarrow> rat" where
  "sq_dev xs = (\<Sum>x\<leftarrow>xs. (x - mean_of xs) ^ 2)"

lemma sq_dev_about: "(\<Sum>x\<leftarrow>xs. (x - c) ^ 2) = sq_dev xs + of_nat (length xs) * (mean_of xs - c) ^ 2"
proof (cases "xs = []")
  case False
  let ?m = "mean_of xs"
  have sum0: "(\<Sum>x\<leftarrow>xs. x - ?m) = 0"
    using False by (simp add: sum_list_subtractf sum_list_triv mean_of_def)
  have "(\<Sum>x\<leftarrow>xs. (x - c) ^ 2) = (\<Sum>x\<leftarrow>xs. (x - ?m) ^ 2 + 2 * (?m - c) * (x - ?m) + (?m - c) ^ 2)"
    by (intro arg_cong [where f = sum_list] map_cong) (simp_all add: power2_eq_square algebra_simps)
  also have "\<dots> = sq_dev xs + 2 * (?m - c) * (\<Sum>x\<leftarrow>xs. x - ?m) + of_nat (length xs) * (?m - c) ^ 2"
    by (simp add: sum_list_addf sum_list_const_mult sum_list_triv sq_dev_def)
  finally show ?thesis by (simp add: sum0)
qed (simp add: sq_dev_def)

lemma welford_step_exact:
  "welford_step (\<lambda>x. x) (of_nat (length ys + 1)) (mean_of ys, sq_dev ys) x = (mean_of (ys @ [x]), sq_dev (ys @ [x]))"
proof -
  let ?n = "of_nat (length ys) :: rat" and ?m = "mean_of ys" and ?m' = "mean_of (ys @ [x])"
  have n: "0 < ?n + 1" by (simp add: add_pos_nonneg add.commute)
  have sum: "sum_list ys = ?n * ?m" by (simp add: mean_of_def)
  then have m': "?m' = (?n * ?m + x) / (?n + 1)" by (simp add: mean_of_def add.commute)
  have mean: "?m + (x - ?m) / (?n + 1) = ?m'"
    using n unfolding m' by (simp add: field_simps)
  define d where "d = (x - ?m) / (?n + 1)"
  have d: "x - ?m' = ?n * d" "?m - ?m' = - d" "x - ?m = (?n + 1) * d"
    using n unfolding m' d_def by (simp_all add: field_simps)
  have "sq_dev (ys @ [x]) = sq_dev ys + ?n * (?m - ?m') ^ 2 + (x - ?m') ^ 2"
    using sq_dev_about [where xs = ys and c = ?m'] by (simp add: sq_dev_def [of "ys @ [x]"])
  also have "\<dots> = sq_dev ys + (x - ?m) * (x - ?m')"
    unfolding d by (simp add: algebra_simps power2_eq_square)
  finally show ?thesis using mean by (simp add: welford_step_def Let_def add.commute)
qed

lemma welford_run_exact:
  "welford_run (\<lambda>x. x) (length ys) (mean_of ys, sq_dev ys) xs = (mean_of (ys @ xs), sq_dev (ys @ xs))"
proof (induction xs arbitrary: ys)
  case (Cons x xs)
  then show ?case using welford_step_exact [of ys x] Cons.IH [of "ys @ [x]"] by simp
qed simp

section \<open>Binary64 recurrences\<close>

text \<open>
  In binary64 the new mean lies between the old one and the observation, so both deviations
  have the same sign and the sum of squares cannot decrease below zero: the argument of the
  square root is never negative.
\<close>

lemma welford_mono:
  assumes "f64_round m = m" "f64_round x = x" "m \<le> x" "2 \<le> n"
  shows "m \<le> f64_round (m + f64_round (f64_round (x - m) / n))"
    "f64_round (m + f64_round (f64_round (x - m) / n)) \<le> x"
proof -
  let ?d = "f64_round (x - m)"
  have d: "0 \<le> ?d" using assms(3) by (simp add: f64_round_nonneg)
  then have "0 \<le> f64_round (?d / n)" using assms(4) by (simp add: f64_round_nonneg)
  then show "m \<le> f64_round (m + f64_round (?d / n))"
    using f64_round_mono [of m "m + f64_round (?d / n)"] assms(1) by simp
  have "?d / n \<le> ?d / 2" using d assms(4) by (intro divide_left_mono) simp_all
  then have "f64_round (?d / n) \<le> f64_round (?d / 2)" by (rule f64_round_mono)
  also have "\<dots> \<le> x - m" using assms by (intro f64_round_half_diff)
  finally show "f64_round (m + f64_round (?d / n)) \<le> x"
    using f64_round_mono [of "m + f64_round (?d / n)" x] assms(2) by simp
qed

lemma welford_step_between:
  assumes "f64_round m = m" "f64_round x = x" "2 \<le> n"
  shows "min m x \<le> fst (welford_step f64_round n (m, q) x)"
    "fst (welford_step f64_round n (m, q) x) \<le> max m x"
    "0 \<le> f64_round (x - m) * f64_round (x - fst (welford_step f64_round n (m, q) x))"
proof -
  define m' where "m' = f64_round (m + f64_round (f64_round (x - m) / n))"
  have fst: "fst (welford_step f64_round n (m, q) x) = m'"
    by (simp add: welford_step_def Let_def m'_def)
  have "min m x \<le> m' \<and> m' \<le> max m x \<and> 0 \<le> f64_round (x - m) * f64_round (x - m')"
  proof (cases "m \<le> x")
    case True
    then show ?thesis
      using welford_mono [OF assms(1,2) True assms(3)]
      by (simp add: m'_def mult_nonneg_nonneg f64_round_nonneg)
  next
    case False
    have "f64_round (- x - - m) = - f64_round (x - m)" using f64_round_minus [of "x - m"] by simp
    then have "f64_round (- m + f64_round (f64_round (- x - - m) / n)) = - m'"
      using f64_round_minus [of "f64_round (x - m) / n"] f64_round_minus [of "m + f64_round (f64_round (x - m) / n)"]
      by (simp add: m'_def)
    then have le: "x \<le> m'" "m' \<le> m"
      using welford_mono [of "- m" "- x" n] assms False by (simp_all add: f64_round_minus)
    then have "0 \<le> f64_round (- (x - m)) * f64_round (- (x - m'))"
      using False by (intro mult_nonneg_nonneg f64_round_nonneg) simp_all
    with le False show ?thesis by (simp only: f64_round_minus) (simp add: min_def max_def)
  qed
  then show "min m x \<le> fst (welford_step f64_round n (m, q) x)"
    "fst (welford_step f64_round n (m, q) x) \<le> max m x"
    "0 \<le> f64_round (x - m) * f64_round (x - fst (welford_step f64_round n (m, q) x))"
    by (auto simp: fst)
qed

lemma welford_step_snd:
  "snd (welford_step f64_round n (m, q) x) =
     f64_round (q + f64_round (f64_round (x - m) * f64_round (x - fst (welford_step f64_round n (m, q) x))))"
  by (simp add: welford_step_def Let_def)

lemma welford_first:
  assumes "f64_round x = x"
  shows "welford_step f64_round 1 (0, q) x = (x, f64_round q)"
  using assms by (simp add: welford_step_def Let_def)

lemma f64_round_2: "f64_round 2 = 2"
  using f64_round_int [of 2] by simp

lemma f64_of_u64_ge2:
  assumes "2 \<le> unat n"
  shows "2 \<le> f64_of_u64 n"
proof -
  have "2 \<le> uint n" using assms by (simp only: uint_nat)
  then have "(of_int 2 :: rat) \<le> of_int (uint n)" by (simp only: of_int_le_iff)
  then show ?thesis using f64_round_mono [of "of_int 2" "of_int (uint n)"] by (simp add: f64_of_u64_def f64_round_2)
qed

lemma f64_of_u64_1: "f64_of_u64 1 = 1"
  by (simp add: f64_of_u64_def f64_round_1)

section \<open>The accumulator over a run\<close>

text \<open>The accumulator has seen \<open>k\<close> observations, all between \<open>lo\<close> and \<open>hi\<close>.\<close>

definition stats_inv :: "nat \<Rightarrow> f64 \<Rightarrow> f64 \<Rightarrow> welford_stats \<Rightarrow> bool" where
  "stats_inv k lo hi st \<longleftrightarrow> unat (ws_n st) = k \<and> f64_round (ws_mean st) = ws_mean st \<and>
     0 \<le> ws_m2 st \<and> (if k = 0 then ws_mean st = 0 else lo \<le> ws_mean st \<and> ws_mean st \<le> hi)"

lemma stats_update_inv:
  assumes "stats_inv k lo hi st" "k + 1 < 2 ^ 64" "lo \<le> f64_of_i64 e" "f64_of_i64 e \<le> hi"
  shows "\<exists>st'. stats_update pr st e s = Some st' \<and> stats_inv (k + 1) lo hi st' \<and>
     ws_max_abs_err st' = raise_max (unsigned_abs e) (ws_max_abs_err st) \<and>
     ws_max_abs_step st' = raise_max (unsigned_abs s) (ws_max_abs_step st)"
proof -
  let ?n = "ws_n st + 1" and ?x = "f64_of_i64 e"
  have inv: "unat (ws_n st) = k" "f64_round (ws_mean st) = ws_mean st" "0 \<le> ws_m2 st"
    using assms(1) by (simp_all add: stats_inv_def)
  have n: "unat ?n = k + 1" using inv(1) assms(2) by (simp add: unat_word_ariths)
  have add: "add_u64 pr (ws_n st) 1 = Some ?n" using inv(1) assms(2) by (simp add: add_u64_def)
  obtain m q where mq: "welford_step f64_round (f64_of_u64 ?n) (ws_mean st, ws_m2 st) ?x = (m, q)"
    by fastforce
  have x: "f64_round ?x = ?x" by (simp add: f64_of_i64_def f64_round_idem)
  have "f64_round m = m \<and> 0 \<le> q \<and> lo \<le> m \<and> m \<le> hi"
  proof (cases "k = 0")
    case True
    then have "unat ?n = unat (1 :: u64)" using n by simp
    then have "?n = 1" by (simp only: word_unat_eq_iff)
    moreover have "ws_mean st = 0" using assms(1) True by (simp add: stats_inv_def)
    ultimately show ?thesis
      using mq welford_first [OF x, of "ws_m2 st"] x assms(3,4) f64_round_nonneg [OF inv(3)]
      by (simp add: f64_of_u64_1)
  next
    case False
    then have n2: "2 \<le> f64_of_u64 ?n" using n by (intro f64_of_u64_ge2) simp
    note bt = welford_step_between [OF inv(2) x n2, of "ws_m2 st"]
    have "lo \<le> ws_mean st" "ws_mean st \<le> hi" using assms(1) False by (simp_all add: stats_inv_def)
    then have "lo \<le> m" "m \<le> hi" using bt(1,2) mq assms(3,4) by (auto simp: min_def max_def split: if_splits)
    moreover have "0 \<le> q"
      using welford_step_snd [of "f64_of_u64 ?n" "ws_mean st" "ws_m2 st" ?x] bt(3) inv(3) mq
      by (simp add: f64_round_nonneg)
    moreover have "f64_round m = m"
      using mq by (auto simp: welford_step_def Let_def f64_round_idem)
    ultimately show ?thesis by simp
  qed
  then show ?thesis
    using n by (simp add: stats_update_def add mq stats_inv_def)
qed

lemma stats_run_inv:
  assumes "stats_inv k lo hi st" "k + length obs < 2 ^ 64"
    "\<forall>(e, s) \<in> set obs. lo \<le> f64_of_i64 e \<and> f64_of_i64 e \<le> hi"
  shows "\<exists>st'. stats_run pr st obs = Some st' \<and> stats_inv (k + length obs) lo hi st' \<and>
    ws_max_abs_err st' = fold (\<lambda>(e, s). raise_max (unsigned_abs e)) obs (ws_max_abs_err st) \<and>
    ws_max_abs_step st' = fold (\<lambda>(e, s). raise_max (unsigned_abs s)) obs (ws_max_abs_step st)"
  using assms
proof (induction obs arbitrary: st k)
  case (Cons p obs)
  obtain e s where p: "p = (e, s)" by (cases p)
  obtain st' where st': "stats_update pr st e s = Some st'" "stats_inv (k + 1) lo hi st'"
     "ws_max_abs_err st' = raise_max (unsigned_abs e) (ws_max_abs_err st)"
     "ws_max_abs_step st' = raise_max (unsigned_abs s) (ws_max_abs_step st)"
    using stats_update_inv [OF Cons.prems(1), of e pr s] Cons.prems(2,3) p by auto
  then show ?case using Cons.IH [OF st'(2)] Cons.prems(2,3) p by (simp add: add.assoc)
qed simp

lemma stats_inv_new: "stats_inv 0 lo hi stats_new"
  by (simp add: stats_inv_def stats_new_def)

lemma fold_raise_max:
  assumes "\<forall>p \<in> set obs. g p \<noteq> i64_min" "0 \<le> sint m"
  shows "sint (fold (\<lambda>p. raise_max (unsigned_abs (g p))) obs m) =
     Max (insert (sint m) (set (map (\<lambda>p. \<bar>sint (g p)\<bar>) obs)))"
  using assms
proof (induction obs arbitrary: m)
  case (Cons p obs)
  let ?m = "raise_max (unsigned_abs (g p)) m" and ?S = "set (map (\<lambda>p. \<bar>sint (g p)\<bar>) obs)"
  have m: "sint ?m = max \<bar>sint (g p)\<bar> (sint m)"
    using Cons.prems by (simp add: sint_raise_max unsigned_abs_sint)
  have "sint (fold (\<lambda>p. raise_max (unsigned_abs (g p))) obs ?m) = Max (insert (max \<bar>sint (g p)\<bar> (sint m)) ?S)"
    using Cons.IH [of ?m] Cons.prems m by simp
  also have "\<dots> = Max (insert (sint m) (insert \<bar>sint (g p)\<bar> ?S))"
    by (cases "?S = {}") (simp_all add: Max_insert max.assoc max.left_commute max.commute)
  finally show ?case by simp
qed simp

text \<open>Once the mean equals the constant error, every further deviation is zero.\<close>

lemma stats_run_constant:
  assumes "\<forall>(e', s) \<in> set obs. e' = e" "stats_run pr st obs = Some st'"
    "ws_m2 st = 0" "ws_n st = 0 \<and> ws_mean st = 0 \<and> length obs < 2 ^ 64 \<or> ws_mean st = f64_of_i64 e"
  shows "ws_m2 st' = 0"
  using assms
proof (induction obs arbitrary: st)
  case (Cons p obs)
  let ?x = "f64_of_i64 e"
  have x: "f64_round ?x = ?x" by (simp add: f64_of_i64_def f64_round_idem)
  obtain s where p: "p = (e, s)" using Cons.prems(1) by (cases p) auto
  obtain st1 where st1: "stats_update pr st e s = Some st1" "stats_run pr st1 obs = Some st'"
    using Cons.prems(2) p by (auto split: Option.bind_splits)
  have "ws_m2 st1 = 0 \<and> ws_mean st1 = ?x"
  proof (cases "ws_mean st = ?x")
    case True
    then show ?thesis using st1(1) Cons.prems(3) x
      by (auto simp: stats_update_def welford_step_def Let_def split: Option.bind_splits)
  next
    case False
    then have "ws_n st = 0" "ws_mean st = 0" using Cons.prems(4) by auto
    then show ?thesis using st1(1) Cons.prems(3) x
      by (auto simp: stats_update_def add_u64_def f64_of_u64_1 welford_first)
  qed
  then show ?case using Cons.IH [OF _ st1(2)] Cons.prems(1) by simp
qed simp

section \<open>The spread of the errors\<close>

lemma f64_round_abs_le:
  assumes "\<bar>y\<bar> \<le> of_int d" "d \<le> 2 ^ 53"
  shows "\<bar>f64_round y\<bar> \<le> of_int d"
proof -
  have "(0 :: rat) \<le> of_int d" using assms(1) abs_ge_zero [of y] by linarith
  then have d: "f64_round (of_int d) = of_int d" "f64_round (- of_int d) = - of_int d"
    using assms(2) f64_round_int [of d] by (simp_all add: f64_round_minus)
  have "y \<le> of_int d" "- of_int d \<le> y" using assms(1) by linarith+
  from this [THEN f64_round_mono] show ?thesis unfolding d by linarith
qed

text \<open>A step adds at most the square of the spread to the sum of squares, exactly, while the sum is below 2^53.\<close>

lemma welford_step_m2_le:
  assumes "f64_round m = m" "f64_round x = x" "2 \<le> n" "\<bar>x - m\<bar> \<le> of_int d" "0 \<le> d"
    "q \<le> of_int (k * (d * d))" "0 \<le> k" "(k + 1) * (d * d) \<le> 2 ^ 53"
  shows "snd (welford_step f64_round n (m, q) x) \<le> of_int ((k + 1) * (d * d))"
proof -
  define m' where "m' = fst (welford_step f64_round n (m, q) x)"
  have "0 \<le> k * (d * d)" using assms(5,7) by simp
  then have dd: "d * d \<le> 2 ^ 53" using assms(8) by (simp add: distrib_right)
  have "d \<le> d * d" using assms(5) mult_right_mono [of 1 d d] by (cases "d = 0") simp_all
  then have d: "d \<le> 2 ^ 53" using dd by simp
  have "\<bar>x - m'\<bar> \<le> of_int d"
    using welford_step_between(1,2) [OF assms(1-3), of q] assms(4) by (auto simp: m'_def min_def max_def split: if_splits)
  then have "\<bar>f64_round (x - m)\<bar> * \<bar>f64_round (x - m')\<bar> \<le> of_int d * of_int d"
    using f64_round_abs_le [OF assms(4) d] f64_round_abs_le [of "x - m'" d] d assms(5) by (intro mult_mono) simp_all
  then have "\<bar>f64_round (x - m) * f64_round (x - m')\<bar> \<le> of_int (d * d)" by (simp add: abs_mult)
  from f64_round_abs_le [OF this dd] have "f64_round (f64_round (x - m) * f64_round (x - m')) \<le> of_int (d * d)" by linarith
  then have "q + f64_round (f64_round (x - m) * f64_round (x - m')) \<le> of_int ((k + 1) * (d * d))"
    using assms(6) by (simp add: distrib_right)
  then have "f64_round (q + f64_round (f64_round (x - m) * f64_round (x - m'))) \<le> f64_round (of_int ((k + 1) * (d * d)))"
    by (rule f64_round_mono)
  also have "\<dots> = of_int ((k + 1) * (d * d))" using assms(5,7,8) by (intro f64_round_int) simp
  finally show ?thesis by (simp only: welford_step_snd m'_def)
qed

lemma stats_update_m2:
  "stats_update pr st e s = Some st' \<Longrightarrow> unat (ws_n st) + 1 < 2 ^ 64 \<Longrightarrow>
   ws_m2 st' = snd (welford_step f64_round (f64_of_u64 (ws_n st + 1)) (ws_mean st, ws_m2 st) (f64_of_i64 e))"
  by (auto simp: stats_update_def add_u64_def Let_def split: prod.splits)

lemma stats_run_m2_le:
  assumes "stats_inv k (of_int lo) (of_int hi) st" "ws_m2 st \<le> of_int (int k * ((hi - lo) * (hi - lo)))" "lo \<le> hi"
    "k + length obs < 2 ^ 64" "int (k + length obs) * ((hi - lo) * (hi - lo)) \<le> 2 ^ 53"
    "\<forall>(e, s) \<in> set obs. of_int lo \<le> f64_of_i64 e \<and> f64_of_i64 e \<le> of_int hi" "stats_run pr st obs = Some st'"
  shows "ws_m2 st' \<le> of_int (int (k + length obs) * ((hi - lo) * (hi - lo)))"
  using assms
proof (induction obs arbitrary: st k)
  case (Cons p obs)
  let ?D = "(hi - lo) * (hi - lo)"
  obtain e s where p: "p = (e, s)" by (cases p)
  let ?x = "f64_of_i64 e"
  have x: "of_int lo \<le> ?x" "?x \<le> of_int hi" using Cons.prems(6) p by auto
  obtain st1 where st1: "stats_update pr st e s = Some st1" "stats_inv (k + 1) (of_int lo) (of_int hi) st1"
    using stats_update_inv [OF Cons.prems(1) _ x, of pr s] Cons.prems(4) by auto
  have inv: "unat (ws_n st) = k" "f64_round (ws_mean st) = ws_mean st" "0 \<le> ws_m2 st"
    using Cons.prems(1) by (simp_all add: stats_inv_def)
  have m2: "ws_m2 st1 = snd (welford_step f64_round (f64_of_u64 (ws_n st + 1)) (ws_mean st, ws_m2 st) ?x)"
    using st1(1) inv(1) Cons.prems(4) by (intro stats_update_m2) simp_all
  have D: "0 \<le> ?D" by simp
  have n: "unat (ws_n st + 1) = k + 1" using inv(1) Cons.prems(4) by (simp add: unat_word_ariths)
  have fx: "f64_round ?x = ?x" by (simp add: f64_of_i64_def f64_round_idem)
  have "int (k + 1) * ?D \<le> int (k + length (p # obs)) * ?D" using D by (intro mult_right_mono) simp_all
  then have small: "(int k + 1) * ?D \<le> 2 ^ 53" using Cons.prems(5) by (simp add: add.commute)
  have "ws_m2 st1 \<le> of_int (int (k + 1) * ?D)"
  proof (cases "k = 0")
    case True
    then have "unat (ws_n st + 1) = unat (1 :: u64)" using n by simp
    then have "ws_n st + 1 = 1" by (simp only: word_unat_eq_iff)
    moreover have "ws_mean st = 0" "ws_m2 st = 0" using Cons.prems(1,2) True inv(3) by (simp_all add: stats_inv_def)
    ultimately show ?thesis using D by (simp add: m2 f64_of_u64_1 welford_first [OF fx])
  next
    case False
    then have "2 \<le> f64_of_u64 (ws_n st + 1)" using n by (intro f64_of_u64_ge2) simp
    moreover have "\<bar>?x - ws_mean st\<bar> \<le> of_int (hi - lo)"
      using Cons.prems(1) False x by (simp add: stats_inv_def abs_le_iff)
    ultimately show ?thesis unfolding m2
      using welford_step_m2_le [OF inv(2) fx, of _ "hi - lo" "ws_m2 st" "int k"] Cons.prems(2,3) small by (simp add: add.commute)
  qed
  moreover have "stats_run pr st1 obs = Some st'" using Cons.prems(7) st1(1) p by simp
  ultimately show ?case
    using Cons.IH [OF st1(2) _ Cons.prems(3)] Cons.prems(4-6) by (simp add: add.assoc)
qed simp

section \<open>Properties\<close>

text \<open>After any sequence of fewer than 2^64 observations the accumulator has counted them all without a panic, its binary64 mean lies between the smallest and the largest error, and the sum of squares under the root of rms is not negative, so rms is never NaN.\<close>

theorem stats_well_defined:
  assumes "obs \<noteq> []" "length obs < 2 ^ 64"
    "\<forall>(e, s) \<in> set obs. lo \<le> f64_of_i64 e \<and> f64_of_i64 e \<le> hi"
  shows "\<exists>st. stats_run pr stats_new obs = Some st \<and> unat (ws_n st) = length obs \<and>
     lo \<le> ws_mean st \<and> ws_mean st \<le> hi \<and> 0 \<le> ws_m2 st \<and> 0 \<le> rms st"
proof -
  obtain st where "stats_run pr stats_new obs = Some st" "stats_inv (length obs) lo hi st"
    using stats_run_inv [OF stats_inv_new, of obs lo hi pr] assms(2,3) by auto
  then show ?thesis using assms(1) by (auto simp: stats_inv_def rms_def f64_sqrt_nonneg)
qed

theorem stats_well_defined_witness:
  "\<exists>st. stats_run Debug stats_new [(2, 1), (- 4, - 2)] = Some st \<and> unat (ws_n st) = length [(2 :: i64, 1 :: i64), (- 4, - 2)] \<and>
     f64_of_i64 (- 4) \<le> ws_mean st \<and> ws_mean st \<le> f64_of_i64 2 \<and> 0 \<le> ws_m2 st \<and> 0 \<le> rms st"
  by (rule stats_well_defined) (auto simp: f64_of_i64_def intro!: f64_round_mono)

text \<open>Max_abs_err and max_abs_step are the largest absolute error and step since the last reset, 0 when there was none (for errors and steps above i64::MIN, whose absolute value the cast makes negative).\<close>

theorem stats_maxima:
  assumes "length obs < 2 ^ 64" "\<forall>(e, s) \<in> set obs. e \<noteq> i64_min \<and> s \<noteq> i64_min"
  shows "\<exists>st. stats_run pr stats_new obs = Some st \<and>
     sint (ws_max_abs_err st) = Max (insert 0 (set (map (\<lambda>(e, s). \<bar>sint e\<bar>) obs))) \<and>
     sint (ws_max_abs_step st) = Max (insert 0 (set (map (\<lambda>(e, s). \<bar>sint s\<bar>) obs)))"
proof -
  define b where "b = Max (insert 0 (set (map (\<lambda>(e, s). \<bar>f64_of_i64 e\<bar>) obs)))"
  have "\<forall>(e, s) \<in> set obs. - b \<le> f64_of_i64 e \<and> f64_of_i64 e \<le> b"
  proof (clarify)
    fix e s assume "(e, s) \<in> set obs"
    then have "\<bar>f64_of_i64 e\<bar> \<le> b" unfolding b_def by (intro Max_ge) force+
    then show "- b \<le> f64_of_i64 e \<and> f64_of_i64 e \<le> b" by linarith
  qed
  then obtain st where st: "stats_run pr stats_new obs = Some st"
      "ws_max_abs_err st = fold (\<lambda>(e, s). raise_max (unsigned_abs e)) obs 0"
      "ws_max_abs_step st = fold (\<lambda>(e, s). raise_max (unsigned_abs s)) obs 0"
    using stats_run_inv [OF stats_inv_new, of obs "- b" b pr] assms(1) by (auto simp: stats_new_def)
  then show ?thesis
    using fold_raise_max [of obs fst 0] fold_raise_max [of obs snd 0] assms(2)
    by (simp add: case_prod_unfold)
qed

theorem stats_maxima_witness:
  "\<exists>st. stats_run Debug stats_new [(2, 1), (- 4, - 2)] = Some st \<and>
     sint (ws_max_abs_err st) = Max (insert 0 (set (map (\<lambda>(e, s). \<bar>sint e\<bar>) [(2 :: i64, 1 :: i64), (- 4, - 2)]))) \<and>
     sint (ws_max_abs_step st) = Max (insert 0 (set (map (\<lambda>(e, s). \<bar>sint s\<bar>) [(2 :: i64, 1 :: i64), (- 4, - 2)])))"
  by (rule stats_maxima) auto

text \<open>With exact arithmetic the recurrences compute the mean of the errors and the sum of their squared deviations from it.\<close>

theorem welford_is_variance:
  "welford_run (\<lambda>x. x) 0 (0, 0) xs =
     (sum_list xs / of_nat (length xs), \<Sum>x\<leftarrow>xs. (x - sum_list xs / of_nat (length xs)) ^ 2)"
  using welford_run_exact [of "[]" xs] by (simp add: mean_of_def sq_dev_def)

text \<open>Rms measures the spread and not the size of the error: followers that are off by the same error e in every cycle report a root mean square of 0 for any e, so the RMS warning cannot see a constant offset.\<close>

theorem rms_of_constant_error_is_zero:
  assumes "length obs < 2 ^ 64" "\<forall>(e', s) \<in> set obs. e' = e"
  shows "\<exists>st. stats_run pr stats_new obs = Some st \<and> rms st = 0 \<and>
     fst (print_and_reset st label) = 0 \<and> fst (snd (print_and_reset st label)) = stats_new"
proof -
  define x where "x = f64_of_i64 e"
  have x: "f64_round x = x" by (simp add: x_def f64_of_i64_def f64_round_idem)
  have "\<forall>(e', s) \<in> set obs. x \<le> f64_of_i64 e' \<and> f64_of_i64 e' \<le> x"
    using assms(2) by (auto simp: x_def)
  then obtain st where st: "stats_run pr stats_new obs = Some st"
    using stats_run_inv [OF stats_inv_new, of obs x x pr] assms(1) by auto
  have "ws_m2 st = 0" using stats_run_constant [OF _ st] assms x_def by (simp add: stats_new_def)
  with st show ?thesis by (simp add: rms_def fdiv_def print_and_reset_def Let_def)
qed

theorem rms_of_constant_error_is_zero_witness:
  "\<exists>st. stats_run Debug stats_new [(5000, 200), (5000, 200)] = Some st \<and> rms st = 0 \<and>
     fst (print_and_reset st ''sync'') = 0 \<and> fst (snd (print_and_reset st ''sync'')) = stats_new"
  by (rule rms_of_constant_error_is_zero) auto

text \<open>C40: The reported RMS measures how far the errors differ, and not how large they are: after any
  observations whose errors lie between lo and hi (of magnitude up to 2^53, their number times
  the square of hi - lo at most 2^53), the accumulator has counted them without a panic, its mean lies
  between lo and hi, and rms, in the code's binary64 arithmetic, between 0 and hi - lo.  Followers
  that are all off by about the same error, however large, report about 0, where the root mean square
  of the error, as rms is documented, would be that error.\<close>

theorem rms_bounded_by_spread:
  assumes "obs \<noteq> []" "\<forall>(e, s) \<in> set obs. lo \<le> sint e \<and> sint e \<le> hi" "- (2 ^ 53) \<le> lo" "hi \<le> 2 ^ 53"
    "length obs < 2 ^ 64" "int (length obs) * (hi - lo) ^ 2 \<le> 2 ^ 53"
  shows "\<exists>st. stats_run pr stats_new obs = Some st \<and> unat (ws_n st) = length obs \<and>
     of_int lo \<le> ws_mean st \<and> ws_mean st \<le> of_int hi \<and> 0 \<le> rms st \<and> rms st \<le> of_int (hi - lo)"
proof -
  let ?D = "(hi - lo) * (hi - lo)"
  obtain e0 s0 where "(e0, s0) \<in> set obs" using assms(1) by (cases obs) auto
  then have lohi: "lo \<le> hi" using assms(2) by fastforce
  have bounds: "\<forall>(e, s) \<in> set obs. of_int lo \<le> f64_of_i64 e \<and> f64_of_i64 e \<le> of_int hi"
  proof (clarify)
    fix e s assume "(e, s) \<in> set obs"
    then have e: "lo \<le> sint e" "sint e \<le> hi" using assms(2) by auto
    then have "f64_of_i64 e = of_int (sint e)" unfolding f64_of_i64_def using assms(3,4) by (intro f64_round_int) simp
    with e show "of_int lo \<le> f64_of_i64 e \<and> f64_of_i64 e \<le> of_int hi" by (simp only: of_int_le_iff)
  qed
  obtain st where st: "stats_run pr stats_new obs = Some st" "stats_inv (length obs) (of_int lo) (of_int hi) st"
    using stats_run_inv [OF stats_inv_new, of obs "of_int lo" "of_int hi" pr] assms(5) bounds by auto
  have n: "unat (ws_n st) = length obs" and m2: "0 \<le> ws_m2 st" using st(2) by (simp_all add: stats_inv_def)
  have le: "ws_m2 st \<le> of_int (int (length obs) * ?D)"
    using stats_run_m2_le [OF stats_inv_new _ lohi _ _ bounds st(1)] assms(5,6)
    by (simp add: stats_new_def power2_eq_square)
  have "rms st \<le> of_int (hi - lo)"
  proof (cases "hi = lo")
    case True
    then show ?thesis using le m2 by (simp add: rms_def fdiv_def)
  next
    case False
    then have D: "1 \<le> ?D" using lohi by (simp add: int_one_le_iff_zero_less)
    then have "int (length obs) * 1 \<le> int (length obs) * ?D" by (intro mult_left_mono) simp_all
    then have small: "int (length obs) \<le> 2 ^ 53" using assms(6) by (simp add: power2_eq_square)
    have "1 * ?D \<le> int (length obs) * ?D" using D assms(1) by (intro mult_right_mono) (simp_all add: Suc_leI)
    then have Ds: "?D \<le> 2 ^ 53" using assms(6) by (simp add: power2_eq_square)
    have "uint (ws_n st) = int (length obs)" using n by (simp only: uint_nat)
    then have fn: "f64_of_u64 (ws_n st) = of_nat (length obs)"
      using small f64_round_int [of "int (length obs)"] by (simp add: f64_of_u64_def)
    have "ws_m2 st / of_nat (length obs) \<le> of_int ?D"
      using le assms(1) by (simp add: divide_le_eq mult.commute)
    then have "fdiv (ws_m2 st) (f64_of_u64 (ws_n st)) \<le> f64_round (of_int ?D)"
      unfolding fdiv_def fn by (rule f64_round_mono)
    also have "\<dots> = of_int ?D" using D Ds by (intro f64_round_int) simp
    finally have q: "fdiv (ws_m2 st) (f64_of_u64 (ws_n st)) \<le> of_int ?D" .
    have "hi - lo \<le> ?D" using lohi False mult_right_mono [of 1 "hi - lo" "hi - lo"] by simp
    then have "f64_round (of_int (hi - lo)) = of_int (hi - lo)" using Ds lohi by (intro f64_round_int) simp
    from f64_sqrt_le_int [OF q _ this] lohi show ?thesis by (simp add: rms_def)
  qed
  then show ?thesis using st n assms(1) by (auto simp: stats_inv_def rms_def f64_sqrt_nonneg)
qed

text \<open>Three errors of a second, more or less 5 microseconds: rms is at most 10.\<close>

theorem rms_bounded_by_spread_witness:
  "\<exists>st. stats_run Release stats_new [(1000000, 200), (1000005, 200), (999995, 200)] = Some st \<and>
     unat (ws_n st) = 3 \<and> 999995 \<le> ws_mean st \<and> rms st \<le> 10"
  using rms_bounded_by_spread [of "[(1000000, 200), (1000005, 200), (999995, 200)]" 999995 1000005 Release] by auto

end
