(* ===== verification/Hex.thy ===== *)
theory Hex
  imports Prelude
begin

text \<open>
  The hexadecimal parsers of the debugfs tool (src/bin/tsf\_sync\_debugfs/asm/hex.rs): the
  scalar loop, the SSSE3 pipeline on 128-bit registers and the dispatcher between them.
  A register is the list of its sixteen bytes, lowest first; each intrinsic is defined on
  the lanes Intel documents for it.  The lemmas show that the pipeline computes the value of
  sixteen hex digits, that the dispatcher agrees with the scalar loop, and that both read
  back what the kernel prints.
\<close>

section \<open>The scalar parser\<close>

definition is_ascii_whitespace :: "u8 \<Rightarrow> bool" where
  "is_ascii_whitespace b \<longleftrightarrow> b = 32 \<or> b = 9 \<or> b = 10 \<or> b = 12 \<or> b = 13"

text \<open>The match of the loop body: the value of a hex digit, \<open>None\<close> for any other byte.\<close>

definition hex_nibble :: "u8 \<Rightarrow> u8 option" where
  "hex_nibble b =
     (if 48 \<le> b \<and> b \<le> 57 then Some (b - 48)
      else if 97 \<le> b \<and> b \<le> 102 then Some (b - 97 + 10)
      else if 65 \<le> b \<and> b \<le> 70 then Some (b - 65 + 10)
      else None)"

text \<open>\<open>u64::checked_shl\<close> fails only when the shift amount reaches the width.\<close>

definition checked_shl :: "u64 \<Rightarrow> nat \<Rightarrow> u64 option" where
  "checked_shl v n = (if n < 64 then Some (push_bit n v) else None)"

fun scalar_loop :: "u8 list \<Rightarrow> u64 \<Rightarrow> u32 \<Rightarrow> (u64 \<times> u32) option" where
  "scalar_loop [] val digits = Some (val, digits)"
| "scalar_loop (b # bs) val digits =
     (case hex_nibble b of
        None \<Rightarrow> Some (val, digits)
      | Some nibble \<Rightarrow>
          (case checked_shl val 4 of
             None \<Rightarrow> None
           | Some v \<Rightarrow> scalar_loop bs (v OR ucast nibble) (digits + 1)))"

definition skip_prefix :: "u8 list \<Rightarrow> u8 list" where
  "skip_prefix buf =
     (case buf of
        a # b # rest \<Rightarrow> if a = 48 \<and> (b = 120 \<or> b = 88) then rest else buf
      | _ \<Rightarrow> buf)"

definition parse_hex_scalar :: "u8 list \<Rightarrow> u64 option" where
  "parse_hex_scalar buf =
     (case scalar_loop (skip_prefix (dropWhile is_ascii_whitespace buf)) 0 0 of
        None \<Rightarrow> None
      | Some (val, digits) \<Rightarrow> if digits = 0 then None else Some val)"

section \<open>The SSSE3 pipeline\<close>

type_synonym m128i = "u8 list"

definition mm_loadu_si128 :: "u8 list \<Rightarrow> m128i" where
  "mm_loadu_si128 p = take 16 p"

definition mm_set1_epi8 :: "u8 \<Rightarrow> m128i" where
  "mm_set1_epi8 x = replicate 16 x"

definition mm_and_si128 :: "m128i \<Rightarrow> m128i \<Rightarrow> m128i" where
  "mm_and_si128 a b = map2 (AND) a b"

definition mm_cmpgt_epi8 :: "m128i \<Rightarrow> m128i \<Rightarrow> m128i" where
  "mm_cmpgt_epi8 a b = map2 (\<lambda>x y. if y <s x then 255 else 0) a b"

definition mm_add_epi8 :: "m128i \<Rightarrow> m128i \<Rightarrow> m128i" where
  "mm_add_epi8 a b = map2 (+) a b"

text \<open>The \<open>_mm_set\<close> intrinsics list the highest lane first.\<close>

definition mm_set_epi8 :: "u8 list \<Rightarrow> m128i" where
  "mm_set_epi8 es = rev es"

definition mm_set_epi16 :: "16 word list \<Rightarrow> m128i" where
  "mm_set_epi16 es = concat (map (le_bytes 2) (rev es))"

definition lanes :: "nat \<Rightarrow> m128i \<Rightarrow> 'a::len word list" where
  "lanes k a = map le_word (chunks k a)"

text \<open>PMADDUBSW: unsigned times signed bytes, adjacent products added with signed saturation.\<close>

definition sat_i16 :: "int \<Rightarrow> 16 word" where
  "sat_i16 x = word_of_int (max (- 32768) (min 32767 x))"

definition mm_maddubs_epi16 :: "m128i \<Rightarrow> m128i \<Rightarrow> m128i" where
  "mm_maddubs_epi16 a b =
     concat (map2 (\<lambda>x y. le_bytes 2 (sat_i16 (uint (x ! 0) * sint (y ! 0) + uint (x ! 1) * sint (y ! 1))))
       (chunks 2 a) (chunks 2 b))"

text \<open>PMADDWD: signed 16-bit products, adjacent ones added in 32 bits.\<close>

definition mm_madd_epi16 :: "m128i \<Rightarrow> m128i \<Rightarrow> m128i" where
  "mm_madd_epi16 a b =
     concat (map2 (\<lambda>x y. le_bytes 4
         (word_of_int (sint (x ! 0) * sint (y ! 0) + sint (x ! 1) * sint (y ! 1)) :: 32 word))
       (chunks 2 (lanes 2 a :: 16 word list)) (chunks 2 (lanes 2 b :: 16 word list)))"

text \<open>PSHUFB: a control byte with its top bit set clears, the others select a source byte.\<close>

definition mm_shuffle_epi8 :: "m128i \<Rightarrow> m128i \<Rightarrow> m128i" where
  "mm_shuffle_epi8 a ctl = map (\<lambda>m. if bit m 7 then 0 else a ! unat (m AND 15)) ctl"

definition mm_cvtsi128_si64 :: "m128i \<Rightarrow> u64" where
  "mm_cvtsi128_si64 a = le_word (take 8 a)"

definition parse_hex_16_ssse3 :: "u8 list \<Rightarrow> u64" where
  "parse_hex_16_ssse3 hex =
     (let input = mm_loadu_si128 hex;
          low_nibble = mm_and_si128 input (mm_set1_epi8 0x0F);
          is_letter = mm_cmpgt_epi8 input (mm_set1_epi8 0x39);
          letter_adj = mm_and_si128 is_letter (mm_set1_epi8 9);
          nibbles = mm_add_epi8 low_nibble letter_adj;
          mul_16_1 = mm_set_epi8 [1, 16, 1, 16, 1, 16, 1, 16, 1, 16, 1, 16, 1, 16, 1, 16];
          bytes = mm_maddubs_epi16 nibbles mul_16_1;
          mul_256_1 = mm_set_epi16 [1, 256, 1, 256, 1, 256, 1, 256];
          words = mm_madd_epi16 bytes mul_256_1;
          shuffle = mm_set_epi8
            [- 1, - 1, - 1, - 1, - 1, - 1, - 1, - 1, 1, 0, 5, 4, 9, 8, 13, 12];
          packed = mm_shuffle_epi8 words shuffle
      in mm_cvtsi128_si64 packed)"

section \<open>The dispatcher\<close>

definition is_ascii_hexdigit :: "u8 \<Rightarrow> bool" where
  "is_ascii_hexdigit b \<longleftrightarrow>
     (48 \<le> b \<and> b \<le> 57) \<or> (65 \<le> b \<and> b \<le> 70) \<or> (97 \<le> b \<and> b \<le> 102)"

text \<open>\<open>ssse3\<close>: built for x86-64 and the CPU reports the extension (\<open>has_ssse3\<close>).\<close>

definition parse_hex_auto :: "bool \<Rightarrow> u8 list \<Rightarrow> u64 option" where
  "parse_hex_auto ssse3 buf =
     (if 19 \<le> length buf \<and> buf ! 0 = 48 \<and> (buf ! 1 = 120 \<or> buf ! 1 = 88) \<and> ssse3
         \<and> list_all is_ascii_hexdigit (take 16 (drop 2 buf))
      then Some (parse_hex_16_ssse3 (take 16 (drop 2 buf)))
      else parse_hex_scalar buf)"

section \<open>The value of a digit string\<close>

definition nibble_val :: "u8 \<Rightarrow> nat" where
  "nibble_val b = (case hex_nibble b of None \<Rightarrow> 0 | Some n \<Rightarrow> unat n)"

fun hex_val :: "nat \<Rightarrow> u8 list \<Rightarrow> nat" where
  "hex_val acc [] = acc"
| "hex_val acc (d # ds) = hex_val (16 * acc + nibble_val d) ds"

lemma hex_nibble_None_iff: "hex_nibble b = None \<longleftrightarrow> \<not> is_ascii_hexdigit b"
  by (auto simp: hex_nibble_def is_ascii_hexdigit_def)

section \<open>The pipeline, lane by lane\<close>

definition hexdigits :: "u8 list" where
  "hexdigits = map word_of_nat ([48..<58] @ [65..<71] @ [97..<103])"

lemma hexdigits_complete: "is_ascii_hexdigit b \<Longrightarrow> b \<in> set hexdigits"
proof -
  assume "is_ascii_hexdigit b"
  then have "unat b \<in> set ([48..<58] @ [65..<71] @ [97..<103])"
    by (auto simp: is_ascii_hexdigit_def word_le_nat_alt simp del: upt_rec_numeral)
  then have "word_of_nat (unat b) \<in> set hexdigits"
    unfolding hexdigits_def set_map by (rule imageI)
  then show ?thesis by simp
qed

definition simd_nibble :: "u8 \<Rightarrow> u8" where
  "simd_nibble b = (b AND 15) + ((if 57 <s b then 255 else 0) AND 9)"

lemma simd_nibble_digits:
  "list_all (\<lambda>b. hex_nibble b = Some (simd_nibble b) \<and> simd_nibble b < 16) hexdigits"
  by code_simp

lemma hex_nibble_simd: "is_ascii_hexdigit b \<Longrightarrow> hex_nibble b = Some (simd_nibble b) \<and> simd_nibble b < 16"
  using simd_nibble_digits hexdigits_complete [of b] by (simp add: list_all_iff)

lemma nibble_val_lt: "nibble_val b < 16"
  using hex_nibble_simd [of b]
  by (cases "is_ascii_hexdigit b")
     (simp_all add: nibble_val_def word_less_nat_alt hex_nibble_None_iff [symmetric])

lemma uint_simd_nibble: "is_ascii_hexdigit b \<Longrightarrow> uint (simd_nibble b) = int (nibble_val b)"
  using hex_nibble_simd [of b] by (simp add: nibble_val_def)

lemma lanes_concat: "LENGTH('a::len) = 8 * n \<Longrightarrow> 0 < n \<Longrightarrow>
    lanes n (concat (map (le_bytes n) ws)) = (ws :: 'a word list)"
  by (induction ws) (simp_all add: lanes_def chunks_append le_word_le_bytes)

lemma list16: "length xs = 16 \<Longrightarrow> \<exists>a b c d e f g h i j k l m n p q. xs = [a, b, c, d, e, f, g, h, i, j, k, l, m, n, p, q]"
  by (auto simp: length_Suc_conv numeral_eq_Suc)

definition pair_byte :: "u8 \<Rightarrow> u8 \<Rightarrow> int" where
  "pair_byte a b = 16 * int (nibble_val a) + int (nibble_val b)"
definition quad :: "u8 \<Rightarrow> u8 \<Rightarrow> u8 \<Rightarrow> u8 \<Rightarrow> int" where
  "quad a b c d = 256 * pair_byte a b + pair_byte c d"

lemma pair_byte_bounds: "0 \<le> pair_byte a b" "pair_byte a b < 256"
  using nibble_val_lt [of a] nibble_val_lt [of b] by (simp_all add: pair_byte_def)

lemma quad_bounds: "0 \<le> quad a b c d" "quad a b c d < 65536"
  using pair_byte_bounds [of a b] pair_byte_bounds [of c d] by (simp_all add: quad_def)

lemma maddubs_lane:
  "is_ascii_hexdigit a \<Longrightarrow> is_ascii_hexdigit b \<Longrightarrow>
   sat_i16 (uint (simd_nibble a) * sint (16::u8) + uint (simd_nibble b) * sint (1::u8)) = word_of_int (pair_byte a b)"
  using pair_byte_bounds [of a b] by (simp add: sat_i16_def uint_simd_nibble pair_byte_def)

lemma sint_pair_byte: "sint (word_of_int (pair_byte a b) :: 16 word) = pair_byte a b"
  using pair_byte_bounds [of a b]
  by (simp add: sint_sbintrunc' signed_take_bit_int_eq_self)

lemma madd_lane:
  "sint (word_of_int (pair_byte a b) :: 16 word) * sint (256 :: 16 word) +
   sint (word_of_int (pair_byte c d) :: 16 word) * sint (1 :: 16 word) = quad a b c d"
  by (simp add: sint_pair_byte quad_def)

lemma quad_byte0: "uint (ucast (word_of_int (quad a b c d) :: 32 word) :: u8) = quad a b c d mod 256"
  and quad_byte1: "uint (ucast (drop_bit 8 (word_of_int (quad a b c d) :: 32 word)) :: u8) = quad a b c d div 256"
proof -
  have u: "uint (word_of_int (quad a b c d) :: 32 word) = quad a b c d"
    using quad_bounds [of a b c d] by (simp add: uint_word_of_int)
  then show "uint (ucast (word_of_int (quad a b c d) :: 32 word) :: u8) = quad a b c d mod 256"
    by (simp add: unsigned_ucast_eq take_bit_eq_mod)
  show "uint (ucast (drop_bit 8 (word_of_int (quad a b c d) :: 32 word)) :: u8) = quad a b c d div 256"
    using quad_bounds [of a b c d]
    by (simp only: unsigned_ucast_eq unsigned_drop_bit_eq u)
      (simp add: take_bit_eq_mod drop_bit_eq_div)
qed

lemma mul_256_1_lanes:
  "lanes 2 (mm_set_epi16 [1, 256, 1, 256, 1, 256, 1, 256]) = [256, 1, 256, 1, 256, 1, 256, 1 :: 16 word]"
  unfolding mm_set_epi16_def by (subst lanes_concat) simp_all

lemma hex_val16: "hex_val 0 [a, b, c, d, e, f, g, h, i, j, k, l, m, n, p, q] =
   nat (quad m n p q + 65536 * (quad i j k l + 65536 * (quad e f g h + 65536 * quad a b c d)))"
  by (simp add: quad_def pair_byte_def)

lemma quads_word:
  assumes "hex = [a, b, c, d, e, f, g, h, i, j, k, l, m, n, p, q]" "list_all is_ascii_hexdigit hex"
  shows "parse_hex_16_ssse3 hex = word_of_int (quad m n p q + 65536 * (quad i j k l + 65536 * (quad e f g h + 65536 * quad a b c d)))"
proof -
  let ?ws = "[word_of_int (pair_byte a b), word_of_int (pair_byte c d), word_of_int (pair_byte e f),
      word_of_int (pair_byte g h), word_of_int (pair_byte i j), word_of_int (pair_byte k l),
      word_of_int (pair_byte m n), word_of_int (pair_byte p q)] :: 16 word list"
  let ?in = "mm_loadu_si128 hex"
  let ?nib = "mm_add_epi8 (mm_and_si128 ?in (mm_set1_epi8 0x0F))
      (mm_and_si128 (mm_cmpgt_epi8 ?in (mm_set1_epi8 0x39)) (mm_set1_epi8 9))"
  have nib: "?nib = map simd_nibble hex"
    by (simp add: assms(1) mm_loadu_si128_def mm_add_epi8_def mm_and_si128_def mm_set1_epi8_def
        mm_cmpgt_epi8_def simd_nibble_def numeral_eq_Suc)
  have bytes: "mm_maddubs_epi16 ?nib (mm_set_epi8 [1, 16, 1, 16, 1, 16, 1, 16, 1, 16, 1, 16, 1, 16, 1, 16])
      = concat (map (le_bytes 2) ?ws)"
    using assms(2) unfolding nib
    by (simp add: assms(1) mm_maddubs_epi16_def mm_set_epi8_def maddubs_lane [simplified])
  have lws: "lanes 2 (concat (map (le_bytes 2) ?ws)) = ?ws"
    by (rule lanes_concat) simp_all
  have words: "mm_madd_epi16 (concat (map (le_bytes 2) ?ws)) (mm_set_epi16 [1, 256, 1, 256, 1, 256, 1, 256])
      = concat (map (le_bytes 4) [word_of_int (quad a b c d), word_of_int (quad e f g h),
          word_of_int (quad i j k l), word_of_int (quad m n p q) :: 32 word])"
    unfolding mm_madd_epi16_def mul_256_1_lanes lws
    by (simp add: madd_lane [simplified] del: of_int_add of_int_mult)
  show ?thesis
    unfolding parse_hex_16_ssse3_def Let_def bytes words
    by (simp add: mm_shuffle_epi8_def mm_set_epi8_def mm_cvtsi128_si64_def le_bytes4 le_word_def quad_byte0 quad_byte1)
qed
section \<open>The scalar loop\<close>

lemma push_bit_or_nibble:
  assumes "n < 16"
  shows "push_bit 4 v OR ucast (n :: u8) = 16 * v + (ucast n :: u64)"
proof -
  have "unat (take_bit 4 n) = unat n"
    using assms by (simp add: word_less_nat_alt unsigned_take_bit_eq take_bit_nat_eq_self)
  then have "take_bit 4 n = n" by (rule unsigned_word_eqI)
  then have "bit n i \<Longrightarrow> i < 4" for i
    by (metis bit_take_bit_iff)
  then have "push_bit 4 v AND ucast n = (0 :: u64)"
    by (intro bit_word_eqI) (fastforce simp: bit_and_iff bit_push_bit_iff bit_ucast_iff dest: leD)
  then show ?thesis
    by (simp add: disjunctive_add_eq_or [symmetric] push_bit_eq_mult mult.commute)
qed

lemma scalar_loop_val:
  "scalar_loop bs (word_of_nat a) d =
     Some (word_of_nat (hex_val a (takeWhile is_ascii_hexdigit bs)),
           d + of_nat (length (takeWhile is_ascii_hexdigit bs)))"
proof (induction bs arbitrary: a d)
  case (Cons b bs)
  show ?case
  proof (cases "is_ascii_hexdigit b")
    case True
    then obtain n where n: "hex_nibble b = Some n" "n < 16"
      using hex_nibble_simd by blast
    then have "push_bit 4 (word_of_nat a) OR ucast n = (word_of_nat (16 * a + nibble_val b) :: u64)"
      by (simp add: push_bit_or_nibble nibble_val_def)
    with n True show ?thesis
      by (simp add: checked_shl_def Cons.IH add.assoc del: of_nat_add of_nat_mult)
  next
    case False
    then show ?thesis by (simp add: hex_nibble_None_iff [THEN iffD2])
  qed
qed simp

definition hex_digits :: "u8 list \<Rightarrow> u8 list" where
  "hex_digits buf = takeWhile is_ascii_hexdigit (skip_prefix (dropWhile is_ascii_whitespace buf))"

lemma length_skip_prefix: "length (skip_prefix bs) \<le> length bs"
  by (auto simp: skip_prefix_def split: list.split)

lemma length_hex_digits: "length (hex_digits buf) \<le> length buf"
  unfolding hex_digits_def
  by (meson le_trans length_dropWhile_le length_skip_prefix length_takeWhile_le)

lemma scalar_eq:
  assumes "length buf < 2 ^ 32"
  shows "parse_hex_scalar buf =
    (if hex_digits buf = [] then None else Some (word_of_nat (hex_val 0 (hex_digits buf))))"
proof -
  have "length (hex_digits buf) < 2 ^ 32"
    using assms length_hex_digits [of buf] by linarith
  then have "(of_nat (length (hex_digits buf)) :: u32) = 0 \<longleftrightarrow> hex_digits buf = []"
    using nat_dvd_not_less [of "length (hex_digits buf)" "2 ^ 32"]
    by (cases "hex_digits buf = []") (simp_all add: word_of_nat_eq_0_iff)
  then show ?thesis
    using scalar_loop_val [of "skip_prefix (dropWhile is_ascii_whitespace buf)" 0 0]
    by (simp add: parse_hex_scalar_def hex_digits_def)
qed

subsection \<open>Printing\<close>

fun hex_fmt :: "nat \<Rightarrow> nat \<Rightarrow> u8 list" where
  "hex_fmt 0 m = []"
| "hex_fmt (Suc k) m =
     hex_fmt k (m div 16) @ [if m mod 16 < 10 then 48 + word_of_nat (m mod 16) else 87 + word_of_nat (m mod 16)]"

definition tsf_line :: "u64 \<Rightarrow> u8 list" where
  "tsf_line v = [48, 120] @ hex_fmt 16 (unat v) @ [10]"

lemma hex_val_append: "hex_val acc (xs @ ys) = hex_val (hex_val acc xs) ys"
  by (induction xs arbitrary: acc) simp_all

lemma nibble_cases: "(k::nat) < 16 \<Longrightarrow> P 0 \<Longrightarrow> P 1 \<Longrightarrow> P 2 \<Longrightarrow> P 3 \<Longrightarrow> P 4 \<Longrightarrow> P 5 \<Longrightarrow> P 6 \<Longrightarrow> P 7
   \<Longrightarrow> P 8 \<Longrightarrow> P 9 \<Longrightarrow> P 10 \<Longrightarrow> P 11 \<Longrightarrow> P 12 \<Longrightarrow> P 13 \<Longrightarrow> P 14 \<Longrightarrow> P 15 \<Longrightarrow> P k"
  by (auto simp: less_Suc_eq numeral_eq_Suc)

lemma hex_fmt_digit:
  assumes "k < 16"
  defines "d \<equiv> if k < 10 then 48 + word_of_nat k else 87 + word_of_nat k"
  shows "is_ascii_hexdigit d" "nibble_val d = k"
proof -
  show "is_ascii_hexdigit d" unfolding d_def using assms(1)
    by (rule nibble_cases) (simp_all add: is_ascii_hexdigit_def)
  show "nibble_val d = k" unfolding d_def using assms(1)
    by (rule nibble_cases) (simp_all add: nibble_val_def hex_nibble_def)
qed

lemma hex_fmt_props:
  "length (hex_fmt k m) = k" "list_all is_ascii_hexdigit (hex_fmt k m)"
  "hex_val acc (hex_fmt k m) = acc * 16 ^ k + m mod 16 ^ k"
proof (induction k arbitrary: m)
  case (Suc k)
  { case 1 show ?case by (simp add: Suc.IH) }
  { case 2 show ?case using hex_fmt_digit(1) [of "m mod 16"] by (simp add: Suc.IH) }
  { case 3
    show ?case using hex_fmt_digit(2) [of "m mod 16"]
      by (simp add: hex_val_append Suc.IH mod_mult2_eq algebra_simps) }
qed simp_all


lemma hex_digits_tsf_line: "hex_digits (tsf_line v) = hex_fmt 16 (unat v)"
proof -
  have "takeWhile is_ascii_hexdigit (hex_fmt 16 (unat v) @ [10]) = hex_fmt 16 (unat v)"
    using hex_fmt_props(2) [of 16 "unat v"]
    by (subst takeWhile_append2) (auto simp: list_all_iff is_ascii_hexdigit_def)
  then show ?thesis
    by (simp add: hex_digits_def tsf_line_def skip_prefix_def is_ascii_whitespace_def)
qed

lemma ssse3_val:
  assumes "length hex = 16" "list_all is_ascii_hexdigit hex"
  shows "parse_hex_16_ssse3 hex = word_of_nat (hex_val 0 hex)"
proof -
  obtain a b c d e f g h i j k l m n p q where
    hex: "hex = [a, b, c, d, e, f, g, h, i, j, k, l, m, n, p, q]"
    using list16 [OF assms(1)] by blast
  have "0 \<le> quad m n p q + 65536 * (quad i j k l + 65536 * (quad e f g h + 65536 * quad a b c d))"
    by (simp add: quad_bounds)
  then show ?thesis
    using quads_word [OF hex assms(2)] unfolding hex hex_val16
    by (simp only: word_of_int_nat [symmetric] int_nat_eq if_True)
qed

lemma hex_val_less: "hex_val acc ds < (acc + 1) * 16 ^ length ds"
proof (induction ds arbitrary: acc)
  case (Cons d ds)
  have "hex_val acc (d # ds) < (16 * acc + nibble_val d + 1) * 16 ^ length ds"
    using Cons.IH [of "16 * acc + nibble_val d"] by simp
  also have "\<dots> \<le> ((acc + 1) * 16) * 16 ^ length ds"
    using nibble_val_lt [of d] by (intro mult_le_mono1) simp
  also have "\<dots> = (acc + 1) * 16 ^ length (d # ds)"
    by (simp only: list.size power_add mult.assoc) simp
  finally show ?case .
qed simp

lemma hex_digits_prefixed:
  assumes "2 \<le> length buf" "buf ! 0 = 48" "buf ! 1 = 120 \<or> buf ! 1 = 88"
  shows "hex_digits buf = takeWhile is_ascii_hexdigit (drop 2 buf)"
proof -
  obtain a b rest where buf: "buf = a # b # rest"
    using assms(1) by (auto simp: numeral_2_eq_2 Suc_le_length_iff)
  with assms show ?thesis
    by (simp add: hex_digits_def skip_prefix_def is_ascii_whitespace_def)
qed

lemma takeWhile_exact:
  "list_all P (take n xs) \<Longrightarrow> n < length xs \<Longrightarrow> \<not> P (xs ! n) \<Longrightarrow> takeWhile P xs = take n xs"
  by (rule takeWhile_eq_take_P_nth) (auto simp: list_all_length)

lemma auto_eq_scalar:
  assumes "length buf < 2 ^ 32" "18 < length buf \<longrightarrow> \<not> is_ascii_hexdigit (buf ! 18)"
  shows "parse_hex_auto ssse3 buf = parse_hex_scalar buf"
proof (cases "19 \<le> length buf \<and> buf ! 0 = 48 \<and> (buf ! 1 = 120 \<or> buf ! 1 = 88) \<and> ssse3
         \<and> list_all is_ascii_hexdigit (take 16 (drop 2 buf))")
  case True
  then have "takeWhile is_ascii_hexdigit (drop 2 buf) = take 16 (drop 2 buf)"
    using assms(2) by (intro takeWhile_exact) auto
  with True have "hex_digits buf = take 16 (drop 2 buf)"
    by (simp add: hex_digits_prefixed)
  with True show ?thesis
    by (auto simp: parse_hex_auto_def scalar_eq [OF assms(1)] ssse3_val)
next
  case False
  then show ?thesis unfolding parse_hex_auto_def by (rule if_not_P)
qed

lemma length_tsf_line [simp]: "length (tsf_line v) = 19"
  by (simp add: tsf_line_def hex_fmt_props)

lemma scalar_tsf_line: "parse_hex_scalar (tsf_line v) = Some v"
proof -
  have "hex_fmt 16 (unat v) \<noteq> []" using hex_fmt_props(1) [of 16 "unat v"] by auto
  moreover have "unat v < 16 ^ 16" using unsigned_less [of v] by simp
  ultimately show ?thesis
    by (simp add: scalar_eq hex_digits_tsf_line hex_fmt_props)
qed

lemma auto_tsf_line: "parse_hex_auto ssse3 (tsf_line v) = Some v"
proof -
  have "tsf_line v ! 18 = 10" by (simp add: tsf_line_def nth_append hex_fmt_props)
  then have "parse_hex_auto ssse3 (tsf_line v) = parse_hex_scalar (tsf_line v)"
    by (intro auto_eq_scalar) (simp_all add: is_ascii_hexdigit_def)
  then show ?thesis by (simp add: scalar_tsf_line)
qed

section \<open>Properties\<close>

text \<open>C13: on sixteen hex digits, in either case, the SSSE3 pipeline returns exactly the number they denote.\<close>

theorem parse_hex_16_ssse3_correct:
  assumes "length hex = 16" "list_all is_ascii_hexdigit hex"
  shows "unat (parse_hex_16_ssse3 hex) = hex_val 0 hex"
  using ssse3_val [OF assms] hex_val_less [of 0 hex] assms(1)
  by (simp add: unat_of_nat take_bit_nat_eq_self)

theorem parse_hex_16_ssse3_correct_witness:
  "unat (parse_hex_16_ssse3 [48, 49, 50, 51, 52, 53, 54, 55, 56, 57, 97, 98, 67, 100, 69, 102])
     = 0x0123456789abcdef"
  by (subst parse_hex_16_ssse3_correct)
     (simp_all add: is_ascii_hexdigit_def nibble_val_def hex_nibble_def)

text \<open>The scalar parser skips leading whitespace and one 0x or 0X, then returns the value of the longest run of hex digits modulo 2^64, and None when there is no digit; the checked shift never reports an overflow.\<close>

theorem parse_hex_scalar_value:
  assumes "length buf < 2 ^ 32"
  shows "parse_hex_scalar buf =
    (let ds = takeWhile is_ascii_hexdigit (skip_prefix (dropWhile is_ascii_whitespace buf))
     in if ds = [] then None else Some (word_of_nat (hex_val 0 ds mod 2 ^ 64)))"
proof -
  have "(word_of_nat (n mod 2 ^ 64) :: u64) = word_of_nat n" for n
    by (simp add: word_of_nat_eq_iff take_bit_eq_mod)
  then show ?thesis
    by (simp add: scalar_eq [OF assms] hex_digits_def Let_def)
qed

theorem parse_hex_scalar_value_witness:
  "parse_hex_scalar [32, 48, 120, 49, 70, 10] = Some 31"
  by (subst parse_hex_scalar_value)
     (simp_all add: is_ascii_whitespace_def skip_prefix_def is_ascii_hexdigit_def nibble_val_def hex_nibble_def)

text \<open>C17: the parse does not depend on the CPU: with SSSE3 and without it the dispatcher returns the same value on every input whose nineteenth byte is not a further hex digit.\<close>

theorem parse_hex_auto_cpu_independent:
  assumes "length buf < 2 ^ 32" "18 < length buf \<longrightarrow> \<not> is_ascii_hexdigit (buf ! 18)"
  shows "parse_hex_auto True buf = parse_hex_auto False buf"
  using auto_eq_scalar [OF assms] by simp

theorem parse_hex_auto_cpu_independent_witness:
  "parse_hex_auto True [48, 120, 65, 65, 65, 65, 65, 65, 65, 65, 65, 65, 65, 65, 65, 65, 65, 65, 10]
     = parse_hex_auto False [48, 120, 65, 65, 65, 65, 65, 65, 65, 65, 65, 65, 65, 65, 65, 65, 65, 65, 10]"
  by (rule parse_hex_auto_cpu_independent) (simp_all add: is_ascii_hexdigit_def)

text \<open>On a 0x prefix followed by more than sixteen hex digits the two paths disagree: the SSSE3 path returns the value of the first sixteen digits, the scalar path the value of all of them modulo 2^64.\<close>

theorem parse_hex_auto_long_digits:
  assumes "16 < length ds" "length ds < 2 ^ 31" "list_all is_ascii_hexdigit ds" "x = 120 \<or> x = 88"
  shows "parse_hex_auto True (48 # x # ds) = Some (word_of_nat (hex_val 0 (take 16 ds))) \<and>
         parse_hex_auto False (48 # x # ds) = Some (word_of_nat (hex_val 0 ds))"
proof
  have "list_all is_ascii_hexdigit (take 16 ds)"
    using assms(3) by (auto simp: list_all_iff dest: in_set_takeD)
  with assms show "parse_hex_auto True (48 # x # ds) = Some (word_of_nat (hex_val 0 (take 16 ds)))"
    by (auto simp: parse_hex_auto_def ssse3_val)
  have "takeWhile is_ascii_hexdigit ds = ds"
    using assms(3) by (auto simp: list_all_iff takeWhile_eq_all_conv)
  then have "hex_digits (48 # x # ds) = ds"
    using assms(4) by (simp add: hex_digits_prefixed)
  with assms show "parse_hex_auto False (48 # x # ds) = Some (word_of_nat (hex_val 0 ds))"
    by (auto simp: parse_hex_auto_def scalar_eq)
qed

theorem parse_hex_auto_long_digits_witness:
  "parse_hex_auto True [48, 120, 48, 48, 48, 48, 48, 48, 48, 48, 48, 48, 48, 48, 48, 48, 48, 48, 49] = Some 0 \<and>
   parse_hex_auto False [48, 120, 48, 48, 48, 48, 48, 48, 48, 48, 48, 48, 48, 48, 48, 48, 48, 48, 49] = Some 1"
  using parse_hex_auto_long_digits
    [of "[48, 48, 48, 48, 48, 48, 48, 48, 48, 48, 48, 48, 48, 48, 48, 48, 49]" 120]
  by (simp add: is_ascii_hexdigit_def nibble_val_def hex_nibble_def)

text \<open>C16: round trip: the scalar parser and the dispatcher, with SSSE3 or without, read back every 64-bit TSF from the line 0x%016llx that debugfs prints.\<close>

theorem parse_hex_auto_tsf_line:
  "parse_hex_scalar (tsf_line v) = Some v \<and> (\<forall>ssse3. parse_hex_auto ssse3 (tsf_line v) = Some v)"
  by (simp add: scalar_tsf_line auto_tsf_line)

end
