(* ===== verification/Debugfs.thy ===== *)
theory Debugfs
  imports Hex Os
begin

text \<open>
  The cached TSF file of the debugfs tool (src/bin/tsf\_sync\_debugfs/debugfs.rs): opening with
  the pread probe, the read and write paths with their lseek fallbacks, and the decimal
  formatter, whose buffer accesses are bounds-checked as in Rust.  The locale \<open>tsf_port\<close> is
  what the synchronisation loops need of a TSF file; \<open>debugfs_file\<close> states the documented
  behaviour of the kernel's file, and the first follows from the second.
\<close>

record tsf_file =
  file_fd :: int
  pread_ok :: bool

section \<open>Decimal formatting\<close>

definition store :: "u8 list \<Rightarrow> nat \<Rightarrow> u8 \<Rightarrow> u8 list option" where
  "store buf i x = (if i < length buf then Some (buf[i := x]) else None)"

function digits_loop :: "u64 \<Rightarrow> nat \<Rightarrow> u8 list \<Rightarrow> (nat \<times> u8 list) option" where
  "digits_loop val pos buf =
     (if 0 < val
      then do {
        buf' \<leftarrow> store buf pos (48 + ucast (val mod 10));
        digits_loop (val div 10) (pos + 1) buf'
      }
      else Some (pos, buf))"
  by pat_completeness auto
termination
  by (relation "measure (\<lambda>(val, pos, buf). unat val)")
    (auto simp: unat_div_distrib word_less_nat_alt)

declare digits_loop.simps [simp del]

definition format_u64_decimal :: "u64 \<Rightarrow> u8 list \<Rightarrow> (nat \<times> u8 list) option" where
  "format_u64_decimal val buf =
     (if val = 0
      then do {
        buf \<leftarrow> store buf 0 48;
        buf \<leftarrow> store buf 1 10;
        Some (2, buf)
      }
      else do {
        (pos, buf) \<leftarrow> digits_loop val 0 buf;
        (if pos \<le> length buf
         then do {
           buf \<leftarrow> store (rev (take pos buf) @ drop pos buf) pos 10;
           Some (pos + 1, buf)
         }
         else None)
      })"

section \<open>The TSF file\<close>

definition tsf_open :: "'w tsf_sys \<Rightarrow> string \<Rightarrow> 'w \<Rightarrow> (io_error + tsf_file) \<times> 'w" where
  "tsf_open sys path w =
     (case sys_open sys path w of
        (Inl e, w) \<Rightarrow> (Inl e, w)
      | (Inr fd, w) \<Rightarrow>
          (case sys_pread sys fd [0] 0 w of
             ((r, _), w) \<Rightarrow> (Inr \<lparr>file_fd = fd, pread_ok = 0 \<le> r\<rparr>, w)))"

definition read_raw :: "'w tsf_sys \<Rightarrow> tsf_file \<Rightarrow> u8 list \<Rightarrow> 'w \<Rightarrow> (io_error + nat) \<times> u8 list \<times> 'w" where
  "read_raw sys f buf w =
     (if pread_ok f
      then (case sys_pread sys (file_fd f) buf 0 w of
              ((r, buf), w) \<Rightarrow>
                if r < 0 then (Inl (OsError (word_of_int (- r))), buf, w)
                else (Inr (nat r), buf, w))
      else (let w = sys_lseek sys (file_fd f) 0 w
            in case sys_read sys (file_fd f) buf w of
                 ((r, buf), w) \<Rightarrow>
                   if r < 0 then (Inl (OsError (sys_errno sys w)), buf, w)
                   else (Inr (nat r), buf, w)))"

definition write_raw :: "'w tsf_sys \<Rightarrow> tsf_file \<Rightarrow> u8 list \<Rightarrow> 'w \<Rightarrow> (io_error + unit) \<times> 'w" where
  "write_raw sys f buf w =
     (let (written, w) =
        (if pread_ok f then sys_pwrite sys (file_fd f) buf 0 w
         else let w = sys_lseek sys (file_fd f) 0 w in sys_write sys (file_fd f) buf w)
      in if written < 0 then (Inl (OsError (word_of_int (- written))), w) else (Inr (), w))"

text \<open>The outer option is \<open>None\<close> for a panic (a slice or an index out of range).\<close>

definition read_tsf :: "'w tsf_sys \<Rightarrow> bool \<Rightarrow> tsf_file \<Rightarrow> 'w \<Rightarrow> (io_error + u64) option \<times> 'w" where
  "read_tsf sys ssse3 f w =
     (case read_raw sys f (replicate 64 0) w of
        (Inl e, _, w) \<Rightarrow> (Some (Inl e), w)
      | (Inr n, buf, w) \<Rightarrow>
          (if n \<le> length buf
           then case parse_hex_auto ssse3 (take n buf) of
                  None \<Rightarrow> (Some (Inl (CustomError InvalidData ''no hex digits in TSF value'')), w)
                | Some v \<Rightarrow> (Some (Inr v), w)
           else (None, w)))"

definition write_tsf :: "'w tsf_sys \<Rightarrow> tsf_file \<Rightarrow> u64 \<Rightarrow> 'w \<Rightarrow> (io_error + unit) option \<times> 'w" where
  "write_tsf sys f val w =
     (case format_u64_decimal val (replicate 21 0) of
        None \<Rightarrow> (None, w)
      | Some (len, buf) \<Rightarrow>
          (if len \<le> length buf
           then case write_raw sys f (take len buf) w of (r, w) \<Rightarrow> (Some r, w)
           else (None, w)))"

section \<open>The decimal lines\<close>


fun dec_fmt :: "nat \<Rightarrow> u8 list" where
  "dec_fmt n = (if n = 0 then [] else dec_fmt (n div 10) @ [48 + word_of_nat (n mod 10)])"

declare dec_fmt.simps [simp del]

definition dec_digit_val :: "u8 \<Rightarrow> nat" where
  "dec_digit_val d = unat d - 48"

fun dec_val :: "nat \<Rightarrow> u8 list \<Rightarrow> nat" where
  "dec_val acc [] = acc"
| "dec_val acc (d # ds) = dec_val (10 * acc + dec_digit_val d) ds"

definition is_ascii_digit :: "u8 \<Rightarrow> bool" where
  "is_ascii_digit b \<longleftrightarrow> 48 \<le> b \<and> b \<le> 57"

lemma dec_fmt_0 [simp]: "dec_fmt 0 = []"
  by (simp add: dec_fmt.simps)

lemma dec_fmt_step: "0 < n \<Longrightarrow> dec_fmt n = dec_fmt (n div 10) @ [48 + word_of_nat (n mod 10)]"
  by (subst dec_fmt.simps) simp

lemma dec_val_append: "dec_val acc (xs @ ys) = dec_val (dec_val acc xs) ys"
  by (induction xs arbitrary: acc) simp_all

lemma dec_digit:
  assumes "k < 10"
  shows "dec_digit_val (48 + word_of_nat k) = k" "is_ascii_digit (48 + word_of_nat k)"
proof -
  have "unat (48 + word_of_nat k :: u8) = 48 + k"
    using assms by (simp add: unat_word_ariths unat_of_nat take_bit_nat_eq_self)
  then show "dec_digit_val (48 + word_of_nat k) = k" "is_ascii_digit (48 + word_of_nat k)"
    using assms by (simp_all add: dec_digit_val_def is_ascii_digit_def word_le_nat_alt)
qed

lemma dec_fmt_digits: "list_all is_ascii_digit (dec_fmt n)"
proof (induction n rule: dec_fmt.induct)
  case (1 n)
  then show ?case by (cases "n = 0") (simp_all add: dec_fmt_step dec_digit)
qed

lemma dec_val_fmt: "dec_val 0 (dec_fmt n) = n"
proof (induction n rule: dec_fmt.induct)
  case (1 n)
  then show ?case by (cases "n = 0") (simp_all add: dec_fmt_step dec_val_append dec_digit)
qed

lemma length_dec_fmt: "n < 10 ^ k \<Longrightarrow> length (dec_fmt n) \<le> k"
proof (induction k arbitrary: n)
  case (Suc k)
  then have "n div 10 < 10 ^ k" by (simp add: less_mult_imp_div_less mult.commute)
  then show ?case using Suc.IH by (cases "n = 0") (simp_all add: dec_fmt_step)
qed simp

lemma length_dec_fmt_u64: "length (dec_fmt (unat (v :: u64))) \<le> 20"
proof -
  have "unat v < 2 ^ 64" using unsigned_less [of v] by simp
  then have "unat v < 10 ^ 20" by simp
  then show ?thesis by (rule length_dec_fmt)
qed

lemma digits_loop_fmt:
  "pos + length (dec_fmt (unat val)) \<le> length buf \<Longrightarrow>
   digits_loop val pos buf = Some (pos + length (dec_fmt (unat val)),
     take pos buf @ rev (dec_fmt (unat val)) @ drop (pos + length (dec_fmt (unat val))) buf)"
proof (induction val pos buf rule: digits_loop.induct)
  case (1 val pos buf)
  show ?case
  proof (cases "0 < val")
    case True
    let ?d = "48 + ucast (val mod 10) :: u8"
    have pos: "0 < unat val" using True by (simp add: word_less_nat_alt)
    have d: "?d = 48 + word_of_nat (unat val mod 10)"
      using of_nat_unat [of "val mod 10", where ?'a = "8 word"] by (simp add: unat_mod_distrib)
    have fmt: "dec_fmt (unat val) = dec_fmt (unat (val div 10)) @ [?d]"
      using pos by (simp add: dec_fmt_step unat_div_distrib d)
    have st: "store buf pos ?d = Some (buf[pos := ?d])"
      using "1.prems" fmt by (simp add: store_def)
    have "digits_loop val pos buf = digits_loop (val div 10) (pos + 1) (buf[pos := ?d])"
      using True st by (subst digits_loop.simps) simp
    also have "\<dots> = Some (pos + 1 + length (dec_fmt (unat (val div 10))),
       take (pos + 1) (buf[pos := ?d]) @ rev (dec_fmt (unat (val div 10))) @
       drop (pos + 1 + length (dec_fmt (unat (val div 10)))) (buf[pos := ?d]))"
      using "1.prems" fmt by (intro "1.IH" [OF True st]) simp
    finally show ?thesis
      using "1.prems" fmt by (simp add: take_Suc_conv_app_nth take_update_cancel drop_update_cancel)
  next
    case False
    then have "val = 0" by (simp add: word_gt_0)
    then show ?thesis by (subst digits_loop.simps) simp
  qed
qed

definition dec_line :: "u64 \<Rightarrow> u8 list" where
  "dec_line v = (if v = 0 then [48] else dec_fmt (unat v)) @ [10]"

lemma format_line:
  assumes "length buf = 21"
  shows "\<exists>buf'. format_u64_decimal v buf = Some (length (dec_line v), buf') \<and>
     length buf' = 21 \<and> take (length (dec_line v)) buf' = dec_line v \<and> length (dec_line v) \<le> 21"
proof (cases "v = 0")
  case True
  with assms show ?thesis
    by (cases buf; cases "tl buf") (simp_all add: format_u64_decimal_def store_def dec_line_def)
next
  case False
  let ?n = "length (dec_fmt (unat v))"
  have n: "?n \<le> 20" by (rule length_dec_fmt_u64)
  have "digits_loop v 0 buf = Some (?n, rev (dec_fmt (unat v)) @ drop ?n buf)"
    using n assms by (subst digits_loop_fmt) simp_all
  moreover have "length (drop ?n buf) = 21 - ?n" using assms by simp
  moreover from this n obtain c rest where "drop ?n buf = c # rest"
    by (cases "drop ?n buf") simp_all
  ultimately show ?thesis
    using False assms n
    by (simp add: format_u64_decimal_def store_def dec_line_def list_update_append)
qed

lemma parse_hex_auto_None:
  assumes "length buf = 64" "hex_digits (take n buf) = []"
  shows "parse_hex_auto ssse3 (take n buf) = None"
proof -
  have len: "length (take n buf) < 2 ^ 32" using assms(1) by simp
  have "\<not> list_all is_ascii_hexdigit (take 16 (drop 2 (take n buf)))"
    if pre: "19 \<le> length (take n buf)" "take n buf ! 0 = 48" "take n buf ! 1 = 120 \<or> take n buf ! 1 = 88"
  proof -
    have "takeWhile is_ascii_hexdigit (drop 2 (take n buf)) = []"
      using assms(2) hex_digits_prefixed [of "take n buf"] pre by simp
    moreover obtain c cs where "drop 2 (take n buf) = c # cs"
      using pre(1) by (cases "drop 2 (take n buf)") auto
    ultimately show ?thesis by (auto split: if_splits)
  qed
  then show ?thesis
    using scalar_eq [OF len] assms(2) by (auto simp: parse_hex_auto_def)
qed

section \<open>The interface of a TSF file\<close>

text \<open>
  What the loops rely on: on a healthy file a read returns the radio's TSF and changes
  nothing, a write sets the TSF of that radio and no other.
\<close>

locale tsf_port =
  fixes rd :: "'k \<Rightarrow> 'w \<Rightarrow> (io_error + u64) option \<times> 'w"
    and wr :: "'k \<Rightarrow> u64 \<Rightarrow> 'w \<Rightarrow> (io_error + unit) option \<times> 'w"
    and tsf :: "'k \<Rightarrow> 'w \<Rightarrow> u64"
    and files :: "'k set"
    and ok :: "'w \<Rightarrow> bool"
  assumes rd_ok: "k \<in> files \<Longrightarrow> ok w \<Longrightarrow>
      \<exists>w'. rd k w = (Some (Inr (tsf k w)), w') \<and> ok w' \<and> (\<forall>j \<in> files. tsf j w' = tsf j w)"
    and wr_ok: "k \<in> files \<Longrightarrow> ok w \<Longrightarrow>
      \<exists>w'. wr k v w = (Some (Inr ()), w') \<and> ok w' \<and> tsf k w' = v \<and>
           (\<forall>j \<in> files. j \<noteq> k \<longrightarrow> tsf j w' = tsf j w)"

text \<open>
  The documented kernel behaviour behind it: reading prints the TSF as 0x%016llx and a
  newline, writing a decimal line sets it, for the descriptors \<open>fds\<close>.  In the first locale
  the file supports pread, in the second the tool seeks to 0 first.
\<close>

locale debugfs_pread =
  fixes sys :: "'w tsf_sys" and dtsf :: "int \<Rightarrow> 'w \<Rightarrow> u64" and fds :: "int set" and dok :: "'w \<Rightarrow> bool"
  assumes pread_line: "fd \<in> fds \<Longrightarrow> dok w \<Longrightarrow> length buf = 64 \<Longrightarrow>
      \<exists>w'. sys_pread sys fd buf 0 w = ((19, tsf_line (dtsf fd w) @ drop 19 buf), w') \<and> dok w' \<and>
           (\<forall>d \<in> fds. dtsf d w' = dtsf d w)"
    and pwrite_line: "fd \<in> fds \<Longrightarrow> dok w \<Longrightarrow> ds \<noteq> [] \<Longrightarrow> list_all is_ascii_digit ds \<Longrightarrow> dec_val 0 ds < 2 ^ 64 \<Longrightarrow>
      \<exists>w'. sys_pwrite sys fd (ds @ [10]) 0 w = (int (length ds + 1), w') \<and> dok w' \<and>
           dtsf fd w' = word_of_nat (dec_val 0 ds) \<and> (\<forall>d \<in> fds. d \<noteq> fd \<longrightarrow> dtsf d w' = dtsf d w)"

locale debugfs_seek =
  fixes sys :: "'w tsf_sys" and dtsf :: "int \<Rightarrow> 'w \<Rightarrow> u64" and fds :: "int set" and dok :: "'w \<Rightarrow> bool"
  assumes read_line: "fd \<in> fds \<Longrightarrow> dok w \<Longrightarrow> length buf = 64 \<Longrightarrow>
      \<exists>w'. sys_read sys fd buf (sys_lseek sys fd 0 w) = ((19, tsf_line (dtsf fd w) @ drop 19 buf), w') \<and> dok w' \<and>
           (\<forall>d \<in> fds. dtsf d w' = dtsf d w)"
    and write_line: "fd \<in> fds \<Longrightarrow> dok w \<Longrightarrow> ds \<noteq> [] \<Longrightarrow> list_all is_ascii_digit ds \<Longrightarrow> dec_val 0 ds < 2 ^ 64 \<Longrightarrow>
      \<exists>w'. sys_write sys fd (ds @ [10]) (sys_lseek sys fd 0 w) = (int (length ds + 1), w') \<and> dok w' \<and>
           dtsf fd w' = word_of_nat (dec_val 0 ds) \<and> (\<forall>d \<in> fds. d \<noteq> fd \<longrightarrow> dtsf d w' = dtsf d w)"

lemma dec_line_digits:
  obtains ds where "dec_line v = ds @ [10]" "ds \<noteq> []" "list_all is_ascii_digit ds" "dec_val 0 ds = unat v"
proof
  show "dec_line v = (if v = 0 then [48] else dec_fmt (unat v)) @ [10]" by (simp add: dec_line_def)
  show "(if v = 0 then [48] else dec_fmt (unat v)) \<noteq> []"
    by (simp add: dec_fmt_step unat_gt_0)
qed (simp_all add: dec_fmt_digits dec_val_fmt is_ascii_digit_def dec_digit_val_def)

lemma write_tsf_line:
  "write_tsf sys f v w = (case write_raw sys f (dec_line v) w of (r, w) \<Rightarrow> (Some r, w))"
proof -
  obtain buf' where "format_u64_decimal v (replicate 21 0) = Some (length (dec_line v), buf')"
     "length buf' = 21" "take (length (dec_line v)) buf' = dec_line v" "length (dec_line v) \<le> 21"
    using format_line [of "replicate 21 0" v] by auto
  then show ?thesis by (simp add: write_tsf_def)
qed

lemma tsf_file_eqI: "file_fd j = file_fd k \<Longrightarrow> pread_ok j = pread_ok k \<Longrightarrow> j = (k :: tsf_file)"
  by simp

context debugfs_pread begin

lemma read_tsf_returns:
  assumes "file_fd f \<in> fds" "pread_ok f" "dok w"
  shows "\<exists>w'. read_tsf sys ssse3 f w = (Some (Inr (dtsf (file_fd f) w)), w') \<and> dok w' \<and>
      (\<forall>d \<in> fds. dtsf d w' = dtsf d w)"
  using pread_line [OF assms(1,3), of "replicate 64 0"] assms(2)
  by (auto simp: read_tsf_def read_raw_def auto_tsf_line)

lemma write_tsf_sets:
  assumes "file_fd f \<in> fds" "pread_ok f" "dok w"
  shows "\<exists>w'. write_tsf sys f v w = (Some (Inr ()), w') \<and> dok w' \<and> dtsf (file_fd f) w' = v \<and>
      (\<forall>d \<in> fds. d \<noteq> file_fd f \<longrightarrow> dtsf d w' = dtsf d w)"
proof -
  obtain ds where ds: "dec_line v = ds @ [10]" "ds \<noteq> []" "list_all is_ascii_digit ds" "dec_val 0 ds = unat v"
    by (rule dec_line_digits)
  have "dec_val 0 ds < 2 ^ 64" using ds(4) unsigned_less [of v] by simp
  from pwrite_line [OF assms(1,3) ds(2,3) this] ds assms(2) show ?thesis
    by (auto simp: write_tsf_line write_raw_def)
qed

end

sublocale debugfs_pread \<subseteq> port: tsf_port "\<lambda>f. read_tsf sys ssse3 f" "write_tsf sys"
   "\<lambda>f. dtsf (file_fd f)" "{f. file_fd f \<in> fds \<and> pread_ok f}" dok for ssse3
proof (unfold_locales, goal_cases)
  case (1 k w)
  then show ?case using read_tsf_returns [of k w ssse3] by auto
next
  case (2 k w v)
  then show ?case using write_tsf_sets [of k w v] by (auto dest: tsf_file_eqI)
qed

context debugfs_seek begin

lemma read_tsf_returns:
  assumes "file_fd f \<in> fds" "\<not> pread_ok f" "dok w"
  shows "\<exists>w'. read_tsf sys ssse3 f w = (Some (Inr (dtsf (file_fd f) w)), w') \<and> dok w' \<and>
      (\<forall>d \<in> fds. dtsf d w' = dtsf d w)"
  using read_line [OF assms(1,3), of "replicate 64 0"] assms(2)
  by (auto simp: read_tsf_def read_raw_def auto_tsf_line)

lemma write_tsf_sets:
  assumes "file_fd f \<in> fds" "\<not> pread_ok f" "dok w"
  shows "\<exists>w'. write_tsf sys f v w = (Some (Inr ()), w') \<and> dok w' \<and> dtsf (file_fd f) w' = v \<and>
      (\<forall>d \<in> fds. d \<noteq> file_fd f \<longrightarrow> dtsf d w' = dtsf d w)"
proof -
  obtain ds where ds: "dec_line v = ds @ [10]" "ds \<noteq> []" "list_all is_ascii_digit ds" "dec_val 0 ds = unat v"
    by (rule dec_line_digits)
  have "dec_val 0 ds < 2 ^ 64" using ds(4) unsigned_less [of v] by simp
  from write_line [OF assms(1,3) ds(2,3) this] ds assms(2) show ?thesis
    by (auto simp: write_tsf_line write_raw_def)
qed

end

sublocale debugfs_seek \<subseteq> port: tsf_port "\<lambda>f. read_tsf sys ssse3 f" "write_tsf sys"
   "\<lambda>f. dtsf (file_fd f)" "{f. file_fd f \<in> fds \<and> \<not> pread_ok f}" dok for ssse3
proof (unfold_locales, goal_cases)
  case (1 k w)
  then show ?case using read_tsf_returns [of k w ssse3] by auto
next
  case (2 k w v)
  then show ?case using write_tsf_sets [of k w v] by (auto dest: tsf_file_eqI)
qed

section \<open>A simulated debugfs\<close>

text \<open>
  An instance of the system calls that behaves as the kernel documents: one TSF and one file
  offset per descriptor.  With \<open>pread_support\<close> false, pread and pwrite answer ESPIPE (-29).
\<close>

record debugfs_sim =
  sim_tsf :: "int \<Rightarrow> u64"
  sim_off :: "int \<Rightarrow> nat"

definition sim_fill :: "u8 list \<Rightarrow> u8 list \<Rightarrow> int \<times> u8 list" where
  "sim_fill src buf =
     (let n = min (length src) (length buf) in (int n, take n src @ drop n buf))"

definition sim_store :: "int \<Rightarrow> u8 list \<Rightarrow> debugfs_sim \<Rightarrow> debugfs_sim" where
  "sim_store fd bs w = w\<lparr>sim_tsf := (sim_tsf w)(fd := word_of_nat (dec_val 0 (takeWhile is_ascii_digit bs)))\<rparr>"

definition sim_sys :: "bool \<Rightarrow> debugfs_sim tsf_sys" where
  "sim_sys pread_support = \<lparr>
     sys_open = (\<lambda>path w. (Inr (int (length path)), w)),
     sys_pread = (\<lambda>fd buf off w.
        if pread_support then (sim_fill (drop (nat off) (tsf_line (sim_tsf w fd))) buf, w) else ((- 29, buf), w)),
     sys_pwrite = (\<lambda>fd bs off w. if pread_support then (int (length bs), sim_store fd bs w) else (- 29, w)),
     sys_lseek = (\<lambda>fd off w. w\<lparr>sim_off := (sim_off w)(fd := nat off)\<rparr>),
     sys_read = (\<lambda>fd buf w.
        (let r = sim_fill (drop (sim_off w fd) (tsf_line (sim_tsf w fd))) buf
         in (r, w\<lparr>sim_off := (sim_off w)(fd := sim_off w fd + nat (fst r))\<rparr>))),
     sys_write = (\<lambda>fd bs w. (int (length bs), sim_store fd bs w)),
     sys_errno = (\<lambda>w. 0)\<rparr>"

lemma takeWhile_digits_line: "list_all is_ascii_digit ds \<Longrightarrow> takeWhile is_ascii_digit (ds @ [10]) = ds"
  by (subst takeWhile_append2) (auto simp: list_all_iff is_ascii_digit_def)

lemma sim_fill_line: "length buf = 64 \<Longrightarrow> sim_fill (tsf_line v) buf = (19, tsf_line v @ drop 19 buf)"
  by (simp add: sim_fill_def)

interpretation sim: debugfs_pread "sim_sys True" "\<lambda>fd w. sim_tsf w fd" UNIV "\<lambda>_. True"
  by unfold_locales (simp_all add: sim_sys_def sim_fill_line sim_store_def takeWhile_digits_line)

interpretation sim_seek: debugfs_seek "sim_sys False" "\<lambda>fd w. sim_tsf w fd" UNIV "\<lambda>_. True"
  by unfold_locales (simp_all add: sim_sys_def sim_fill_line sim_store_def takeWhile_digits_line)

section \<open>Properties\<close>

text \<open>Formatting a TSF never leaves the 21-byte buffer, for any 64-bit value: it yields at most 21 bytes, decimal digits and one newline, and the digits denote the value.\<close>

theorem format_u64_decimal_correct:
  assumes "length buf = 21"
  shows "\<exists>n buf'. format_u64_decimal v buf = Some (n, buf') \<and> 2 \<le> n \<and> n \<le> 21 \<and> length buf' = 21 \<and>
     buf' ! (n - 1) = 10 \<and> list_all is_ascii_digit (take (n - 1) buf') \<and>
     dec_val 0 (take (n - 1) buf') = unat v"
proof -
  obtain buf' where *: "format_u64_decimal v buf = Some (length (dec_line v), buf')"
     "length buf' = 21" "take (length (dec_line v)) buf' = dec_line v" "length (dec_line v) \<le> 21"
    using format_line [OF assms] by blast
  define ds where "ds = (if v = 0 then [48] else dec_fmt (unat v))"
  have line: "dec_line v = ds @ [10]" by (simp add: ds_def dec_line_def)
  have ne: "ds \<noteq> []" by (simp add: ds_def dec_fmt_step word_neq_0_conv [symmetric] unat_gt_0 )
  have "buf' ! (length (dec_line v) - 1) = dec_line v ! (length (dec_line v) - 1)"
    using *(3) line by (metis diff_Suc_1 length_append_singleton lessI nth_take)
  moreover have "take (length (dec_line v) - 1) buf' = ds"
    using *(3) line by (metis append_eq_conv_conj diff_Suc_1 length_append_singleton take_take min.absorb1 le_add1 plus_1_eq_Suc Suc_n_not_le_n nat_le_linear append_take_drop_id butlast_snoc butlast_take)
  moreover have "list_all is_ascii_digit ds" "dec_val 0 ds = unat v"
    by (simp_all add: ds_def dec_fmt_digits dec_val_fmt is_ascii_digit_def dec_digit_val_def)
  ultimately show ?thesis
    using * line ne by (cases ds) auto
qed

theorem format_u64_decimal_correct_witness:
  "\<exists>n buf'. format_u64_decimal 907 (replicate 21 0) = Some (n, buf') \<and> 2 \<le> n \<and> n \<le> 21 \<and> length buf' = 21 \<and>
     buf' ! (n - 1) = 10 \<and> list_all is_ascii_digit (take (n - 1) buf') \<and>
     dec_val 0 (take (n - 1) buf') = unat (907 :: u64)"
  by (rule format_u64_decimal_correct) simp

text \<open>C18: on a debugfs TSF file that supports pread, what write_tsf stores is what read_tsf returns, for every 64-bit value and whichever parser the CPU selects, and neither call panics.\<close>

theorem write_then_read_tsf:
  assumes "debugfs_pread sys dtsf fds dok" "file_fd f \<in> fds" "pread_ok f" "dok w"
  shows "\<exists>w1 w2. write_tsf sys f v w = (Some (Inr ()), w1) \<and> read_tsf sys ssse3 f w1 = (Some (Inr v), w2)"
proof -
  obtain w1 where w1: "write_tsf sys f v w = (Some (Inr ()), w1)" "dok w1" "dtsf (file_fd f) w1 = v"
    using debugfs_pread.write_tsf_sets [OF assms] by blast
  then show ?thesis
    using debugfs_pread.read_tsf_returns [OF assms(1-3) w1(2), of ssse3] by auto
qed

theorem write_then_read_tsf_witness:
  "\<exists>w1 w2. write_tsf (sim_sys True) \<lparr>file_fd = 3, pread_ok = True\<rparr> 1000000 \<lparr>sim_tsf = (\<lambda>_. 7), sim_off = (\<lambda>_. 0)\<rparr>
       = (Some (Inr ()), w1) \<and>
     read_tsf (sim_sys True) True \<lparr>file_fd = 3, pread_ok = True\<rparr> w1 = (Some (Inr 1000000), w2)"
  by (rule write_then_read_tsf [OF sim.debugfs_pread_axioms]) simp_all

text \<open>A read that returns no hex digit after the optional whitespace and 0x is reported as InvalidData, never as a value and never as a panic; a failing pread is reported with its errno.\<close>

theorem read_tsf_errors:
  assumes "pread_ok f" "sys_pread sys (file_fd f) (replicate 64 0) 0 w = ((r, buf), w')"
    "length buf = 64" "r \<le> 64"
    "hex_digits (take (nat r) buf) = []"
  shows "read_tsf sys ssse3 f w =
    (Some (Inl (if r < 0 then OsError (word_of_int (- r))
                else CustomError InvalidData ''no hex digits in TSF value'')), w')"
proof -
  have "parse_hex_auto ssse3 (take (nat r) buf) = None"
    using assms(3,5) by (rule parse_hex_auto_None)
  with assms show ?thesis
    by (auto simp: read_tsf_def read_raw_def)
qed

theorem read_tsf_errors_witness:
  "read_tsf ((sim_sys True)\<lparr>sys_pread := (\<lambda>_ buf _ w. ((1, 10 # tl buf), w))\<rparr>) True \<lparr>file_fd = 3, pread_ok = True\<rparr> \<lparr>sim_tsf = (\<lambda>_. 7), sim_off = (\<lambda>_. 0)\<rparr> =
     (Some (Inl (if (1::int) < 0 then OsError (word_of_int (- 1))
                else CustomError InvalidData ''no hex digits in TSF value'')), \<lparr>sim_tsf = (\<lambda>_. 7), sim_off = (\<lambda>_. 0)\<rparr>)"
  by (rule read_tsf_errors [where buf = "10 # replicate 63 0"])
     (simp_all add: numeral_eq_Suc hex_digits_def skip_prefix_def is_ascii_whitespace_def)

text \<open>When pread is unsupported and the fallback write fails, write_tsf reports errno 1 (EPERM) whatever error the kernel set, because libc's -1 is negated as if it were an errno; the read fallback reports the real errno.\<close>

theorem write_fallback_loses_errno:
  assumes "\<not> pread_ok f"
    and "sys_write sys (file_fd f) (dec_line v) (sys_lseek sys (file_fd f) 0 w) = (- 1, w1)"
    and "sys_read sys (file_fd f) (replicate 64 0) (sys_lseek sys (file_fd f) 0 w) = ((- 1, buf), w2)"
  shows "write_tsf sys f v w = (Some (Inl (OsError 1)), w1) \<and>
         read_tsf sys ssse3 f w = (Some (Inl (OsError (sys_errno sys w2))), w2)"
  using assms by (simp add: write_tsf_line write_raw_def read_tsf_def read_raw_def Let_def)

theorem write_fallback_loses_errno_witness:
  "write_tsf ((sim_sys False)\<lparr>sys_write := (\<lambda>_ _ w. (- 1, w)), sys_read := (\<lambda>_ buf w. ((- 1, buf), w)), sys_errno := (\<lambda>_. 5)\<rparr>)
       \<lparr>file_fd = 3, pread_ok = False\<rparr> 9 \<lparr>sim_tsf = (\<lambda>_. 7), sim_off = (\<lambda>_. 0)\<rparr>
     = (Some (Inl (OsError 1)), sys_lseek (sim_sys False) 3 0 \<lparr>sim_tsf = (\<lambda>_. 7), sim_off = (\<lambda>_. 0)\<rparr>) \<and>
   read_tsf ((sim_sys False)\<lparr>sys_write := (\<lambda>_ _ w. (- 1, w)), sys_read := (\<lambda>_ buf w. ((- 1, buf), w)), sys_errno := (\<lambda>_. 5)\<rparr>) True
       \<lparr>file_fd = 3, pread_ok = False\<rparr> \<lparr>sim_tsf = (\<lambda>_. 7), sim_off = (\<lambda>_. 0)\<rparr>
     = (Some (Inl (OsError 5)), sys_lseek (sim_sys False) 3 0 \<lparr>sim_tsf = (\<lambda>_. 7), sim_off = (\<lambda>_. 0)\<rparr>)"
  using write_fallback_loses_errno
    [of "\<lparr>file_fd = 3, pread_ok = False\<rparr>"
        "(sim_sys False)\<lparr>sys_write := (\<lambda>_ _ w. (- 1, w)), sys_read := (\<lambda>_ buf w. ((- 1, buf), w)), sys_errno := (\<lambda>_. 5)\<rparr>"
        9 "\<lparr>sim_tsf = (\<lambda>_. 7), sim_off = (\<lambda>_. 0)\<rparr>" "sys_lseek (sim_sys False) 3 0 \<lparr>sim_tsf = (\<lambda>_. 7), sim_off = (\<lambda>_. 0)\<rparr>" "replicate 64 0"
        "sys_lseek (sim_sys False) 3 0 \<lparr>sim_tsf = (\<lambda>_. 7), sim_off = (\<lambda>_. 0)\<rparr>" True]
  by (simp add: sim_sys_def)

end
