(* ===== verification/Rt.thy ===== *)
theory Rt
  imports Os
begin

text \<open>
  Real-time support of the debugfs tool (src/bin/tsf\_sync\_debugfs/rt.rs): scheduling set-up,
  the absolute deadlines of the loops as \<open>timespec\<close> values with 64-bit fields, and the sleep
  that should survive signals.  The lemmas show that advancing a deadline keeps it
  normalised and adds exactly one period, without drift over any number of cycles.
\<close>

section \<open>System calls\<close>

record timespec =
  tv_sec :: i64
  tv_nsec :: i64

text \<open>
  \<open>raw_clock_nanosleep\<close> is the bare system call, which answers 0 or a negated errno;
  \<open>libc_clock_nanosleep\<close> is the C library's, which answers 0 or a positive errno.
\<close>

record 'w rt_sys =
  sys_mlockall :: "'w \<Rightarrow> int \<times> 'w"
  sys_setscheduler :: "32 word \<Rightarrow> 'w \<Rightarrow> int \<times> 'w"
  sys_setaffinity :: "nat set \<Rightarrow> 'w \<Rightarrow> int \<times> 'w"
  sys_clock_gettime :: "'w \<Rightarrow> timespec \<times> 'w"
  raw_clock_nanosleep :: "timespec \<Rightarrow> 'w \<Rightarrow> int \<times> 'w"
  libc_clock_nanosleep :: "timespec \<Rightarrow> 'w \<Rightarrow> int \<times> 'w"
  rt_errno :: "'w \<Rightarrow> 32 word"

definition check_ret :: "'w rt_sys \<Rightarrow> int \<times> 'w \<Rightarrow> (io_error + unit) \<times> 'w" where
  "check_ret sys rw = (case rw of (r, w) \<Rightarrow>
     if r \<noteq> 0 then (Inl (OsError (rt_errno sys w)), w) else (Inr (), w))"

definition lock_memory :: "'w rt_sys \<Rightarrow> 'w \<Rightarrow> (io_error + unit) \<times> 'w" where
  "lock_memory sys w = check_ret sys (sys_mlockall sys w)"

definition set_rt_priority :: "'w rt_sys \<Rightarrow> u32 \<Rightarrow> 'w \<Rightarrow> (io_error + unit) \<times> 'w" where
  "set_rt_priority sys priority w = check_ret sys (sys_setscheduler sys priority w)"

definition set_cpu_affinity :: "'w rt_sys \<Rightarrow> nat \<Rightarrow> 'w \<Rightarrow> (io_error + unit) \<times> 'w" where
  "set_cpu_affinity sys cpu_id w = check_ret sys (sys_setaffinity sys {cpu_id} w)"

definition setup_rt :: "'w rt_sys \<Rightarrow> u32 \<Rightarrow> nat option \<Rightarrow> 'w \<Rightarrow> (io_error + unit) \<times> 'w" where
  "setup_rt sys priority cpu w =
     (case lock_memory sys w of
        (Inl e, w) \<Rightarrow> (Inl e, w)
      | (Inr _, w) \<Rightarrow>
          (case set_rt_priority sys priority w of
             (Inl e, w) \<Rightarrow> (Inl e, w)
           | (Inr _, w) \<Rightarrow>
               (case cpu of
                  Some cpu_id \<Rightarrow> set_cpu_affinity sys cpu_id w
                | None \<Rightarrow> (Inr (), w))))"

definition now_monotonic :: "'w rt_sys \<Rightarrow> 'w \<Rightarrow> timespec \<times> 'w" where
  "now_monotonic sys w = sys_clock_gettime sys w"

section \<open>Deadlines\<close>

lemma sint_sub_nsec:
  assumes "1000000000 \<le>s (n :: i64)"
  shows "sint (n - 1000000000) = sint n - 1000000000"
    and "in_i64 (sint n - 1000000000)" and "1000000000 \<le> sint n"
proof -
  show ge: "1000000000 \<le> sint n" using assms by (simp add: word_sle_eq)
  then show "in_i64 (sint n - 1000000000)" using sint_bounds [of n] by (simp add: in_i64_def)
  then show "sint (n - 1000000000) = sint n - 1000000000"
    using sint_sub_exact [of n 1000000000] by simp
qed

function advance_loop :: "profile \<Rightarrow> timespec \<Rightarrow> timespec option" where
  "advance_loop pr ts =
     (if 1000000000 \<le>s tv_nsec ts
      then do {
        s \<leftarrow> add_i64 pr (tv_sec ts) 1;
        n \<leftarrow> sub_i64 pr (tv_nsec ts) 1000000000;
        advance_loop pr (ts\<lparr>tv_sec := s, tv_nsec := n\<rparr>)
      }
      else Some ts)"
  by pat_completeness auto

termination
  by (relation "measure (\<lambda>(pr, ts). nat (sint (tv_nsec ts)))")
    (auto simp: sub_i64_def sint_sub_nsec dest: sint_sub_nsec(3) split: if_splits)

declare advance_loop.simps [simp del]

definition advance_deadline :: "profile \<Rightarrow> timespec \<Rightarrow> i64 \<Rightarrow> timespec option" where
  "advance_deadline pr ts period_ns = do {
     n \<leftarrow> add_i64 pr (tv_nsec ts) period_ns;
     advance_loop pr (ts\<lparr>tv_nsec := n\<rparr>)
   }"

section \<open>Sleeping\<close>

definition do_clock_nanosleep :: "bool \<Rightarrow> 'w rt_sys \<Rightarrow> timespec \<Rightarrow> 'w \<Rightarrow> int \<times> 'w" where
  "do_clock_nanosleep x86_64 sys rqtp w =
     (if x86_64 then raw_clock_nanosleep sys rqtp w else libc_clock_nanosleep sys rqtp w)"

abbreviation EINTR :: int where
  "EINTR \<equiv> 4"

text \<open>\<open>None\<close>: the loop never ends.\<close>

partial_function (option) sleep_until :: "bool \<Rightarrow> 'w rt_sys \<Rightarrow> timespec \<Rightarrow> 'w \<Rightarrow> 'w option" where
  "sleep_until x86_64 sys deadline w =
     (let (ret, w) = do_clock_nanosleep x86_64 sys deadline w
      in if ret = 0 \<or> ret \<noteq> EINTR then Some w
         else sleep_until x86_64 sys deadline w)"

section \<open>Advancing a deadline\<close>

definition total_ns :: "timespec \<Rightarrow> int" where
  "total_ns ts = sint (tv_sec ts) * 1000000000 + sint (tv_nsec ts)"

definition normal_ts :: "timespec \<Rightarrow> bool" where
  "normal_ts ts \<longleftrightarrow> 0 \<le> sint (tv_nsec ts) \<and> sint (tv_nsec ts) < 1000000000"

lemma advance_loop_exact:
  assumes "0 \<le> sint (tv_nsec ts)" "in_i64 (sint (tv_sec ts) + sint (tv_nsec ts) div 1000000000)"
  shows "\<exists>ts'. advance_loop pr ts = Some ts' \<and> normal_ts ts' \<and> total_ns ts' = total_ns ts"
  using assms
proof (induction pr ts rule: advance_loop.induct)
  case (1 pr ts)
  show ?case
  proof (cases "1000000000 \<le>s tv_nsec ts")
    case True
    note sub = sint_sub_nsec [OF True]
    have div: "sint (tv_nsec ts) div 1000000000 = 1 + (sint (tv_nsec ts) - 1000000000) div 1000000000"
      using div_add_self2 [of 1000000000 "sint (tv_nsec ts) - 1000000000"] by simp
    have "0 \<le> (sint (tv_nsec ts) - 1000000000) div 1000000000"
      using sub(3) by (simp add: pos_imp_zdiv_nonneg_iff)
    then have sec: "in_i64 (sint (tv_sec ts) + 1)"
      using "1.prems"(2) div sint_bounds [of "tv_sec ts"] by (simp add: in_i64_def)
    then have add: "add_i64 pr (tv_sec ts) 1 = Some (tv_sec ts + 1)"
      "sint (tv_sec ts + 1) = sint (tv_sec ts) + 1"
      using sint_add_exact [of "tv_sec ts" 1] by (simp_all add: add_i64_def)
    have sub': "sub_i64 pr (tv_nsec ts) 1000000000 = Some (tv_nsec ts - 1000000000)"
      using sub(2) by (simp add: sub_i64_def)
    let ?ts = "ts\<lparr>tv_sec := tv_sec ts + 1, tv_nsec := tv_nsec ts - 1000000000\<rparr>"
    have "advance_loop pr ts = advance_loop pr ?ts"
      using True by (subst advance_loop.simps) (simp add: add sub')
    moreover have "\<exists>ts'. advance_loop pr ?ts = Some ts' \<and> normal_ts ts' \<and> total_ns ts' = total_ns ?ts"
      using "1.prems" sub div add(2) by (intro "1.IH" [OF True add(1) sub']) (simp_all add: add.assoc)
    moreover have "total_ns ?ts = total_ns ts" by (simp add: total_ns_def add sub)
    ultimately show ?thesis by simp
  next
    case False
    then have "normal_ts ts" using "1.prems" by (simp add: normal_ts_def word_sle_eq)
    with False show ?thesis by (subst advance_loop.simps) simp
  qed
qed


lemma advance_deadline_exact:
  assumes "normal_ts ts" "0 \<le> sint period" "in_i64 (sint (tv_nsec ts) + sint period)"
    "in_i64 (sint (tv_sec ts) + (sint (tv_nsec ts) + sint period) div 1000000000)"
  shows "\<exists>ts'. advance_deadline pr ts period = Some ts' \<and> normal_ts ts' \<and>
     total_ns ts' = total_ns ts + sint period"
proof -
  have n: "add_i64 pr (tv_nsec ts) period = Some (tv_nsec ts + period)"
    "sint (tv_nsec ts + period) = sint (tv_nsec ts) + sint period"
    using assms(3) sint_add_exact by (simp_all add: add_i64_def)
  let ?ts = "ts\<lparr>tv_nsec := tv_nsec ts + period\<rparr>"
  have "\<exists>ts'. advance_loop pr ?ts = Some ts' \<and> normal_ts ts' \<and> total_ns ts' = total_ns ?ts"
    using assms n by (intro advance_loop_exact) (simp_all add: normal_ts_def)
  then show ?thesis
    using n by (auto simp: advance_deadline_def total_ns_def)
qed

text \<open>The deadline after \<open>n\<close> cycles of the loop.\<close>

fun advance_cycles :: "profile \<Rightarrow> nat \<Rightarrow> timespec \<Rightarrow> i64 \<Rightarrow> timespec option" where
  "advance_cycles pr 0 ts period = Some ts"
| "advance_cycles pr (Suc n) ts period =
     do { ts' \<leftarrow> advance_deadline pr ts period; advance_cycles pr n ts' period }"

section \<open>Sleeping through signals\<close>

text \<open>The state of the world after \<open>i\<close> interrupted sleeps.\<close>

fun after_sleeps :: "bool \<Rightarrow> 'w rt_sys \<Rightarrow> timespec \<Rightarrow> nat \<Rightarrow> 'w \<Rightarrow> 'w" where
  "after_sleeps x86_64 sys d 0 w = w"
| "after_sleeps x86_64 sys d (Suc i) w = after_sleeps x86_64 sys d i (snd (do_clock_nanosleep x86_64 sys d w))"

lemma sleep_until_returns:
  assumes "\<And>i. i < k \<Longrightarrow> fst (do_clock_nanosleep x sys d (after_sleeps x sys d i w)) = EINTR"
    and "fst (do_clock_nanosleep x sys d (after_sleeps x sys d k w)) \<noteq> EINTR"
  shows "sleep_until x sys d w = Some (after_sleeps x sys d (Suc k) w)"
  using assms
proof (induction k arbitrary: w)
  case 0
  then show ?case by (subst sleep_until.simps) (auto simp: split_beta)
next
  case (Suc k)
  have "fst (do_clock_nanosleep x sys d w) = EINTR" using Suc.prems(1) [of 0] by simp
  then have "sleep_until x sys d w = sleep_until x sys d (snd (do_clock_nanosleep x sys d w))"
    by (subst sleep_until.simps) (simp add: split_beta)
  also have "\<dots> = Some (after_sleeps x sys d (Suc k) (snd (do_clock_nanosleep x sys d w)))"
    using Suc.prems(1) [of "Suc i" for i] Suc.prems(2) by (intro Suc.IH) auto
  finally show ?case by simp
qed

section \<open>Properties\<close>

text \<open>C39: a deadline advanced over n cycles stays normalised and lies exactly n periods later, in the debug and the release build alike: no cycle drifts and none panics, as long as the end point is below 2^62 ns.\<close>

theorem deadline_never_drifts:
  assumes "normal_ts ts" "0 \<le> sint (tv_sec ts)" "0 \<le> sint period"
    "sint period < 4611686018427387904" "total_ns ts + int n * sint period < 4611686018427387904"
  shows "\<exists>ts'. advance_cycles pr n ts period = Some ts' \<and> normal_ts ts' \<and>
     total_ns ts' = total_ns ts + int n * sint period"
  using assms
proof (induction n arbitrary: ts)
  case (Suc n)
  let ?s = "sint (tv_sec ts)" and ?n = "sint (tv_nsec ts)" and ?p = "sint period"
  have np: "0 \<le> int n * ?p" using Suc.prems(3) by simp
  have tot: "total_ns ts + ?p < 4611686018427387904"
    using Suc.prems(5) np by (simp add: algebra_simps)
  have n: "0 \<le> ?n" "?n < 1000000000" using Suc.prems(1) by (simp_all add: normal_ts_def)
  have "(?n + ?p) div 1000000000 \<le> ?n + ?p" "0 \<le> (?n + ?p) div 1000000000"
    using n Suc.prems(3) nonneg_div_le [of "?n + ?p" 1000000000]
    by (simp_all add: pos_imp_zdiv_nonneg_iff)
  then obtain ts' where ts': "advance_deadline pr ts period = Some ts'" "normal_ts ts'"
      "total_ns ts' = total_ns ts + ?p"
    using Suc.prems n tot advance_deadline_exact [of ts period pr]
    by (auto simp: in_i64_def total_ns_def)
  have "0 \<le> sint (tv_sec ts')"
  proof (rule ccontr)
    assume "\<not> 0 \<le> sint (tv_sec ts')"
    then have "total_ns ts' < 0" using ts'(2) by (simp add: total_ns_def normal_ts_def)
    then show False using ts'(3) n Suc.prems(2,3) by (simp add: total_ns_def)
  qed
  then have "\<exists>ts''. advance_cycles pr n ts' period = Some ts'' \<and> normal_ts ts'' \<and>
     total_ns ts'' = total_ns ts' + int n * ?p"
    using ts' Suc.prems by (intro Suc.IH) (simp_all add: algebra_simps)
  with ts' show ?case by (auto simp: algebra_simps)
qed simp

theorem deadline_never_drifts_witness:
  "\<exists>ts'. advance_cycles Debug 100 \<lparr>tv_sec = 5, tv_nsec = 999000000\<rparr> 10000000 = Some ts' \<and> normal_ts ts' \<and>
     total_ns ts' = total_ns \<lparr>tv_sec = 5, tv_nsec = 999000000\<rparr> + int 100 * sint (10000000 :: i64)"
  by (rule deadline_never_drifts) (simp_all add: normal_ts_def total_ns_def)

text \<open>A clock whose next \<open>w\<close> sleeps are interrupted, to exercise the loop.\<close>

definition interrupted_rt :: "nat rt_sys" where
  "interrupted_rt = \<lparr>
     sys_mlockall = (\<lambda>w. (0, w)), sys_setscheduler = (\<lambda>_ w. (0, w)), sys_setaffinity = (\<lambda>_ w. (0, w)),
     sys_clock_gettime = (\<lambda>w. (\<lparr>tv_sec = 0, tv_nsec = 0\<rparr>, w)),
     raw_clock_nanosleep = (\<lambda>_ w. if 0 < w then (- 4, w - 1) else (0, w)),
     libc_clock_nanosleep = (\<lambda>_ w. if 0 < w then (4, w - 1) else (0, w)),
     rt_errno = (\<lambda>_. 0)\<rparr>"

text \<open>Sleeping through the C library, sleep_until repeats exactly the calls a signal interrupted: after k EINTR answers and one other it returns, having made k + 1 calls.\<close>

theorem sleep_until_retries:
  assumes "\<And>i. i < k \<Longrightarrow> fst (libc_clock_nanosleep sys d (after_sleeps False sys d i w)) = EINTR"
    and "fst (libc_clock_nanosleep sys d (after_sleeps False sys d k w)) \<noteq> EINTR"
  shows "sleep_until False sys d w = Some (after_sleeps False sys d (Suc k) w)"
  using assms by (intro sleep_until_returns) (simp_all add: do_clock_nanosleep_def)

theorem sleep_until_retries_witness:
  "sleep_until False interrupted_rt \<lparr>tv_sec = 0, tv_nsec = 0\<rparr> 2 = Some (after_sleeps False interrupted_rt \<lparr>tv_sec = 0, tv_nsec = 0\<rparr> (Suc 2) 2)"
  by (rule sleep_until_retries)
    (auto simp: interrupted_rt_def do_clock_nanosleep_def numeral_2_eq_2 less_Suc_eq)

text \<open>On x86-64 the sleep is the raw system call, whose failures are negative, so sleep_until never retries: it returns after one call even when a signal interrupted it (answer -EINTR).\<close>

theorem sleep_until_raw_never_retries:
  assumes "\<And>w. fst (raw_clock_nanosleep sys d w) \<le> 0"
  shows "sleep_until True sys d w = Some (snd (raw_clock_nanosleep sys d w))"
  using sleep_until_returns [of 0 True sys d w] assms [of w] by (auto simp: do_clock_nanosleep_def)

theorem sleep_until_raw_never_retries_witness:
  "sleep_until True interrupted_rt \<lparr>tv_sec = 0, tv_nsec = 0\<rparr> 2 = Some 1"
  by (subst sleep_until_raw_never_retries) (simp_all add: interrupted_rt_def)

end
