(* ===== verification/Threading.thy ===== *)
theory Threading
  imports Control Stats Debugfs Rt
begin

text \<open>
  The single-threaded synchronisation loop of the debugfs tool
  (src/bin/tsf\_sync\_debugfs/threading.rs): the correction of one follower, the statistics
  check and the loop itself, over the operations \<open>rd\<close> and \<open>wr\<close> of a TSF file and the system
  calls of the real-time part.  The outer option is \<open>None\<close> for a panic; for the loop also for
  a run that never ends.  What the log shows is kept as a list of events.
\<close>

datatype sync_event =
    StatsLine string welford_stats f64
  | RmsWarn u64 u64
  | MasterReadFailed io_error
  | FollowerFailed nat

section \<open>One follower\<close>

definition correct_follower ::
    "profile \<Rightarrow> ('k \<Rightarrow> 'w \<Rightarrow> (io_error + u64) option \<times> 'w) \<Rightarrow>
     ('k \<Rightarrow> u64 \<Rightarrow> 'w \<Rightarrow> (io_error + unit) option \<times> 'w) \<Rightarrow>
     'k \<Rightarrow> controller \<Rightarrow> u64 \<Rightarrow> 'w \<Rightarrow> ((i64 \<times> i64) option \<times> controller \<times> 'w) option" where
  "correct_follower pr rd wr follower ctrl master_tsf w =
     (case rd follower w of
        (None, _) \<Rightarrow> None
      | (Some (Inl e), w) \<Rightarrow> Some (None, ctrl, w)
      | (Some (Inr follower_tsf), w) \<Rightarrow> do {
          ((step, err), ctrl) \<leftarrow> controller_apply pr ctrl master_tsf follower_tsf;
          new_tsf \<leftarrow> add_i64 pr follower_tsf step;
          (case wr follower new_tsf w of
             (None, _) \<Rightarrow> None
           | (Some _, w) \<Rightarrow> Some (Some (step, err), ctrl, w))
        })"

section \<open>Statistics\<close>

definition check_stats ::
    "welford_stats \<Rightarrow> u64 \<Rightarrow> u64 \<Rightarrow> u64 \<Rightarrow> string \<Rightarrow> welford_stats \<times> sync_event list" where
  "check_stats stats cycle interval rms_warn_us label =
     (if 0 < interval \<and> cycle mod interval = 0
      then (case print_and_reset stats label of
              (r, stats', line) \<Rightarrow>
                (stats',
                 (case line of Some (l, st, r) \<Rightarrow> [StatsLine l st r] | None \<Rightarrow> []) @
                 (if 0 < rms_warn_us \<and> f64_of_u64 rms_warn_us < r
                  then [RmsWarn (f64_to_u64 r) rms_warn_us] else [])))
      else (stats, []))"

section \<open>The loop\<close>

record 'w sync_state =
  s_world :: 'w
  s_ctrls :: "controller list"
  s_deadline :: timespec
  s_stats :: welford_stats
  s_cycle :: u64
  s_log :: "sync_event list"

text \<open>The followers in turn, from index \<open>i\<close>; a missing controller is an index panic.\<close>

fun follow_loop ::
    "profile \<Rightarrow> ('k \<Rightarrow> 'w \<Rightarrow> (io_error + u64) option \<times> 'w) \<Rightarrow>
     ('k \<Rightarrow> u64 \<Rightarrow> 'w \<Rightarrow> (io_error + unit) option \<times> 'w) \<Rightarrow> u64 \<Rightarrow> nat \<Rightarrow> 'k list \<Rightarrow>
     'w sync_state \<Rightarrow> 'w sync_state option" where
  "follow_loop pr rd wr master_tsf i [] st = Some st"
| "follow_loop pr rd wr master_tsf i (f # fs) st =
     (if i < length (s_ctrls st)
      then do {
        (res, c, w) \<leftarrow> correct_follower pr rd wr f (s_ctrls st ! i) master_tsf (s_world st);
        let st = st\<lparr>s_world := w, s_ctrls := (s_ctrls st)[i := c]\<rparr>;
        st \<leftarrow> (case res of
                 Some (step, err) \<Rightarrow> do {
                   stats \<leftarrow> stats_update pr (s_stats st) err step;
                   Some (st\<lparr>s_stats := stats\<rparr>)
                 }
               | None \<Rightarrow> Some (st\<lparr>s_log := s_log st @ [FollowerFailed i]\<rparr>));
        follow_loop pr rd wr master_tsf (i + 1) fs st
      }
      else None)"

definition pause ::
    "profile \<Rightarrow> bool \<Rightarrow> 'w rt_sys \<Rightarrow> i64 \<Rightarrow> 'w sync_state \<Rightarrow> 'w sync_state option" where
  "pause pr x86_64 rt period_ns st = do {
     deadline \<leftarrow> advance_deadline pr (s_deadline st) period_ns;
     w \<leftarrow> sleep_until x86_64 rt deadline (s_world st);
     Some (st\<lparr>s_world := w, s_deadline := deadline\<rparr>)
   }"

definition single_cycle ::
    "profile \<Rightarrow> bool \<Rightarrow> ('k \<Rightarrow> 'w \<Rightarrow> (io_error + u64) option \<times> 'w) \<Rightarrow>
     ('k \<Rightarrow> u64 \<Rightarrow> 'w \<Rightarrow> (io_error + unit) option \<times> 'w) \<Rightarrow> 'w rt_sys \<Rightarrow> 'k \<Rightarrow> 'k list \<Rightarrow>
     i64 \<Rightarrow> u64 \<Rightarrow> u64 \<Rightarrow> 'w sync_state \<Rightarrow> 'w sync_state option" where
  "single_cycle pr x86_64 rd wr rt master followers period_ns interval rms_warn_us st =
     (case rd master (s_world st) of
        (None, _) \<Rightarrow> None
      | (Some (Inl e), w) \<Rightarrow>
          pause pr x86_64 rt period_ns (st\<lparr>s_world := w, s_log := s_log st @ [MasterReadFailed e]\<rparr>)
      | (Some (Inr master_tsf), w) \<Rightarrow> do {
          st \<leftarrow> follow_loop pr rd wr master_tsf 0 followers (st\<lparr>s_world := w\<rparr>);
          cycle \<leftarrow> add_u64 pr (s_cycle st) 1;
          let (stats, evs) = check_stats (s_stats st) cycle interval rms_warn_us ''sync'';
          pause pr x86_64 rt period_ns
            (st\<lparr>s_cycle := cycle, s_stats := stats, s_log := s_log st @ evs\<rparr>)
        })"

text \<open>\<open>running\<close> is the RUNNING flag as the loop test sees it.\<close>

partial_function (option) single_loop ::
    "('w sync_state \<Rightarrow> 'w sync_state option) \<Rightarrow> ('w \<Rightarrow> bool) \<Rightarrow> 'w sync_state \<Rightarrow> 'w sync_state option" where
  "single_loop body running st =
     (if running (s_world st)
      then do { st \<leftarrow> body st; single_loop body running st }
      else Some st)"

definition run_single ::
    "profile \<Rightarrow> bool \<Rightarrow> ('k \<Rightarrow> 'w \<Rightarrow> (io_error + u64) option \<times> 'w) \<Rightarrow>
     ('k \<Rightarrow> u64 \<Rightarrow> 'w \<Rightarrow> (io_error + unit) option \<times> 'w) \<Rightarrow> 'w rt_sys \<Rightarrow> ('w \<Rightarrow> bool) \<Rightarrow> 'k \<Rightarrow> 'k list \<Rightarrow>
     controller list \<Rightarrow> i64 \<Rightarrow> u64 \<Rightarrow> u64 \<Rightarrow> 'w \<Rightarrow> 'w sync_state option" where
  "run_single pr x86_64 rd wr rt running master followers controllers period_ns interval rms_warn_us w =
     (case now_monotonic rt w of
        (deadline, w) \<Rightarrow> do {
          st \<leftarrow> single_loop
            (single_cycle pr x86_64 rd wr rt master followers period_ns interval rms_warn_us) running
            \<lparr>s_world = w, s_ctrls = controllers, s_deadline = deadline, s_stats = stats_new,
             s_cycle = 0, s_log = []\<rparr>;
          Some (case print_and_reset (s_stats st) ''final'' of
                  (_, stats, line) \<Rightarrow>
                    st\<lparr>s_stats := stats,
                       s_log := s_log st @ (case line of Some (l, a, r) \<Rightarrow> [StatsLine l a r] | None \<Rightarrow> [])\<rparr>)
        })"

section \<open>Correcting towards the master\<close>

text \<open>The signed distance of a follower to the master, modulo 2^64 as the code computes it.\<close>

definition tsf_err :: "u64 \<Rightarrow> u64 \<Rightarrow> int" where
  "tsf_err m f = sint (m - f)"

lemma in_i64_product: "\<bar>a\<bar> * b < 2 ^ 63 \<Longrightarrow> 0 \<le> b \<Longrightarrow> in_i64 (a * b)"
  using abs_mult [of a b] by (simp add: in_i64_def abs_if split: if_splits)

text \<open>A proportional controller as the tool's main builds it, with sane limits.\<close>

definition p_controller :: "controller \<Rightarrow> bool" where
  "p_controller c \<longleftrightarrow> kalman c = None \<and> 0 < sint (kp_ppm c) \<and> sint (kp_ppm c) \<le> 1000000 \<and> 0 \<le> sint (max_step_us c)"

definition next_err :: "controller \<Rightarrow> int \<Rightarrow> int" where
  "next_err c e = e - step_spec (sint (kp_ppm c)) (sint (max_step_us c)) e"

lemma next_err_0 [simp]: "p_controller c \<Longrightarrow> next_err c 0 = 0"
  by (simp add: next_err_def p_controller_def)

lemma next_err_shrinks: "p_controller c \<Longrightarrow> e \<noteq> 0 \<Longrightarrow> \<bar>next_err c e\<bar> < \<bar>e\<bar>"
  using step_spec_between(1) [of "sint (kp_ppm c)" "sint (max_step_us c)" e] by (simp add: next_err_def p_controller_def)

lemma next_err_le: "p_controller c \<Longrightarrow> \<bar>next_err c e\<bar> \<le> \<bar>e\<bar>"
  using next_err_shrinks [of c e] by (cases "e = 0") simp_all

lemma apply_release:
  assumes "p_controller c" "\<bar>tsf_err m f\<bar> * sint (kp_ppm c) < 2 ^ 63"
  shows "\<exists>s. controller_apply Release c m f = Some ((s, m - f), c) \<and> tsf_err m (f + s) = next_err c (tsf_err m f)"
proof -
  have kp: "0 \<le> sint (kp_ppm c)" "0 \<le> sint (max_step_us c)" "kalman c = None"
    using assms(1) by (simp_all add: p_controller_def)
  have prod: "sint ((m - f) * kp_ppm c) = tsf_err m f * sint (kp_ppm c)"
    using in_i64_product [OF assms(2) kp(1)] by (simp add: tsf_err_def sint_mul_exact)
  obtain s where s: "controller_apply Release c m f = Some ((s, m - f), c)"
      "sint s = step_spec (sint (kp_ppm c)) (sint (max_step_us c)) (tsf_err m f)"
    using apply_shape [of Release m f "m - f" c "m - f" c "(m - f) * kp_ppm c"] kp prod
    by (auto simp: sub_i64_def mul_i64_def filter_error_def step_spec_def tsf_err_def)
  have "in_i64 (next_err c (tsf_err m f))"
    using next_err_le [OF assms(1), of "tsf_err m f"] sint_bounds [of "m - f"]
      step_spec_between(3) [of "sint (kp_ppm c)" "sint (max_step_us c)" "tsf_err m f"] assms(1)
    by (cases "tsf_err m f = 0") (auto simp: in_i64_def tsf_err_def next_err_def p_controller_def)
  then have "sint ((m - f) - s) = next_err c (tsf_err m f)"
    using s(2) by (simp add: sint_sub_exact tsf_err_def next_err_def)
  moreover have "m - (f + s) = (m - f) - s" by simp
  ultimately have "tsf_err m (f + s) = next_err c (tsf_err m f)" by (simp only: tsf_err_def)
  with s(1) show ?thesis by blast
qed

text \<open>
  The environment of the loop: healthy TSF files, and a sleep that returns and lets all
  radios advance by the same amount.
\<close>

locale sync_env = tsf_port rd wr tsf files ok
  for rd :: "'k \<Rightarrow> 'w \<Rightarrow> (io_error + u64) option \<times> 'w"
    and wr :: "'k \<Rightarrow> u64 \<Rightarrow> 'w \<Rightarrow> (io_error + unit) option \<times> 'w"
    and tsf :: "'k \<Rightarrow> 'w \<Rightarrow> u64"
    and files :: "'k set"
    and ok :: "'w \<Rightarrow> bool" +
  fixes x86_64 :: bool and rt :: "'w rt_sys"
  assumes sleep_ok: "ok w \<Longrightarrow>
    \<exists>w' d. do_clock_nanosleep x86_64 rt ts w = (0, w') \<and> ok w' \<and> (\<forall>j \<in> files. tsf j w' = tsf j w + d)"

context tsf_port begin

lemma correct_follower_ok:
  assumes "k \<in> files" "ok w" "p_controller c" "\<bar>tsf_err m (tsf k w)\<bar> * sint (kp_ppm c) < 2 ^ 63"
  shows "\<exists>r w'. correct_follower Release rd wr k c m w = Some (Some r, c, w') \<and> ok w' \<and>
     tsf_err m (tsf k w') = next_err c (tsf_err m (tsf k w)) \<and> (\<forall>j \<in> files. j \<noteq> k \<longrightarrow> tsf j w' = tsf j w)"
proof -
  obtain w1 where w1: "rd k w = (Some (Inr (tsf k w)), w1)" "ok w1" "\<forall>j \<in> files. tsf j w1 = tsf j w"
    using rd_ok [OF assms(1,2)] by blast
  obtain s where s: "controller_apply Release c m (tsf k w) = Some ((s, m - tsf k w), c)"
      "tsf_err m (tsf k w + s) = next_err c (tsf_err m (tsf k w))"
    using apply_release [OF assms(3,4)] by blast
  obtain w2 where w2: "wr k (tsf k w + s) w1 = (Some (Inr ()), w2)" "ok w2" "tsf k w2 = tsf k w + s"
      "\<forall>j \<in> files. j \<noteq> k \<longrightarrow> tsf j w2 = tsf j w1"
    using wr_ok [OF assms(1) w1(2)] by blast
  have "correct_follower Release rd wr k c m w = Some (Some (s, m - tsf k w), c, w2)"
    by (simp add: correct_follower_def w1 s add_i64_def w2)
  with s(2) w2 w1(3) show ?thesis by auto
qed

lemma follow_loop_ok:
  assumes "distinct fs" "set fs \<subseteq> files" "ok (s_world st)" "p_controller c"
    "i + length fs \<le> length (s_ctrls st)" "set (s_ctrls st) \<subseteq> {c}"
    "\<forall>f \<in> set fs. \<bar>tsf_err m (tsf f (s_world st))\<bar> * sint (kp_ppm c) < 2 ^ 63"
  shows "\<exists>st'. follow_loop Release rd wr m i fs st = Some st' \<and> ok (s_world st') \<and> s_ctrls st' = s_ctrls st \<and>
     s_deadline st' = s_deadline st \<and> s_cycle st' = s_cycle st \<and>
     (\<forall>f \<in> set fs. tsf_err m (tsf f (s_world st')) = next_err c (tsf_err m (tsf f (s_world st)))) \<and>
     (\<forall>j \<in> files - set fs. tsf j (s_world st') = tsf j (s_world st))"
  using assms
proof (induction fs arbitrary: i st)
  case (Cons f fs)
  have i: "i < length (s_ctrls st)" using Cons.prems(5) by simp
  then have ci: "s_ctrls st ! i = c" using Cons.prems(6) nth_mem [OF i] by blast
  obtain r w' where w': "correct_follower Release rd wr f c m (s_world st) = Some (Some r, c, w')" "ok w'"
      "tsf_err m (tsf f w') = next_err c (tsf_err m (tsf f (s_world st)))"
      "\<forall>j \<in> files. j \<noteq> f \<longrightarrow> tsf j w' = tsf j (s_world st)"
    using correct_follower_ok [of f "s_world st" c m] Cons.prems by auto
  obtain step err where r: "r = (step, err)" by (cases r)
  obtain stats where stats: "stats_update Release (s_stats st) err step = Some stats"
    by (simp add: stats_update_def add_u64_def split_beta)
  define st1 where "st1 = st\<lparr>s_world := w', s_ctrls := (s_ctrls st)[i := c], s_stats := stats\<rparr>"
  have ctrls: "(s_ctrls st)[i := c] = s_ctrls st" using ci i by (metis list_update_id)
  have step1: "follow_loop Release rd wr m i (f # fs) st = follow_loop Release rd wr m (i + 1) fs st1"
    using i ci by (simp add: w' r stats st1_def)
  have same: "\<forall>j \<in> files. j \<noteq> f \<longrightarrow> tsf j (s_world st1) = tsf j (s_world st)" using w'(4) by (simp add: st1_def)
  have fs: "\<forall>g \<in> set fs. g \<in> files \<and> g \<noteq> f" using Cons.prems(1,2) by auto
  have "\<exists>st'. follow_loop Release rd wr m (i + 1) fs st1 = Some st' \<and> ok (s_world st') \<and> s_ctrls st' = s_ctrls st1 \<and>
     s_deadline st' = s_deadline st1 \<and> s_cycle st' = s_cycle st1 \<and>
     (\<forall>f \<in> set fs. tsf_err m (tsf f (s_world st')) = next_err c (tsf_err m (tsf f (s_world st1)))) \<and>
     (\<forall>j \<in> files - set fs. tsf j (s_world st') = tsf j (s_world st1))"
    using Cons.prems w'(2) ctrls same fs by (intro Cons.IH) (simp_all add: st1_def)
  then obtain st' where st': "follow_loop Release rd wr m (i + 1) fs st1 = Some st'" "ok (s_world st')"
     "s_ctrls st' = s_ctrls st1" "s_deadline st' = s_deadline st1" "s_cycle st' = s_cycle st1"
     "\<forall>f \<in> set fs. tsf_err m (tsf f (s_world st')) = next_err c (tsf_err m (tsf f (s_world st1)))"
     "\<forall>j \<in> files - set fs. tsf j (s_world st') = tsf j (s_world st1)" by blast
  have "f \<in> files - set fs" using Cons.prems(1,2) by auto
  then have f: "tsf f (s_world st') = tsf f w'" using st'(7) by (simp add: st1_def)
  show ?case
  proof (intro exI [of _ st'] conjI)
    show "follow_loop Release rd wr m i (f # fs) st = Some st'" using step1 st'(1) by simp
    show "\<forall>g \<in> set (f # fs). tsf_err m (tsf g (s_world st')) = next_err c (tsf_err m (tsf g (s_world st)))"
      using st'(6) same fs f w'(3) by simp
    show "\<forall>j \<in> files - set (f # fs). tsf j (s_world st') = tsf j (s_world st)"
      using st'(7) same by simp
  qed (use st' ctrls in \<open>simp_all add: st1_def\<close>)
qed simp

end

lemma advance_loop_release: "\<exists>ts'. advance_loop Release ts = Some ts'"
proof -
  have "pr = Release \<Longrightarrow> \<exists>ts'. advance_loop pr ts = Some ts'" for pr
    by (induction pr ts rule: advance_loop.induct)
      (subst advance_loop.simps, auto simp: add_i64_def sub_i64_def)
  then show ?thesis by blast
qed

text \<open>\<open>n\<close> rounds of a loop body.\<close>

fun rounds :: "nat \<Rightarrow> ('s \<Rightarrow> 's option) \<Rightarrow> 's \<Rightarrow> 's option" where
  "rounds 0 body st = Some st"
| "rounds (Suc n) body st = do { st \<leftarrow> body st; rounds n body st }"

lemma rounds_snoc: "rounds (Suc n) body st = do { st \<leftarrow> rounds n body st; body st }"
proof (induction n arbitrary: st)
  case (Suc n)
  then show ?case
  proof (cases "body st")
    case (Some s)
    then show ?thesis using Suc.IH [of s] by simp
  qed simp
next
  case 0
  show ?case by (cases "body st") simp_all
qed

context sync_env begin

lemma pause_ok:
  assumes "ok (s_world st)"
  shows "\<exists>st' d. pause Release x86_64 rt period st = Some st' \<and> ok (s_world st') \<and>
     s_ctrls st' = s_ctrls st \<and> (\<forall>j \<in> files. tsf j (s_world st') = tsf j (s_world st) + d)"
proof -
  obtain ts where ts: "advance_deadline Release (s_deadline st) period = Some ts"
    using advance_loop_release [of "s_deadline st\<lparr>tv_nsec := tv_nsec (s_deadline st) + period\<rparr>"]
    by (auto simp: advance_deadline_def add_i64_def)
  obtain w' d where w': "do_clock_nanosleep x86_64 rt ts (s_world st) = (0, w')" "ok w'"
      "\<forall>j \<in> files. tsf j w' = tsf j (s_world st) + d"
    using sleep_ok [OF assms] by blast
  have "sleep_until x86_64 rt ts (s_world st) = Some w'"
    by (subst sleep_until.simps) (simp add: w'(1))
  then have "pause Release x86_64 rt period st = Some (st\<lparr>s_world := w', s_deadline := ts\<rparr>)"
    by (simp add: pause_def ts)
  with w'(2,3) show ?thesis by auto
qed

lemma single_cycle_ok:
  assumes "distinct fs" "master \<in> files" "set fs \<subseteq> files - {master}" "ok (s_world st)" "p_controller c"
    "s_ctrls st = replicate (length fs) c"
    "\<forall>f \<in> set fs. \<bar>tsf_err (tsf master (s_world st)) (tsf f (s_world st))\<bar> * sint (kp_ppm c) < 2 ^ 63"
  shows "\<exists>st'. single_cycle Release x86_64 rd wr rt master fs period interval rms_warn st = Some st' \<and>
     ok (s_world st') \<and> s_ctrls st' = replicate (length fs) c \<and>
     (\<forall>f \<in> set fs. tsf_err (tsf master (s_world st')) (tsf f (s_world st')) =
        next_err c (tsf_err (tsf master (s_world st)) (tsf f (s_world st))))"
proof -
  let ?m = "tsf master (s_world st)"
  obtain w1 where w1: "rd master (s_world st) = (Some (Inr ?m), w1)" "ok w1"
      "\<forall>j \<in> files. tsf j w1 = tsf j (s_world st)"
    using rd_ok [OF assms(2,4)] by blast
  have prems: "set fs \<subseteq> files" "set (replicate (length fs) c) \<subseteq> {c}"
    "\<forall>f \<in> set fs. \<bar>tsf_err ?m (tsf f (s_world (st\<lparr>s_world := w1\<rparr>)))\<bar> * sint (kp_ppm c) < 2 ^ 63"
    using assms(3,7) w1(3) by (auto simp: set_replicate_conv_if)
  obtain st2 where st2: "follow_loop Release rd wr ?m 0 fs (st\<lparr>s_world := w1\<rparr>) = Some st2"
      "ok (s_world st2)" "s_ctrls st2 = s_ctrls st"
      "\<forall>f \<in> set fs. tsf_err ?m (tsf f (s_world st2)) = next_err c (tsf_err ?m (tsf f w1))"
      "\<forall>j \<in> files - set fs. tsf j (s_world st2) = tsf j w1"
    using follow_loop_ok [OF assms(1) prems(1) _ assms(5), of "st\<lparr>s_world := w1\<rparr>" 0 ?m] w1(2,3) prems(2,3)
      assms(6) by auto
  have m2: "tsf master (s_world st2) = ?m" using st2(5) w1(3) assms(2,3) by auto
  define st3 where "st3 = (case check_stats (s_stats st2) (s_cycle st2 + 1) interval rms_warn ''sync'' of
     (stats, evs) \<Rightarrow> st2\<lparr>s_cycle := s_cycle st2 + 1, s_stats := stats, s_log := s_log st2 @ evs\<rparr>)"
  have st3: "s_world st3 = s_world st2" "s_ctrls st3 = s_ctrls st2" by (simp_all add: st3_def split_beta)
  obtain st' d where st': "pause Release x86_64 rt period st3 = Some st'" "ok (s_world st')"
      "s_ctrls st' = s_ctrls st3" "\<forall>j \<in> files. tsf j (s_world st') = tsf j (s_world st3) + d"
    using pause_ok [of st3 period] st2(2) st3 by auto
  have "single_cycle Release x86_64 rd wr rt master fs period interval rms_warn st = Some st'"
    using st'(1) by (simp add: single_cycle_def w1(1) st2(1) add_u64_def st3_def split_beta)
  moreover have "tsf_err (tsf master (s_world st')) (tsf f (s_world st')) = next_err c (tsf_err ?m (tsf f (s_world st)))"
    if f: "f \<in> set fs" for f
  proof -
    have "f \<in> files" using f assms(3) by auto
    then have "tsf_err (tsf master (s_world st')) (tsf f (s_world st')) = tsf_err ?m (tsf f (s_world st2))"
      using st'(4) m2 assms(2) st3 by (simp add: tsf_err_def)
    then show ?thesis using st2(4) w1(3) f \<open>f \<in> files\<close> by simp
  qed
  ultimately show ?thesis using st'(2,3) st3 st2(3) assms(6) by auto
qed

lemma rounds_ok:
  assumes "distinct fs" "master \<in> files" "set fs \<subseteq> files - {master}" "p_controller c"
    "ok (s_world st)" "s_ctrls st = replicate (length fs) c"
    "\<forall>f \<in> set fs. \<bar>tsf_err (tsf master (s_world st)) (tsf f (s_world st))\<bar> * sint (kp_ppm c) < 2 ^ 63"
  shows "\<exists>st'. rounds n (single_cycle Release x86_64 rd wr rt master fs period interval rms_warn) st = Some st' \<and>
     ok (s_world st') \<and> s_ctrls st' = replicate (length fs) c \<and>
     (\<forall>f \<in> set fs. tsf_err (tsf master (s_world st')) (tsf f (s_world st')) =
        (next_err c ^^ n) (tsf_err (tsf master (s_world st)) (tsf f (s_world st))))"
  using assms(5-7)
proof (induction n arbitrary: st)
  case (Suc n)
  let ?e = "\<lambda>st f. tsf_err (tsf master (s_world st)) (tsf f (s_world st))"
  obtain st1 where st1: "single_cycle Release x86_64 rd wr rt master fs period interval rms_warn st = Some st1"
     "ok (s_world st1)" "s_ctrls st1 = replicate (length fs) c" "\<forall>f \<in> set fs. ?e st1 f = next_err c (?e st f)"
    using single_cycle_ok [OF assms(1-3) Suc.prems(1) assms(4) Suc.prems(2,3)] by blast
  have "\<forall>f \<in> set fs. \<bar>?e st1 f\<bar> * sint (kp_ppm c) < 2 ^ 63"
  proof
    fix f assume f: "f \<in> set fs"
    have "\<bar>?e st1 f\<bar> * sint (kp_ppm c) \<le> \<bar>?e st f\<bar> * sint (kp_ppm c)"
      using st1(4) f next_err_le [OF assms(4)] assms(4) by (intro mult_right_mono) (simp_all add: p_controller_def)
    also have "\<dots> < 2 ^ 63" using Suc.prems(3) f by blast
    finally show "\<bar>?e st1 f\<bar> * sint (kp_ppm c) < 2 ^ 63" .
  qed
  from Suc.IH [OF st1(2,3) this] st1(1,4) show ?case by (auto simp: funpow_swap1)
qed simp

end

lemma next_err_funpow:
  assumes "p_controller c"
  shows "\<bar>(next_err c ^^ n) e\<bar> \<le> max 0 (\<bar>e\<bar> - int n)"
proof (induction n)
  case (Suc n)
  then show ?case
    using next_err_shrinks [OF assms, of "(next_err c ^^ n) e"] assms
    by (cases "(next_err c ^^ n) e = 0") auto
qed simp

lemma next_err_funpow_sgn:
  assumes "p_controller c"
  shows "(next_err c ^^ n) e = 0 \<or> sgn ((next_err c ^^ n) e) = sgn e"
proof (induction n)
  case (Suc n)
  let ?x = "(next_err c ^^ n) e"
  have "next_err c x = 0 \<or> sgn (next_err c x) = sgn x" for x
  proof (cases "x = 0")
    case False
    then have "sgn (step_spec (sint (kp_ppm c)) (sint (max_step_us c)) x) = sgn x"
      "\<bar>x\<bar> = \<bar>step_spec (sint (kp_ppm c)) (sint (max_step_us c)) x\<bar> + \<bar>next_err c x\<bar>"
      using step_spec_between(2,3) [of "sint (kp_ppm c)" "sint (max_step_us c)" x] assms
      by (simp_all add: next_err_def p_controller_def)
    then show ?thesis by (auto simp: next_err_def sgn_if abs_if split: if_splits)
  qed (simp add: assms)
  from this [of ?x] Suc show ?case using assms by auto
qed simp

lemma next_err_unit_gain:
  assumes "sint (kp_ppm c) = 1000000" "0 < sint (max_step_us c)"
  shows "\<bar>(next_err c ^^ n) e\<bar> = max 0 (\<bar>e\<bar> - int n * sint (max_step_us c))"
proof (induction n)
  case (Suc n)
  let ?x = "(next_err c ^^ n) e" and ?mx = "sint (max_step_us c)"
  have "next_err c ?x = ?x - max (- ?mx) (min ?mx ?x)"
    using step_spec_unit_gain [OF assms(2)] assms(1) by (simp add: next_err_def)
  then have "\<bar>next_err c ?x\<bar> = max 0 (\<bar>?x\<bar> - ?mx)" using assms(2) by linarith
  moreover have "int (Suc n) * ?mx = int n * ?mx + ?mx" by (simp add: algebra_simps)
  moreover have "(next_err c ^^ Suc n) e = next_err c ?x" by simp
  ultimately show ?case using Suc assms(2) by linarith
qed simp

text \<open>The loop runs its body until the flag is cleared.\<close>

lemma single_loop_stops:
  assumes "rounds n body st = Some st'" "\<not> running (s_world st')"
  shows "\<exists>k \<le> n. \<exists>st''. rounds k body st = Some st'' \<and> \<not> running (s_world st'') \<and>
     (\<forall>j < k. \<exists>sj. rounds j body st = Some sj \<and> running (s_world sj)) \<and> single_loop body running st = Some st''"
  using assms
proof (induction n arbitrary: st)
  case 0
  then show ?case by (subst single_loop.simps) auto
next
  case (Suc n)
  show ?case
  proof (cases "running (s_world st)")
    case True
    obtain st1 where st1: "body st = Some st1" "rounds n body st1 = Some st'"
      using Suc.prems(1) by (auto split: Option.bind_splits)
    from Suc.IH [OF st1(2) Suc.prems(2)] obtain k st'' where k:
      "k \<le> n" "rounds k body st1 = Some st''" "\<not> running (s_world st'')" "single_loop body running st1 = Some st''"
      "\<forall>j < k. \<exists>sj. rounds j body st1 = Some sj \<and> running (s_world sj)"
      by blast
    have "single_loop body running st = single_loop body running st1"
      using True st1(1) by (subst single_loop.simps) simp
    moreover have "\<exists>sj. rounds j body st = Some sj \<and> running (s_world sj)" if "j < Suc k" for j
      using that k(5) True st1(1) by (cases j) simp_all
    ultimately show ?thesis using st1(1) k(1-4) by (intro exI [of _ "Suc k"]) auto
  next
    case False
    then show ?thesis by (intro exI [of _ 0] conjI exI [of _ st]) (simp_all add: single_loop.simps [of body running st])
  qed
qed

section \<open>A simulated machine\<close>

text \<open>Sleeping in the simulated debugfs advances every radio by 10 ms.\<close>

definition sim_rt :: "debugfs_sim rt_sys" where
  "sim_rt =
     (let tick = (\<lambda>_ w. (0, w\<lparr>sim_tsf := (\<lambda>fd. sim_tsf w fd + 10000)\<rparr>))
      in \<lparr>sys_mlockall = (\<lambda>w. (0, w)), sys_setscheduler = (\<lambda>_ w. (0, w)), sys_setaffinity = (\<lambda>_ w. (0, w)),
          sys_clock_gettime = (\<lambda>w. (\<lparr>tv_sec = 0, tv_nsec = 0\<rparr>, w)),
          raw_clock_nanosleep = tick, libc_clock_nanosleep = tick, rt_errno = (\<lambda>_. 0)\<rparr>)"

interpretation sim_loop: sync_env "read_tsf (sim_sys True) ssse3" "write_tsf (sim_sys True)"
   "\<lambda>f w. sim_tsf w (file_fd f)" "{f. file_fd f \<in> UNIV \<and> pread_ok f}" "\<lambda>_. True" x86_64 sim_rt
  by unfold_locales (auto simp: do_clock_nanosleep_def sim_rt_def Let_def)

section \<open>Properties\<close>

text \<open>C1: In a release build, on healthy TSF files (distinct, with reads and writes that succeed) and with a sleep
  that returns and in which the radios tick alike, n cycles of the single-threaded loop never fail and bring every follower at
  least n microseconds closer to the master, until it is exactly equal, without ever overshooting.  This is for
  controllers without the Kalman filter, a gain kp_ppm from 1 to 10^6, a step limit that is not negative, and distances
  |error| with |error| * kp_ppm below 2^63.\<close>

theorem sync_loop_converges:
  assumes "sync_env (read_tsf sys ssse3) (write_tsf sys) tsf files ok x86_64 rt"
    and "distinct fs" "master \<in> files" "set fs \<subseteq> files - {master}" "ok (s_world st)"
    and "p_controller c" "s_ctrls st = replicate (length fs) c"
    and "\<forall>f \<in> set fs. \<bar>tsf_err (tsf master (s_world st)) (tsf f (s_world st))\<bar> * sint (kp_ppm c) < 2 ^ 63"
  shows "\<exists>st'. rounds n (single_cycle Release x86_64 (read_tsf sys ssse3) (write_tsf sys) rt master fs
        period interval rms_warn) st = Some st' \<and>
     (\<forall>f \<in> set fs. let e = tsf_err (tsf master (s_world st)) (tsf f (s_world st));
                      e' = tsf_err (tsf master (s_world st')) (tsf f (s_world st'))
                  in \<bar>e'\<bar> \<le> max 0 (\<bar>e\<bar> - int n) \<and> (e' = 0 \<or> sgn e' = sgn e))"
  using sync_env.rounds_ok [OF assms(1-4,6,5,7,8), of n period interval rms_warn]
    next_err_funpow [OF assms(6)] next_err_funpow_sgn [OF assms(6)]
  by (fastforce simp: Let_def)

theorem sync_loop_converges_witness:
  "\<exists>st'. rounds 5 (single_cycle Release True (read_tsf (sim_sys True) True) (write_tsf (sim_sys True)) sim_rt
        \<lparr>file_fd = 3, pread_ok = True\<rparr> [\<lparr>file_fd = 4, pread_ok = True\<rparr>] 10000000 0 0)
       \<lparr>s_world = \<lparr>sim_tsf = (\<lambda>fd. if fd = 3 then 1000005 else 1000000), sim_off = (\<lambda>_. 0)\<rparr>,
        s_ctrls = replicate (length [\<lparr>file_fd = 4, pread_ok = True\<rparr>]) (controller_new 500000 200 False),
        s_deadline = \<lparr>tv_sec = 0, tv_nsec = 0\<rparr>, s_stats = stats_new, s_cycle = 0, s_log = []\<rparr> = Some st' \<and>
     (\<forall>f \<in> set [\<lparr>file_fd = 4, pread_ok = True\<rparr>].
        let e = tsf_err 1000005 1000000; e' = tsf_err (sim_tsf (s_world st') 3) (sim_tsf (s_world st') (file_fd f))
        in \<bar>e'\<bar> \<le> max 0 (\<bar>e\<bar> - int 5) \<and> (e' = 0 \<or> sgn e' = sgn e))"
  using sync_loop_converges [OF sim_loop.sync_env_axioms,
      where fs = "[\<lparr>file_fd = 4, pread_ok = True\<rparr>]" and master = "\<lparr>file_fd = 3, pread_ok = True\<rparr>"
        and st = "\<lparr>s_world = \<lparr>sim_tsf = (\<lambda>fd. if fd = 3 then 1000005 else 1000000), sim_off = (\<lambda>_. 0)\<rparr>,
          s_ctrls = replicate (length [\<lparr>file_fd = 4, pread_ok = True\<rparr>]) (controller_new 500000 200 False),
          s_deadline = \<lparr>tv_sec = 0, tv_nsec = 0\<rparr>, s_stats = stats_new, s_cycle = 0, s_log = []\<rparr>"
        and c = "controller_new 500000 200 False" and n = 5]
  by (simp add: p_controller_def controller_new_def tsf_err_def)

text \<open>With kp_ppm = 10^6 and a positive step limit the distance of every follower to the master shrinks by exactly max_step_us per cycle, so it is 0 after |error| / max_step_us cycles, rounded up.\<close>

theorem unit_gain_rate:
  assumes "sync_env (read_tsf sys ssse3) (write_tsf sys) tsf files ok x86_64 rt"
    and "distinct fs" "master \<in> files" "set fs \<subseteq> files - {master}" "ok (s_world st)"
    and "p_controller c" "sint (kp_ppm c) = 1000000" "0 < sint (max_step_us c)"
    and "s_ctrls st = replicate (length fs) c"
    and "\<forall>f \<in> set fs. \<bar>tsf_err (tsf master (s_world st)) (tsf f (s_world st))\<bar> * sint (kp_ppm c) < 2 ^ 63"
  shows "\<exists>st'. rounds n (single_cycle Release x86_64 (read_tsf sys ssse3) (write_tsf sys) rt master fs
        period interval rms_warn) st = Some st' \<and>
     (\<forall>f \<in> set fs. \<bar>tsf_err (tsf master (s_world st')) (tsf f (s_world st'))\<bar> =
        max 0 (\<bar>tsf_err (tsf master (s_world st)) (tsf f (s_world st))\<bar> - int n * sint (max_step_us c)))"
  using sync_env.rounds_ok [OF assms(1-4,6,5,9,10), of n period interval rms_warn]
    next_err_unit_gain [OF assms(7,8), of n]
  by fastforce

theorem unit_gain_rate_witness:
  "\<exists>st'. rounds 2 (single_cycle Release False (read_tsf (sim_sys True) False) (write_tsf (sim_sys True)) sim_rt
        \<lparr>file_fd = 3, pread_ok = True\<rparr> [\<lparr>file_fd = 5, pread_ok = True\<rparr>] 10000000 0 0)
       \<lparr>s_world = \<lparr>sim_tsf = (\<lambda>fd. if fd = 3 then 1000000 else 1000500), sim_off = (\<lambda>_. 0)\<rparr>,
        s_ctrls = replicate (length [\<lparr>file_fd = 5, pread_ok = True\<rparr>]) (controller_new 1000000 200 False),
        s_deadline = \<lparr>tv_sec = 0, tv_nsec = 0\<rparr>, s_stats = stats_new, s_cycle = 0, s_log = []\<rparr> = Some st' \<and>
     \<bar>tsf_err (sim_tsf (s_world st') 3) (sim_tsf (s_world st') 5)\<bar> = 100"
  using unit_gain_rate [OF sim_loop.sync_env_axioms,
      where fs = "[\<lparr>file_fd = 5, pread_ok = True\<rparr>]" and master = "\<lparr>file_fd = 3, pread_ok = True\<rparr>"
        and st = "\<lparr>s_world = \<lparr>sim_tsf = (\<lambda>fd. if fd = 3 then 1000000 else 1000500), sim_off = (\<lambda>_. 0)\<rparr>,
          s_ctrls = replicate (length [\<lparr>file_fd = 5, pread_ok = True\<rparr>]) (controller_new 1000000 200 False),
          s_deadline = \<lparr>tv_sec = 0, tv_nsec = 0\<rparr>, s_stats = stats_new, s_cycle = 0, s_log = []\<rparr>"
        and c = "controller_new 1000000 200 False" and n = 2]
  by (simp add: p_controller_def controller_new_def tsf_err_def)

text \<open>C30: In a release build, under the conditions of the convergence (distinct files with reads and writes
  that succeed, a sleep that returns and in which the radios tick alike, no Kalman filter, kp_ppm from 1 to 10^6, a step
  limit that is not negative, |error| * kp_ppm below 2^63), run_single returns when RUNNING is
  cleared: if the flag is found clear after n cycles, or was before, the loop runs without a panic until the first of its
  tests that finds the flag clear and no cycle more, prints and resets its statistics, and leaves no follower
  further from the master than it found it.\<close>

theorem run_single_stops:
  assumes "sync_env (read_tsf sys ssse3) (write_tsf sys) tsf files ok x86_64 rt"
    and "distinct fs" "master \<in> files" "set fs \<subseteq> files - {master}" "now_monotonic rt w = (dl, w1)" "ok w1"
    and "p_controller c"
    and "\<forall>f \<in> set fs. \<bar>tsf_err (tsf master w1) (tsf f w1)\<bar> * sint (kp_ppm c) < 2 ^ 63"
    and body: "body = single_cycle Release x86_64 (read_tsf sys ssse3) (write_tsf sys) rt master fs period interval rms_warn"
    and st0: "st0 = \<lparr>s_world = w1, s_ctrls = replicate (length fs) c, s_deadline = dl, s_stats = stats_new, s_cycle = 0, s_log = []\<rparr>"
    and cleared: "\<forall>st. rounds n body st0 = Some st \<longrightarrow> \<not> running (s_world st)"
  shows "\<exists>k \<le> n. \<exists>st st'. rounds k body st0 = Some st \<and> \<not> running (s_world st) \<and>
     (\<forall>j < k. \<exists>sj. rounds j body st0 = Some sj \<and> running (s_world sj)) \<and>
     run_single Release x86_64 (read_tsf sys ssse3) (write_tsf sys) rt running master fs
       (replicate (length fs) c) period interval rms_warn w = Some st' \<and>
     s_world st' = s_world st \<and> s_cycle st' = s_cycle st \<and> s_stats st' = stats_new \<and>
     (\<forall>f \<in> set fs. \<bar>tsf_err (tsf master (s_world st')) (tsf f (s_world st'))\<bar> \<le> \<bar>tsf_err (tsf master w1) (tsf f w1)\<bar>)"
proof -
  note ok = sync_env.rounds_ok [OF assms(1-4,7), of st0 _ period interval rms_warn, folded body]
  obtain st_n where "rounds n body st0 = Some st_n" using ok [of n] assms(6,8) by (auto simp: st0)
  then obtain k st_k where k: "k \<le> n" "rounds k body st0 = Some st_k" "\<not> running (s_world st_k)"
      "\<forall>j < k. \<exists>sj. rounds j body st0 = Some sj \<and> running (s_world sj)" "single_loop body running st0 = Some st_k"
    using single_loop_stops [of n body st0 st_n running] cleared by blast
  have "\<bar>tsf_err (tsf master (s_world st_k)) (tsf f (s_world st_k))\<bar> \<le> \<bar>tsf_err (tsf master w1) (tsf f w1)\<bar>"
    if "f \<in> set fs" for f
    using ok [of k] assms(6,8) k(2) that next_err_funpow [OF assms(7), of k "tsf_err (tsf master w1) (tsf f w1)"]
    by (auto simp: st0)
  then show ?thesis
    using k by (intro exI [of _ k] exI [of _ st_k])
      (simp add: run_single_def assms(5) body [symmetric] st0 [symmetric] print_and_reset_def Let_def)
qed

text \<open>A flag that is cleared when the follower, 400 microseconds behind, has reached the master: after two cycles.\<close>

theorem run_single_stops_witness:
  "\<exists>st st'. rounds 2 (single_cycle Release True (read_tsf (sim_sys True) True) (write_tsf (sim_sys True)) sim_rt
        \<lparr>file_fd = 3, pread_ok = True\<rparr> [\<lparr>file_fd = 5, pread_ok = True\<rparr>] 10000000 0 0)
       \<lparr>s_world = \<lparr>sim_tsf = (\<lambda>fd. if fd = 3 then 1000400 else 1000000), sim_off = (\<lambda>_. 0)\<rparr>,
        s_ctrls = replicate (length [\<lparr>file_fd = 5, pread_ok = True\<rparr>]) (controller_new 1000000 200 False),
        s_deadline = \<lparr>tv_sec = 0, tv_nsec = 0\<rparr>, s_stats = stats_new, s_cycle = 0, s_log = []\<rparr> = Some st \<and>
     run_single Release True (read_tsf (sim_sys True) True) (write_tsf (sim_sys True)) sim_rt
       (\<lambda>w. sim_tsf w 3 \<noteq> sim_tsf w 5) \<lparr>file_fd = 3, pread_ok = True\<rparr> [\<lparr>file_fd = 5, pread_ok = True\<rparr>]
       (replicate (length [\<lparr>file_fd = 5, pread_ok = True\<rparr>]) (controller_new 1000000 200 False)) 10000000 0 0
       \<lparr>sim_tsf = (\<lambda>fd. if fd = 3 then 1000400 else 1000000), sim_off = (\<lambda>_. 0)\<rparr> = Some st' \<and>
     s_world st' = s_world st \<and> sim_tsf (s_world st') 3 = sim_tsf (s_world st') 5 \<and> s_stats st' = stats_new"
proof -
  let ?m = "\<lparr>file_fd = 3, pread_ok = True\<rparr>" and ?fs = "[\<lparr>file_fd = 5, pread_ok = True\<rparr>]" and ?c = "controller_new 1000000 200 False"
  let ?w = "\<lparr>sim_tsf = (\<lambda>fd. if fd = 3 then 1000400 else 1000000), sim_off = (\<lambda>_. 0)\<rparr>"
  define body where "body = single_cycle Release True (read_tsf (sim_sys True) True) (write_tsf (sim_sys True)) sim_rt ?m ?fs 10000000 0 0"
  define st0 where "st0 = \<lparr>s_world = ?w, s_ctrls = replicate (length ?fs) ?c, s_deadline = \<lparr>tv_sec = 0, tv_nsec = 0\<rparr>,
    s_stats = stats_new, s_cycle = 0, s_log = []\<rparr>"
  have dist: "\<exists>st. rounds j body st0 = Some st \<and> \<bar>tsf_err (sim_tsf (s_world st) 3) (sim_tsf (s_world st) 5)\<bar> = max 0 (400 - int j * 200)" for j
    using unit_gain_rate [OF sim_loop.sync_env_axioms [of True True], where fs = ?fs and master = ?m and st = st0 and c = ?c and n = j
        and period = 10000000 and interval = 0 and rms_warn = 0]
    by (simp add: body_def [symmetric] st0_def p_controller_def controller_new_def tsf_err_def)
  have eq: "tsf_err a b = 0 \<longleftrightarrow> a = b" for a b using signed_word_eqI [of "a - b" 0] by (auto simp: tsf_err_def)
  have cleared: "\<forall>st. rounds 2 body st0 = Some st \<longrightarrow> \<not> sim_tsf (s_world st) 3 \<noteq> sim_tsf (s_world st) 5"
    using dist [of 2] eq by auto
  have now: "now_monotonic sim_rt ?w = (\<lparr>tv_sec = 0, tv_nsec = 0\<rparr>, ?w)" by (simp add: now_monotonic_def sim_rt_def Let_def)
  obtain k st st' where k: "k \<le> 2" "rounds k body st0 = Some st" "\<not> sim_tsf (s_world st) 3 \<noteq> sim_tsf (s_world st) 5"
    "run_single Release True (read_tsf (sim_sys True) True) (write_tsf (sim_sys True)) sim_rt
       (\<lambda>w. sim_tsf w 3 \<noteq> sim_tsf w 5) ?m ?fs (replicate (length ?fs) ?c) 10000000 0 0 ?w = Some st'"
    "s_world st' = s_world st" "s_stats st' = stats_new"
    using run_single_stops [OF sim_loop.sync_env_axioms [of True True] _ _ _ now _ _ _ body_def st0_def cleared]
    by (auto simp: p_controller_def controller_new_def tsf_err_def)
  have "tsf_err (sim_tsf (s_world st) 3) (sim_tsf (s_world st) 5) = 0" using k(3) by (simp add: eq)
  then have "\<not> k < 2" using dist [of k] k(2) by auto
  then have "k = 2" using k(1) by simp
  then show ?thesis using k unfolding body_def st0_def by auto
qed

end
