(* ===== verification/Parallel.thy ===== *)
theory Parallel
  imports Threading
begin

text \<open>
  The parallel mode of the debugfs tool (run\_parallel in threading.rs, with the RUNNING flag of
  signal.rs): a sampler thread and one worker thread per follower meet at two barriers of
  \<open>n + 1\<close> threads.  Every statement between two shared accesses is one step; a barrier counts
  its arrivals and the last one releases all that wait.  The step relation is over an
  arbitrary TSF file interface \<open>rd\<close>, \<open>wr\<close>; a worker whose correction panics is gone.  The line of statistics
  that a worker prints when it ends is not an event of the model.
\<close>

section \<open>Threads and barriers\<close>

datatype worker_pc = WTest | WArrive1 | WWait1 | WRecheck | WLoad | WCorrect u64 | WArrive2 | WWait2 | WDone | WPanicked

datatype sampler_pc = STest | SRead | SArrive1 | SWait1 | SArrive2 | SWait2 | SPost | SFinal | SFinalWait | SJoin | SDone | SPanicked

record worker =
  w_pc :: worker_pc
  w_controller :: controller
  w_stats :: welford_stats

record 'w par_state =
  p_world :: 'w
  p_running :: bool
  p_master_tsf :: u64
  p_sampler :: sampler_pc
  p_workers :: "worker list"
  p_barrier1 :: nat
  p_barrier2 :: nat
  p_cycle :: u64
  p_deadline :: timespec
  p_sampler_stats :: welford_stats
  p_events :: "sync_event list"

definition worker_new :: "controller \<Rightarrow> worker" where
  "worker_new c = \<lparr>w_pc = WTest, w_controller = c, w_stats = stats_new\<rparr>"

definition par_init :: "controller list \<Rightarrow> timespec \<Rightarrow> 'w \<Rightarrow> 'w par_state" where
  "par_init controllers deadline w =
     \<lparr>p_world = w, p_running = True, p_master_tsf = 0, p_sampler = STest,
      p_workers = map worker_new controllers, p_barrier1 = 0, p_barrier2 = 0,
      p_cycle = 0, p_deadline = deadline, p_sampler_stats = stats_new, p_events = []\<rparr>"

text \<open>Arriving at a barrier of \<open>n + 1\<close> threads: the last arrival releases those that wait.\<close>

definition release1 :: "'w par_state \<Rightarrow> 'w par_state" where
  "release1 s = s\<lparr>
     p_barrier1 := 0,
     p_workers := map (\<lambda>w. if w_pc w = WWait1 then w\<lparr>w_pc := WRecheck\<rparr> else w) (p_workers s),
     p_sampler := (if p_sampler s = SWait1 then SArrive2
                   else if p_sampler s = SFinalWait then SJoin else p_sampler s)\<rparr>"

definition release2 :: "'w par_state \<Rightarrow> 'w par_state" where
  "release2 s = s\<lparr>
     p_barrier2 := 0,
     p_workers := map (\<lambda>w. if w_pc w = WWait2 then w\<lparr>w_pc := WTest\<rparr> else w) (p_workers s),
     p_sampler := (if p_sampler s = SWait2 then SPost else p_sampler s)\<rparr>"

definition arrive1 :: "nat \<Rightarrow> 'w par_state \<Rightarrow> 'w par_state" where
  "arrive1 n s = (if p_barrier1 s + 1 < n + 1 then s\<lparr>p_barrier1 := p_barrier1 s + 1\<rparr> else release1 s)"

definition arrive2 :: "nat \<Rightarrow> 'w par_state \<Rightarrow> 'w par_state" where
  "arrive2 n s = (if p_barrier2 s + 1 < n + 1 then s\<lparr>p_barrier2 := p_barrier2 s + 1\<rparr> else release2 s)"

definition set_worker :: "nat \<Rightarrow> worker \<Rightarrow> 'w par_state \<Rightarrow> 'w par_state" where
  "set_worker i wk s = s\<lparr>p_workers := (p_workers s)[i := wk]\<rparr>"

abbreviation goto :: "nat \<Rightarrow> worker_pc \<Rightarrow> 'w par_state \<Rightarrow> 'w par_state" where
  "goto i pc s \<equiv> set_worker i ((p_workers s ! i)\<lparr>w_pc := pc\<rparr>) s"

section \<open>Steps\<close>

text \<open>One step of worker \<open>i\<close> with its file; \<open>None\<close> when it waits or has ended.\<close>

definition worker_step ::
    "profile \<Rightarrow> ('k \<Rightarrow> 'w \<Rightarrow> (io_error + u64) option \<times> 'w) \<Rightarrow>
     ('k \<Rightarrow> u64 \<Rightarrow> 'w \<Rightarrow> (io_error + unit) option \<times> 'w) \<Rightarrow> 'k list \<Rightarrow> nat \<Rightarrow>
     'w par_state \<Rightarrow> 'w par_state option" where
  "worker_step pr rd wr followers i s =
     (let wk = p_workers s ! i; n = length followers
      in case w_pc wk of
           WTest \<Rightarrow> Some (goto i (if p_running s then WArrive1 else WDone) s)
         | WArrive1 \<Rightarrow> Some (arrive1 n (goto i WWait1 s))
         | WRecheck \<Rightarrow> Some (goto i (if p_running s then WLoad else WDone) s)
         | WLoad \<Rightarrow> Some (goto i (WCorrect (p_master_tsf s)) s)
         | WCorrect m \<Rightarrow>
             (case correct_follower pr rd wr (followers ! i) (w_controller wk) m (p_world s) of
                None \<Rightarrow> Some (goto i WPanicked s)
              | Some (res, c, w) \<Rightarrow>
                  (case (case res of
                           Some (step, err) \<Rightarrow> stats_update pr (w_stats wk) err step
                         | None \<Rightarrow> Some (w_stats wk)) of
                     None \<Rightarrow> Some (goto i WPanicked (s\<lparr>p_world := w\<rparr>))
                   | Some stats \<Rightarrow>
                       Some (set_worker i \<lparr>w_pc = WArrive2, w_controller = c, w_stats = stats\<rparr>
                               (s\<lparr>p_world := w\<rparr>))))
         | WArrive2 \<Rightarrow> Some (arrive2 n (goto i WWait2 s))
         | _ \<Rightarrow> None)"

text \<open>
  One step of the sampler; \<open>None\<close> when it waits, has ended or sleeps for ever.
\<close>

definition sampler_step ::
    "profile \<Rightarrow> bool \<Rightarrow> ('k \<Rightarrow> 'w \<Rightarrow> (io_error + u64) option \<times> 'w) \<Rightarrow> 'w rt_sys \<Rightarrow> 'k \<Rightarrow> nat \<Rightarrow>
     i64 \<Rightarrow> u64 \<Rightarrow> u64 \<Rightarrow> 'w par_state \<Rightarrow> 'w par_state option" where
  "sampler_step pr x86_64 rd rt master n period_ns interval rms_warn_us s =
     (case p_sampler s of
        STest \<Rightarrow> Some (s\<lparr>p_sampler := (if p_running s then SRead else SFinal)\<rparr>)
      | SRead \<Rightarrow>
          (case rd master (p_world s) of
             (Some (Inr v), w) \<Rightarrow> Some (s\<lparr>p_world := w, p_master_tsf := v, p_sampler := SArrive1\<rparr>)
           | (Some (Inl e), w) \<Rightarrow>
               Some (s\<lparr>p_world := w, p_events := p_events s @ [MasterReadFailed e], p_sampler := SArrive1\<rparr>)
           | (None, w) \<Rightarrow> Some (s\<lparr>p_world := w, p_sampler := SPanicked\<rparr>))
      | SArrive1 \<Rightarrow> Some (arrive1 n (s\<lparr>p_sampler := SWait1\<rparr>))
      | SArrive2 \<Rightarrow> Some (arrive2 n (s\<lparr>p_sampler := SWait2\<rparr>))
      | SPost \<Rightarrow>
          (case (add_u64 pr (p_cycle s) 1, advance_deadline pr (p_deadline s) period_ns) of
             (Some cycle, Some deadline) \<Rightarrow>
               (case check_stats (p_sampler_stats s) cycle interval rms_warn_us ''sync'' of
                  (stats, evs) \<Rightarrow>
                    map_option
                      (\<lambda>w. s\<lparr>p_world := w, p_cycle := cycle, p_deadline := deadline,
                             p_sampler_stats := stats, p_events := p_events s @ evs, p_sampler := STest\<rparr>)
                      (sleep_until x86_64 rt deadline (p_world s)))
           | _ \<Rightarrow> Some (s\<lparr>p_sampler := SPanicked\<rparr>))
      | SFinal \<Rightarrow> Some (arrive1 n (s\<lparr>p_sampler := SFinalWait\<rparr>))
      | SJoin \<Rightarrow>
          (if list_all (\<lambda>w. w_pc w = WDone \<or> w_pc w = WPanicked) (p_workers s)
           then Some (s\<lparr>p_sampler := SDone\<rparr>) else None)
      | _ \<Rightarrow> None)"

text \<open>The fixed arguments of run\_parallel.\<close>

record ('k, 'w) par_args =
  a_profile :: profile
  a_x86_64 :: bool
  a_rd :: "'k \<Rightarrow> 'w \<Rightarrow> (io_error + u64) option \<times> 'w"
  a_wr :: "'k \<Rightarrow> u64 \<Rightarrow> 'w \<Rightarrow> (io_error + unit) option \<times> 'w"
  a_rt :: "'w rt_sys"
  a_master :: 'k
  a_followers :: "'k list"
  a_period_ns :: i64
  a_interval :: u64
  a_rms_warn :: u64

inductive par_step :: "('k, 'w) par_args \<Rightarrow> 'w par_state \<Rightarrow> 'w par_state \<Rightarrow> bool" for a where
  worker: "i < length (p_workers s) \<Longrightarrow>
    worker_step (a_profile a) (a_rd a) (a_wr a) (a_followers a) i s = Some s' \<Longrightarrow> par_step a s s'"
| sampler: "sampler_step (a_profile a) (a_x86_64 a) (a_rd a) (a_rt a) (a_master a) (length (a_followers a))
      (a_period_ns a) (a_interval a) (a_rms_warn a) s = Some s' \<Longrightarrow> par_step a s s'"
| signal_handler: "p_running s \<Longrightarrow> par_step a s (s\<lparr>p_running := False\<rparr>)"

inductive_cases par_stepE: "par_step a s s'"

abbreviation par_reach :: "('k, 'w) par_args \<Rightarrow> 'w par_state \<Rightarrow> 'w par_state \<Rightarrow> bool" where
  "par_reach a \<equiv> (par_step a)\<^sup>*\<^sup>*"

section \<open>The barrier invariant\<close>

definition waiting :: "worker_pc \<Rightarrow> worker list \<Rightarrow> nat" where
  "waiting pc ws = length (filter (\<lambda>w. w_pc w = pc) ws)"

text \<open>
  \<open>before\<close>: a worker between the second barrier and the first; \<open>between\<close>: a worker that has
  passed the first barrier and holds, if any, the master value now published.
\<close>

definition before :: "'w par_state \<Rightarrow> worker \<Rightarrow> bool" where
  "before s wk \<longleftrightarrow> w_pc wk \<in> {WTest, WArrive1, WWait1, WPanicked} \<or> w_pc wk = WDone \<and> \<not> p_running s"

definition between :: "'w par_state \<Rightarrow> worker \<Rightarrow> bool" where
  "between s wk \<longleftrightarrow> w_pc wk \<in> {WRecheck, WLoad, WCorrect (p_master_tsf s), WArrive2, WWait2, WPanicked} \<or>
     w_pc wk = WDone \<and> \<not> p_running s"

lemma between_world [simp]: "between (s\<lparr>p_world := w\<rparr>) = between s"
  by (rule ext) (simp add: between_def)

lemma before_world [simp]: "before (s\<lparr>p_world := w\<rparr>) = before s"
  by (rule ext) (simp add: before_def)

definition leaving :: "worker \<Rightarrow> bool" where
  "leaving wk \<longleftrightarrow> w_pc wk \<in> {WRecheck, WDone, WPanicked}"

definition phase_ok :: "'w par_state \<Rightarrow> bool" where
  "phase_ok s \<longleftrightarrow>
     (if p_sampler s \<in> {SArrive2, SWait2} then list_all (between s) (p_workers s)
      else if p_sampler s \<in> {SJoin, SDone} then list_all leaving (p_workers s)
      else list_all (before s) (p_workers s)) \<and>
     (p_sampler s \<in> {SFinal, SFinalWait, SJoin, SDone} \<longrightarrow> \<not> p_running s)"

definition par_inv :: "nat \<Rightarrow> 'w par_state \<Rightarrow> bool" where
  "par_inv n s \<longleftrightarrow> length (p_workers s) = n \<and> phase_ok s \<and>
     p_barrier1 s = waiting WWait1 (p_workers s) + of_bool (p_sampler s \<in> {SWait1, SFinalWait}) \<and>
     p_barrier2 s = waiting WWait2 (p_workers s) + of_bool (p_sampler s = SWait2)"

lemma waiting_update:
  "i < length ws \<Longrightarrow> waiting pc (ws[i := wk]) + of_bool (w_pc (ws ! i) = pc) = waiting pc ws + of_bool (w_pc wk = pc)"
proof (induction ws arbitrary: i)
  case (Cons w ws)
  then show ?case by (cases i) (auto simp: waiting_def)
qed simp

lemma waiting_le: "waiting pc ws \<le> length ws"
  by (simp add: waiting_def)

lemma waiting_all: "waiting pc ws = length ws \<longleftrightarrow> list_all (\<lambda>w. w_pc w = pc) ws"
proof (induction ws)
  case (Cons w ws)
  have "length (filter (\<lambda>w. w_pc w = pc) ws) \<noteq> Suc (length ws)"
    by (metis Suc_n_not_le_n length_filter_le)
  with Cons show ?case by (auto simp: waiting_def)
qed (simp add: waiting_def)

lemma waiting_none: "waiting pc ws = 0 \<longleftrightarrow> list_all (\<lambda>w. w_pc w \<noteq> pc) ws"
  by (simp add: waiting_def filter_empty_conv list_all_iff)

lemma list_all_update: "list_all P ws \<Longrightarrow> P wk \<Longrightarrow> list_all P (ws[i := wk])"
  by (auto simp: list_all_iff dest!: set_update_subset_insert [THEN subsetD])

text \<open>An arrival: the arriving thread is marked as waiting, the counter not yet raised.\<close>

lemma arrive1_inv:
  assumes "length (p_workers s) = n" "phase_ok s"
    "p_sampler s \<notin> {SArrive2, SWait2, SJoin, SDone}"
    "p_barrier1 s + 1 = waiting WWait1 (p_workers s) + of_bool (p_sampler s \<in> {SWait1, SFinalWait})"
    "p_barrier2 s = waiting WWait2 (p_workers s)"
  shows "par_inv n (arrive1 n s)"
proof (cases "p_barrier1 s + 1 < n + 1")
  case True
  then show ?thesis using assms by (auto simp: arrive1_def par_inv_def phase_ok_def before_def [abs_def])
next
  case False
  then have s: "p_sampler s \<in> {SWait1, SFinalWait}" and w: "waiting WWait1 (p_workers s) = length (p_workers s)"
    using assms(1,4) waiting_le [of WWait1 "p_workers s"] by (auto simp: of_bool_def split: if_splits)
  have all: "list_all (\<lambda>w. w_pc w = WWait1) (p_workers s)" using w by (simp only: waiting_all)
  then have m: "map (\<lambda>w. if w_pc w = WWait1 then w\<lparr>w_pc := WRecheck\<rparr> else w) (p_workers s) =
      map (\<lambda>w. w\<lparr>w_pc := WRecheck\<rparr>) (p_workers s)"
    by (simp add: list_all_iff)
  have "waiting pc (map (\<lambda>w. w\<lparr>w_pc := WRecheck\<rparr>) (p_workers s)) = 0" if "pc \<noteq> WRecheck" for pc
    using that by (auto simp: waiting_none list_all_iff)
  moreover have "waiting WWait2 (p_workers s) = 0" using all by (auto simp: waiting_none list_all_iff)
  ultimately show ?thesis
    using False s assms by (auto simp: arrive1_def release1_def par_inv_def phase_ok_def m list_all_iff between_def leaving_def)
qed

lemma arrive2_inv:
  assumes "length (p_workers s) = n" "phase_ok s" "p_sampler s \<in> {SArrive2, SWait2}"
    "p_barrier2 s + 1 = waiting WWait2 (p_workers s) + of_bool (p_sampler s = SWait2)"
    "p_barrier1 s = waiting WWait1 (p_workers s)"
  shows "par_inv n (arrive2 n s)"
proof (cases "p_barrier2 s + 1 < n + 1")
  case True
  then show ?thesis using assms by (auto simp: arrive2_def par_inv_def phase_ok_def between_def [abs_def])
next
  case False
  then have s: "p_sampler s = SWait2" and w: "waiting WWait2 (p_workers s) = length (p_workers s)"
    using assms(1,4) waiting_le [of WWait2 "p_workers s"] by (auto simp: of_bool_def split: if_splits)
  have all: "list_all (\<lambda>w. w_pc w = WWait2) (p_workers s)" using w by (simp only: waiting_all)
  then have m: "map (\<lambda>w. if w_pc w = WWait2 then w\<lparr>w_pc := WTest\<rparr> else w) (p_workers s) =
      map (\<lambda>w. w\<lparr>w_pc := WTest\<rparr>) (p_workers s)"
    by (simp add: list_all_iff)
  have "waiting pc (map (\<lambda>w. w\<lparr>w_pc := WTest\<rparr>) (p_workers s)) = 0" if "pc \<noteq> WTest" for pc
    using that by (auto simp: waiting_none list_all_iff)
  moreover have "waiting WWait1 (p_workers s) = 0" using all by (auto simp: waiting_none list_all_iff)
  ultimately show ?thesis
    using False s assms by (auto simp: arrive2_def release2_def par_inv_def phase_ok_def m list_all_iff before_def)
qed

lemma par_inv_worker: "par_inv n s \<Longrightarrow> i < n \<Longrightarrow>
   p_sampler s \<in> {SArrive2, SWait2} \<and> between s (p_workers s ! i) \<or>
   p_sampler s \<in> {SJoin, SDone} \<and> leaving (p_workers s ! i) \<or>
   p_sampler s \<notin> {SArrive2, SWait2, SJoin, SDone} \<and> before s (p_workers s ! i)"
  by (auto simp: par_inv_def phase_ok_def list_all_length split: if_splits)

lemma phase_ok_set_worker:
  assumes "phase_ok s"
    "p_sampler s \<in> {SArrive2, SWait2} \<Longrightarrow> between s wk"
    "p_sampler s \<in> {SJoin, SDone} \<Longrightarrow> leaving wk"
    "p_sampler s \<notin> {SArrive2, SWait2, SJoin, SDone} \<Longrightarrow> before s wk"
  shows "phase_ok (set_worker i wk s)"
  using assms
  by (auto simp: phase_ok_def set_worker_def between_def [abs_def] before_def [abs_def] intro!: list_all_update split: if_splits)

lemma set_worker_inv:
  assumes "par_inv n s" "i < n" "w_pc (p_workers s ! i) \<notin> {WWait1, WWait2}" "w_pc wk \<notin> {WWait1, WWait2}"
    "p_sampler s \<in> {SArrive2, SWait2} \<Longrightarrow> between s wk"
    "p_sampler s \<in> {SJoin, SDone} \<Longrightarrow> leaving wk"
    "p_sampler s \<notin> {SArrive2, SWait2, SJoin, SDone} \<Longrightarrow> before s wk"
  shows "par_inv n (set_worker i wk s)"
proof -
  have "phase_ok (set_worker i wk s)"
    using assms by (intro phase_ok_set_worker) (auto simp: par_inv_def)
  moreover have "waiting pc ((p_workers s)[i := wk]) = waiting pc (p_workers s)" if "pc = WWait1 \<or> pc = WWait2" for pc
    using waiting_update [of i "p_workers s" pc wk] that assms by (auto simp: par_inv_def)
  ultimately show ?thesis using assms(1) by (simp add: par_inv_def set_worker_def)
qed

text \<open>A correction ends at the second barrier or in a panic.\<close>

lemma worker_correct:
  assumes pc: "w_pc (p_workers s ! i) = WCorrect m" and st: "worker_step pr rd wr fs i s = Some s'"
  shows "\<exists>w wk. s' = set_worker i wk (s\<lparr>p_world := w\<rparr>) \<and> (w_pc wk = WPanicked \<or> w_pc wk = WArrive2)"
proof -
  have pan: "\<exists>w wk. goto i WPanicked s = set_worker i wk (s\<lparr>p_world := w\<rparr>) \<and> (w_pc wk = WPanicked \<or> w_pc wk = WArrive2)"
    by (rule exI [of _ "p_world s"], rule exI [of _ "(p_workers s ! i)\<lparr>w_pc := WPanicked\<rparr>"]) simp
  have pan': "\<exists>w' wk. goto i WPanicked (s\<lparr>p_world := w\<rparr>) = set_worker i wk (s\<lparr>p_world := w'\<rparr>) \<and> (w_pc wk = WPanicked \<or> w_pc wk = WArrive2)" for w
    by (rule exI [of _ w], rule exI [of _ "(p_workers s ! i)\<lparr>w_pc := WPanicked\<rparr>"]) simp
  have arr: "\<exists>w' wk. set_worker i \<lparr>w_pc = WArrive2, w_controller = c, w_stats = st\<rparr> (s\<lparr>p_world := w\<rparr>) =
      set_worker i wk (s\<lparr>p_world := w'\<rparr>) \<and> (w_pc wk = WPanicked \<or> w_pc wk = WArrive2)" for c st w
    by (rule exI [of _ w], rule exI [of _ "\<lparr>w_pc = WArrive2, w_controller = c, w_stats = st\<rparr>"]) simp
  show ?thesis
    using st pc pan pan' arr
    by (simp add: worker_step_def Let_def split: option.splits prod.splits) (metis | fastforce)+
qed

lemma worker_step_inv:
  assumes inv: "par_inv n s" and i: "i < n" "length fs = n" and st: "worker_step pr rd wr fs i s = Some s'"
  shows "par_inv n s'"
proof -
  let ?wk = "p_workers s ! i"
  note ph = par_inv_worker [OF inv i(1)]
  have len: "length (p_workers s) = n" and ok: "phase_ok s" using inv by (simp_all add: par_inv_def)
  have wld: "par_inv n (s\<lparr>p_world := w\<rparr>)" for w
    using inv by (simp add: par_inv_def phase_ok_def)
  show ?thesis
  proof (cases "w_pc ?wk")
    case WTest
    with st have s': "s' = goto i (if p_running s then WArrive1 else WDone) s"
      by (simp add: worker_step_def Let_def)
    show ?thesis unfolding s' using inv i WTest ph
      by (intro set_worker_inv) (auto simp: before_def between_def leaving_def)
  next
    case WArrive1
    with st i have s': "s' = arrive1 n (goto i WWait1 s)" by (simp add: worker_step_def Let_def)
    have samp: "p_sampler s \<notin> {SArrive2, SWait2, SJoin, SDone}"
      using ph WArrive1 by (auto simp: before_def between_def leaving_def)
    have w: "waiting WWait1 (p_workers (goto i WWait1 s)) = waiting WWait1 (p_workers s) + 1"
      "waiting WWait2 (p_workers (goto i WWait1 s)) = waiting WWait2 (p_workers s)"
      using waiting_update [of i "p_workers s" WWait1 "?wk\<lparr>w_pc := WWait1\<rparr>"]
        waiting_update [of i "p_workers s" WWait2 "?wk\<lparr>w_pc := WWait1\<rparr>"] i len WArrive1
      by (simp_all add: set_worker_def)
    show ?thesis unfolding s'
    proof (rule arrive1_inv)
      show "phase_ok (goto i WWait1 s)" using ok samp by (intro phase_ok_set_worker) (auto simp: before_def)
      show "p_barrier1 (goto i WWait1 s) + 1 =
          waiting WWait1 (p_workers (goto i WWait1 s)) + of_bool (p_sampler (goto i WWait1 s) \<in> {SWait1, SFinalWait})"
        using inv unfolding w by (simp add: par_inv_def set_worker_def)
      show "p_barrier2 (goto i WWait1 s) = waiting WWait2 (p_workers (goto i WWait1 s))"
        using inv samp unfolding w by (simp add: par_inv_def set_worker_def)
    qed (use samp len in \<open>simp_all add: set_worker_def\<close>)
  next
    case WRecheck
    with st have s': "s' = goto i (if p_running s then WLoad else WDone) s"
      by (simp add: worker_step_def Let_def)
    have "p_running s \<Longrightarrow> p_sampler s \<notin> {SJoin, SDone}" using ok by (auto simp: phase_ok_def)
    then show ?thesis unfolding s' using inv i WRecheck ph
      by (intro set_worker_inv) (auto simp: before_def between_def leaving_def)
  next
    case WLoad
    with st have s': "s' = goto i (WCorrect (p_master_tsf s)) s" by (simp add: worker_step_def Let_def)
    show ?thesis unfolding s' using inv i WLoad ph
      by (intro set_worker_inv) (auto simp: before_def between_def leaving_def)
  next
    case (WCorrect m)
    then have samp: "p_sampler s \<in> {SArrive2, SWait2}"
      using ph by (auto simp: before_def leaving_def)
    from worker_correct [OF WCorrect st]
    obtain w wk where s': "s' = set_worker i wk (s\<lparr>p_world := w\<rparr>)" "w_pc wk = WPanicked \<or> w_pc wk = WArrive2"
      by blast
    show ?thesis unfolding s'(1) using i WCorrect samp s'(2)
      by (intro set_worker_inv [OF wld]) (auto simp: between_def)
  next
    case WArrive2
    with st i have s': "s' = arrive2 n (goto i WWait2 s)" by (simp add: worker_step_def Let_def)
    have samp: "p_sampler s \<in> {SArrive2, SWait2}" using ph WArrive2 by (auto simp: before_def leaving_def)
    have w: "waiting WWait2 (p_workers (goto i WWait2 s)) = waiting WWait2 (p_workers s) + 1"
      "waiting WWait1 (p_workers (goto i WWait2 s)) = waiting WWait1 (p_workers s)"
      using waiting_update [of i "p_workers s" WWait2 "?wk\<lparr>w_pc := WWait2\<rparr>"]
        waiting_update [of i "p_workers s" WWait1 "?wk\<lparr>w_pc := WWait2\<rparr>"] i len WArrive2
      by (simp_all add: set_worker_def)
    show ?thesis unfolding s'
    proof (rule arrive2_inv)
      show "phase_ok (goto i WWait2 s)" using ok samp by (intro phase_ok_set_worker) (auto simp: between_def)
      show "p_barrier2 (goto i WWait2 s) + 1 =
          waiting WWait2 (p_workers (goto i WWait2 s)) + of_bool (p_sampler (goto i WWait2 s) = SWait2)"
        using inv unfolding w by (simp add: par_inv_def set_worker_def)
      show "p_barrier1 (goto i WWait2 s) = waiting WWait1 (p_workers (goto i WWait2 s))"
        using inv samp unfolding w by (auto simp: par_inv_def set_worker_def)
    qed (use samp len in \<open>simp_all add: set_worker_def\<close>)
  qed (use st in \<open>simp_all add: worker_step_def Let_def\<close>)
qed

lemma phase_ok_sampler:
  assumes "phase_ok s" "p_sampler s \<notin> {SArrive2, SWait2, SJoin, SDone}" "sp \<notin> {SArrive2, SWait2, SJoin, SDone}"
    "sp \<in> {SFinal, SFinalWait} \<Longrightarrow> \<not> p_running s"
  shows "phase_ok (s\<lparr>p_sampler := sp\<rparr>)"
proof -
  have "before (s\<lparr>p_sampler := sp\<rparr>) = before s" by (rule ext) (simp add: before_def)
  then show ?thesis using assms by (auto simp: phase_ok_def)
qed

lemma sampler_other_inv:
  assumes "par_inv n s" "p_sampler s \<in> {STest, SRead, SPost}" "p_sampler s' \<in> {STest, SRead, SFinal, SArrive1, SPanicked}"
    "p_sampler s' = SFinal \<Longrightarrow> \<not> p_running s"
    "p_workers s' = p_workers s" "p_barrier1 s' = p_barrier1 s" "p_barrier2 s' = p_barrier2 s"
    "p_running s' = p_running s"
  shows "par_inv n s'"
proof -
  have before: "before s' = before s" using assms(8) by (intro ext) (simp add: before_def)
  have s: "p_sampler s \<notin> {SArrive2, SWait2, SJoin, SDone}" "p_sampler s \<notin> {SWait1, SFinalWait}" "p_sampler s \<noteq> SWait2"
    using assms(2) by auto
  have s': "p_sampler s' \<notin> {SArrive2, SWait2, SJoin, SDone}" "p_sampler s' \<notin> {SWait1, SFinalWait}" "p_sampler s' \<noteq> SWait2"
    "p_sampler s' \<in> {SFinal, SFinalWait, SJoin, SDone} \<longrightarrow> p_sampler s' = SFinal"
    using assms(3) by auto
  have "list_all (before s) (p_workers s)" using assms(1) s(1) by (simp add: par_inv_def phase_ok_def)
  then have "phase_ok s'"
    using s'(1,4) assms(4,5,8) before by (simp only: phase_ok_def if_False) (metis insert_iff)
  then show ?thesis using assms(1,5-7) s(2,3) s'(2,3) by (simp only: par_inv_def of_bool_def if_False)
qed

lemma sampler_step_inv:
  assumes inv: "par_inv n s" and st: "sampler_step pr x86 rd rt m n period interval warn s = Some s'"
  shows "par_inv n s'"
proof -
  have len: "length (p_workers s) = n" and ok: "phase_ok s" using inv by (simp_all add: par_inv_def)
  show ?thesis
  proof (cases "p_sampler s")
    case STest
    with st have s': "s' = s\<lparr>p_sampler := (if p_running s then SRead else SFinal)\<rparr>" by (simp add: sampler_step_def)
    show ?thesis unfolding s' by (rule sampler_other_inv [OF inv]) (simp_all add: STest split: if_splits)
  next
    case SRead
    with st have "p_workers s' = p_workers s \<and> p_barrier1 s' = p_barrier1 s \<and> p_barrier2 s' = p_barrier2 s \<and>
        p_running s' = p_running s \<and> p_sampler s' \<in> {SArrive1, SPanicked}"
      by (auto simp: sampler_step_def split: prod.splits option.splits sum.splits)
    then show ?thesis using SRead by (intro sampler_other_inv [OF inv]) auto
  next
    case SPost
    with st have "p_workers s' = p_workers s \<and> p_barrier1 s' = p_barrier1 s \<and> p_barrier2 s' = p_barrier2 s \<and>
        p_running s' = p_running s \<and> p_sampler s' \<in> {STest, SPanicked}"
      by (auto simp: sampler_step_def split: prod.splits option.splits)
    then show ?thesis using SPost by (intro sampler_other_inv [OF inv]) auto
  next
    case SArrive1
    with st have s': "s' = arrive1 n (s\<lparr>p_sampler := SWait1\<rparr>)" by (simp add: sampler_step_def)
    show ?thesis unfolding s' using inv SArrive1 len ok
      by (intro arrive1_inv phase_ok_sampler) (auto simp: par_inv_def)
  next
    case SFinal
    with st have s': "s' = arrive1 n (s\<lparr>p_sampler := SFinalWait\<rparr>)" by (simp add: sampler_step_def)
    show ?thesis unfolding s' using inv SFinal len ok
      by (intro arrive1_inv phase_ok_sampler) (auto simp: par_inv_def phase_ok_def)
  next
    case SArrive2
    with st have s': "s' = arrive2 n (s\<lparr>p_sampler := SWait2\<rparr>)" by (simp add: sampler_step_def)
    have "between (s\<lparr>p_sampler := SWait2\<rparr>) = between s" by (rule ext) (simp add: between_def)
    then have "phase_ok (s\<lparr>p_sampler := SWait2\<rparr>)" using ok SArrive2 by (simp add: phase_ok_def)
    then show ?thesis unfolding s' using inv SArrive2 len
      by (intro arrive2_inv) (auto simp: par_inv_def)
  next
    case SJoin
    with st have s': "s' = s\<lparr>p_sampler := SDone\<rparr>" by (auto simp: sampler_step_def split: if_splits)
    show ?thesis unfolding s' using inv SJoin by (simp add: par_inv_def phase_ok_def)
  qed (use st in \<open>simp_all add: sampler_step_def\<close>)
qed

lemma signal_inv: "par_inv n s \<Longrightarrow> par_inv n (s\<lparr>p_running := False\<rparr>)"
  by (auto simp: par_inv_def phase_ok_def between_def before_def list_all_iff split: if_splits)

lemma par_step_inv:
  assumes "par_step a s s'" "par_inv (length (a_followers a)) s"
  shows "par_inv (length (a_followers a)) s'"
  using assms
proof (induction rule: par_step.induct)
  case (worker i s s')
  then have "i < length (a_followers a)" by (simp add: par_inv_def)
  with worker show ?case by (intro worker_step_inv [OF worker(3) _ refl worker(2)])
next
  case (sampler s s')
  then show ?case by (intro sampler_step_inv [OF sampler(2,1)])
next
  case (signal_handler s)
  then show ?case by (intro signal_inv)
qed

lemma par_init_inv: "length controllers = n \<Longrightarrow> par_inv n (par_init controllers dl w)"
  by (auto simp: par_inv_def par_init_def phase_ok_def before_def worker_new_def waiting_def list_all_iff filter_empty_conv)

lemma par_reach_inv:
  assumes "par_reach a (par_init controllers dl w) s" "length controllers = length (a_followers a)"
  shows "par_inv (length (a_followers a)) s"
  using assms(1)
proof (induction rule: rtranclp_induct)
  case base
  show ?case using assms(2) by (rule par_init_inv)
next
  case (step s s')
  then show ?case using par_step_inv by blast
qed

section \<open>The statistics of the sampler\<close>

lemma f64_of_u64_nonneg: "\<not> f64_of_u64 n < 0"
proof -
  have "(of_int 0 :: rat) \<le> of_int (uint n)" by (simp only: of_int_le_iff unsigned_greater_eq)
  then have "(0 :: rat) \<le> of_int (uint n)" by (simp only: of_int_0)
  then show ?thesis unfolding f64_of_u64_def by (simp only: not_less f64_round_nonneg)
qed

lemma rms_new: "rms stats_new = 0"
  by (simp add: rms_def stats_new_def)

lemma check_stats_new: "check_stats stats_new cycle interval warn label = (stats_new, [])"
proof -
  have "print_and_reset stats_new label = (0, stats_new, None)"
    by (simp add: print_and_reset_def Let_def rms_new) (simp add: stats_new_def)
  then show ?thesis by (simp add: check_stats_def f64_of_u64_nonneg)
qed

definition quiet :: "'w par_state \<Rightarrow> bool" where
  "quiet s \<longleftrightarrow> p_sampler_stats s = stats_new \<and> (\<forall>e \<in> set (p_events s). \<exists>io. e = MasterReadFailed io)"

lemma arrive_quiet [simp]: "quiet (arrive1 n s) = quiet s" "quiet (arrive2 n s) = quiet s"
  by (simp_all add: arrive1_def arrive2_def release1_def release2_def quiet_def)

lemma set_worker_quiet [simp]: "quiet (set_worker i wk s) = quiet s"
  by (simp add: set_worker_def quiet_def)

lemma quiet_upd [simp]:
  "quiet (s\<lparr>p_world := w\<rparr>) = quiet s" "quiet (s\<lparr>p_sampler := sp\<rparr>) = quiet s" "quiet (s\<lparr>p_running := b\<rparr>) = quiet s"
  by (simp_all add: quiet_def)

lemma worker_step_quiet:
  assumes "worker_step pr rd wr fs i s = Some s'" "quiet s"
  shows "quiet s'"
proof (cases "w_pc (p_workers s ! i)")
  case (WCorrect m)
  with assms show ?thesis
    by (auto simp: worker_step_def Let_def split: option.split_asm prod.split_asm)
qed (use assms in \<open>auto simp: worker_step_def Let_def\<close>)

lemma sampler_step_quiet:
  assumes "sampler_step pr x86 rd rt m n period interval warn s = Some s'" "quiet s"
  shows "quiet s'"
proof (cases "p_sampler s")
  case SRead
  with assms show ?thesis
    by (auto simp: sampler_step_def quiet_def split: option.split_asm prod.split_asm sum.split_asm)
next
  case SPost
  have "p_sampler_stats s = stats_new" using assms(2) by (simp add: quiet_def)
  with SPost assms show ?thesis
    by (auto simp: sampler_step_def quiet_def check_stats_new split: option.split_asm)
qed (use assms in \<open>auto simp: sampler_step_def split: if_split_asm\<close>)

lemma par_step_quiet: "par_step a s s' \<Longrightarrow> quiet s \<Longrightarrow> quiet s'"
  by (erule par_stepE) (auto dest: worker_step_quiet sampler_step_quiet)

section \<open>Schedules\<close>

text \<open>A schedule names the thread that moves, or the delivery of the signal.\<close>

datatype move = MoveWorker nat | MoveSampler | MoveSignal

definition move_step :: "('k, 'w) par_args \<Rightarrow> move \<Rightarrow> 'w par_state \<Rightarrow> 'w par_state option" where
  "move_step a mv s =
     (case mv of
        MoveWorker i \<Rightarrow>
          if i < length (p_workers s)
          then worker_step (a_profile a) (a_rd a) (a_wr a) (a_followers a) i s else None
      | MoveSampler \<Rightarrow>
          sampler_step (a_profile a) (a_x86_64 a) (a_rd a) (a_rt a) (a_master a) (length (a_followers a))
            (a_period_ns a) (a_interval a) (a_rms_warn a) s
      | MoveSignal \<Rightarrow> if p_running s then Some (s\<lparr>p_running := False\<rparr>) else None)"

fun par_run :: "('k, 'w) par_args \<Rightarrow> move list \<Rightarrow> 'w par_state \<Rightarrow> 'w par_state option" where
  "par_run a [] s = Some s"
| "par_run a (mv # mvs) s = do { s \<leftarrow> move_step a mv s; par_run a mvs s }"

lemma move_step_par_step: "move_step a mv s = Some s' \<Longrightarrow> par_step a s s'"
  by (cases mv) (auto simp: move_step_def intro: par_step.intros split: if_splits)

lemma par_step_move: "par_step a s s' \<Longrightarrow> \<exists>mv. move_step a mv s = Some s'"
  by (erule par_stepE)
    (auto simp: move_step_def intro: exI [of _ "MoveWorker i" for i] exI [of _ MoveSampler] exI [of _ MoveSignal])

lemma par_run_reach: "par_run a mvs s = Some s' \<Longrightarrow> par_reach a s s'"
proof (induction mvs arbitrary: s)
  case (Cons mv mvs)
  then obtain s1 where "move_step a mv s = Some s1" "par_run a mvs s1 = Some s'"
    by (auto split: Option.bind_splits)
  then show ?case using Cons.IH move_step_par_step by (metis converse_rtranclp_into_rtranclp)
qed simp

definition stuck :: "('k, 'w) par_args \<Rightarrow> 'w par_state \<Rightarrow> bool" where
  "stuck a s \<longleftrightarrow> (\<forall>s'. \<not> par_step a s s')"

lemma stuckI:
  assumes "\<not> p_running s" "p_sampler s \<in> {SWait1, SWait2, SFinalWait}"
    "\<forall>i < length (p_workers s). w_pc (p_workers s ! i) \<in> {WWait1, WWait2, WDone, WPanicked}"
  shows "stuck a s"
  unfolding stuck_def
proof (intro allI notI)
  fix s' assume "par_step a s s'"
  then show False
  proof (cases rule: par_step.cases)
    case (worker i)
    then show False using assms(3) by (auto simp: worker_step_def Let_def)
  next
    case sampler
    then show False using assms(2) by (auto simp: sampler_step_def)
  qed (use assms(1) in simp)
qed

lemmas run_simps = move_step_def worker_step_def sampler_step_def set_worker_def arrive1_def arrive2_def
  release1_def release2_def par_init_def worker_new_def Let_def

section \<open>Shutting down\<close>

definition ended :: "worker \<Rightarrow> bool" where
  "ended wk \<longleftrightarrow> w_pc wk = WDone \<or> w_pc wk = WPanicked"

definition closing :: "nat \<Rightarrow> 'w par_state \<Rightarrow> bool" where
  "closing n s \<longleftrightarrow> par_inv n s \<and> \<not> p_running s \<and>
     (p_sampler s \<in> {STest, SFinal} \<and> list_all (\<lambda>w. w_pc w = WWait1) (p_workers s) \<or>
      p_sampler s = SJoin \<and> list_all leaving (p_workers s) \<or>
      p_sampler s = SDone \<and> list_all ended (p_workers s))"

definition steps_left :: "'w par_state \<Rightarrow> nat" where
  "steps_left s =
     (case p_sampler s of
        STest \<Rightarrow> length (p_workers s) + 3
      | SFinal \<Rightarrow> length (p_workers s) + 2
      | SJoin \<Rightarrow> waiting WRecheck (p_workers s) + 1
      | _ \<Rightarrow> waiting WRecheck (p_workers s))"

lemma closing_worker:
  assumes "closing n s" "i < n" "length fs = n" "worker_step pr rd wr fs i s = Some s'"
  shows "closing n s' \<and> steps_left s' < steps_left s"
proof -
  have inv: "par_inv n s" and len: "length (p_workers s) = n" using assms(1) by (simp_all add: closing_def par_inv_def)
  have pc: "w_pc (p_workers s ! i) \<in> {WWait1, WRecheck, WDone, WPanicked}"
    using assms(1,2) len by (auto simp: closing_def leaving_def ended_def list_all_length)
  then have re: "w_pc (p_workers s ! i) = WRecheck"
    using assms(4) by (auto simp: worker_step_def Let_def)
  then have samp: "p_sampler s = SJoin" "list_all leaving (p_workers s)"
    using assms(1,2) len by (auto simp: closing_def ended_def list_all_length)
  have s': "s' = goto i WDone s" using assms(1,4) re by (simp add: worker_step_def Let_def closing_def)
  have "par_inv n s'" by (rule worker_step_inv [OF inv assms(2,3,4)])
  moreover have "list_all leaving (p_workers s')"
    using samp(2) by (auto simp: s' set_worker_def leaving_def intro!: list_all_update)
  moreover have "waiting WRecheck (p_workers s') < waiting WRecheck (p_workers s)"
    using waiting_update [of i "p_workers s" WRecheck "(p_workers s ! i)\<lparr>w_pc := WDone\<rparr>"] re len assms(2)
    by (simp add: s' set_worker_def)
  ultimately show ?thesis using samp(1) assms(1)
    by (auto simp: closing_def s' set_worker_def steps_left_def)
qed

lemma closing_sampler:
  assumes "closing n s" "sampler_step pr x86 rd rt m n period interval warn s = Some s'"
  shows "closing n s' \<and> steps_left s' < steps_left s"
proof -
  have inv: "par_inv n s" and run: "\<not> p_running s" using assms(1) by (simp_all add: closing_def)
  have inv': "par_inv n s'" by (rule sampler_step_inv [OF inv assms(2)])
  consider "p_sampler s = STest" "list_all (\<lambda>w. w_pc w = WWait1) (p_workers s)"
    | "p_sampler s = SFinal" "list_all (\<lambda>w. w_pc w = WWait1) (p_workers s)"
    | "p_sampler s = SJoin" | "p_sampler s = SDone"
    using assms(1) by (auto simp: closing_def)
  then show ?thesis
  proof cases
    case 1
    with assms(2) run have "s' = s\<lparr>p_sampler := SFinal\<rparr>" by (simp add: sampler_step_def)
    with 1 run inv' show ?thesis by (simp add: closing_def steps_left_def)
  next
    case 2
    have "p_barrier1 s = length (p_workers s)" "length (p_workers s) = n"
      using inv 2 waiting_all [of WWait1 "p_workers s"] by (simp_all add: par_inv_def)
    then have s': "s' = release1 (s\<lparr>p_sampler := SFinalWait\<rparr>)"
      using assms(2) 2 by (simp add: sampler_step_def arrive1_def)
    have "list_all leaving (p_workers s')" using 2(2) by (auto simp: s' release1_def list_all_iff leaving_def)
    moreover have "length (p_workers s') = length (p_workers s)" by (simp add: s' release1_def)
    then have "waiting WRecheck (p_workers s') \<le> length (p_workers s)" using waiting_le [of WRecheck "p_workers s'"] by simp
    ultimately show ?thesis using inv' run 2 by (simp add: closing_def steps_left_def s' release1_def)
  next
    case 3
    with assms(2) have "s' = s\<lparr>p_sampler := SDone\<rparr>" "list_all ended (p_workers s)"
      by (simp_all add: sampler_step_def ended_def [abs_def] split: if_splits)
    with 3 run inv' show ?thesis by (simp add: closing_def steps_left_def)
  next
    case 4
    with assms(2) show ?thesis by (simp add: sampler_step_def)
  qed
qed

lemma closing_step:
  assumes "closing (length (a_followers a)) s" "par_step a s s'"
  shows "closing (length (a_followers a)) s' \<and> steps_left s' < steps_left s"
  using assms(2)
proof (cases rule: par_step.cases)
  case (worker i)
  then have "i < length (a_followers a)" using assms(1) by (simp add: closing_def par_inv_def)
  from closing_worker [OF assms(1) this refl worker(2)] show ?thesis .
next
  case sampler
  from closing_sampler [OF assms(1) sampler] show ?thesis .
next
  case signal_handler
  then show ?thesis using assms(1) by (simp add: closing_def)
qed

lemma closing_progress:
  assumes "closing (length (a_followers a)) s" "p_sampler s \<noteq> SDone"
  shows "\<not> stuck a s"
proof (cases "p_sampler s = SJoin \<and> \<not> list_all (\<lambda>w. w_pc w = WDone \<or> w_pc w = WPanicked) (p_workers s)")
  case True
  then obtain i where i: "i < length (p_workers s)" "w_pc (p_workers s ! i) = WRecheck"
    using assms(1) by (auto simp: closing_def list_all_length leaving_def)
  then have "par_step a s (goto i WDone s)"
    using assms(1) by (intro par_step.worker [of i]) (simp_all add: worker_step_def Let_def closing_def)
  then show ?thesis unfolding stuck_def by blast
next
  case False
  then have "\<exists>s'. sampler_step (a_profile a) (a_x86_64 a) (a_rd a) (a_rt a) (a_master a) (length (a_followers a))
      (a_period_ns a) (a_interval a) (a_rms_warn a) s = Some s'"
    using assms by (auto simp: closing_def sampler_step_def)
  then show ?thesis unfolding stuck_def using par_step.sampler by blast
qed

section \<open>A simulated run\<close>

definition sim_args :: "(tsf_file, debugfs_sim) par_args" where
  "sim_args = \<lparr>a_profile = Release, a_x86_64 = True, a_rd = read_tsf (sim_sys True) True,
     a_wr = write_tsf (sim_sys True), a_rt = sim_rt, a_master = \<lparr>file_fd = 3, pread_ok = True\<rparr>,
     a_followers = [\<lparr>file_fd = 5, pread_ok = True\<rparr>], a_period_ns = 10000000, a_interval = 100, a_rms_warn = 50\<rparr>"

definition sim_world :: debugfs_sim where
  "sim_world = \<lparr>sim_tsf = (\<lambda>_. 7), sim_off = (\<lambda>_. 0)\<rparr>"

definition sim_start :: "debugfs_sim par_state" where
  "sim_start = par_init [controller_new 1000000 200 False] \<lparr>tv_sec = 0, tv_nsec = 0\<rparr> sim_world"

lemma sim_read:
  obtains w1 where "read_tsf (sim_sys True) True \<lparr>file_fd = 3, pread_ok = True\<rparr> sim_world = (Some (Inr 7), w1)"
    "\<forall>d. sim_tsf w1 d = 7"
  using sim.read_tsf_returns [of "\<lparr>file_fd = 3, pread_ok = True\<rparr>" True sim_world] by (auto simp: sim_world_def)

section \<open>Properties\<close>

text \<open>C3: in every reachable state of the parallel mode, under any interleaving and with the signal at any time, a worker that corrects its follower uses the master TSF that is published now, and the sampler has not yet passed the second barrier: no publication overtakes a correction.\<close>

theorem workers_use_published_tsf:
  assumes "par_reach a (par_init controllers dl w) s" "length controllers = length (a_followers a)"
    "i < length (p_workers s)" "w_pc (p_workers s ! i) = WCorrect m"
  shows "m = p_master_tsf s \<and> p_sampler s \<in> {SArrive2, SWait2}"
  using par_inv_worker [OF par_reach_inv [OF assms(1,2)], of i] par_reach_inv [OF assms(1,2)] assms(3,4)
  by (auto simp: par_inv_def before_def between_def leaving_def)

theorem workers_use_published_tsf_witness:
  "\<exists>s. par_reach sim_args sim_start s \<and> w_pc (p_workers s ! 0) = WCorrect 7 \<and>
     7 = p_master_tsf s \<and> p_sampler s \<in> {SArrive2, SWait2}"
proof -
  obtain w1 where "read_tsf (sim_sys True) True \<lparr>file_fd = 3, pread_ok = True\<rparr> sim_world = (Some (Inr 7), w1)"
    by (rule sim_read)
  then obtain s where s: "par_run sim_args [MoveSampler, MoveSampler, MoveSampler, MoveWorker 0, MoveWorker 0, MoveWorker 0, MoveWorker 0]
      sim_start = Some s" "w_pc (p_workers s ! 0) = WCorrect 7" "length (p_workers s) = 1"
    by (simp add: run_simps sim_args_def sim_start_def)
  note r = par_run_reach [OF s(1)]
  from workers_use_published_tsf [OF r [unfolded sim_start_def] _ _ s(2)] s r show ?thesis
    by (auto simp: sim_args_def)
qed

text \<open>A termination signal that arrives while the workers have passed the first barrier but not yet tested RUNNING again blocks the tool for ever: the worker leaves without the second barrier, where the sampler keeps waiting, and no thread can move.\<close>

theorem shutdown_deadlock_at_second_barrier:
  assumes "a_followers a = [f]" "a_rd a (a_master a) w = (Some (Inr v), w1)"
  shows "\<exists>s. par_reach a (par_init [c] dl w) s \<and> p_sampler s = SWait2 \<and> stuck a s"
proof -
  let ?mvs = "[MoveSampler, MoveSampler, MoveSampler, MoveWorker 0, MoveWorker 0, MoveSignal, MoveWorker 0, MoveSampler]"
  obtain s where s: "par_run a ?mvs (par_init [c] dl w) = Some s"
    "p_sampler s = SWait2" "\<not> p_running s" "w_pc (p_workers s ! 0) = WDone" "length (p_workers s) = 1"
    using assms by (simp add: run_simps)
  then have "stuck a s" by (intro stuckI) simp_all
  with s par_run_reach show ?thesis by blast
qed

theorem shutdown_deadlock_at_second_barrier_witness:
  "\<exists>s. par_reach sim_args sim_start s \<and> p_sampler s = SWait2 \<and> stuck sim_args s"
proof -
  obtain w1 where "read_tsf (sim_sys True) True \<lparr>file_fd = 3, pread_ok = True\<rparr> sim_world = (Some (Inr 7), w1)"
    by (rule sim_read)
  then show ?thesis
    unfolding sim_start_def
    by (intro shutdown_deadlock_at_second_barrier [where f = "\<lparr>file_fd = 5, pread_ok = True\<rparr>"]) (simp_all add: sim_args_def)
qed

text \<open>There are schedules in which the signal arrives while the only worker corrects its follower, and the tool ends up blocked at the final barrier.\<close>

theorem shutdown_deadlock_at_final_barrier:
  assumes "a_followers a = [f]" "a_profile a = Release" "a_rd a (a_master a) w = (Some (Inr v), wm)"
    and "correct_follower Release (a_rd a) (a_wr a) f c v wm = Some (None, c', wc) \<or>
         correct_follower Release (a_rd a) (a_wr a) f c v wm = Some (Some r, c', wc)"
    and "\<And>d. sleep_until (a_x86_64 a) (a_rt a) d wc = Some (wake d)"
  shows "\<exists>s. par_reach a (par_init [c] dl w) s \<and> p_sampler s = SFinalWait \<and> stuck a s"
proof -
  let ?mvs = "[MoveSampler, MoveSampler, MoveSampler, MoveWorker 0, MoveWorker 0, MoveWorker 0, MoveWorker 0,
    MoveSignal, MoveWorker 0, MoveSampler, MoveWorker 0, MoveWorker 0, MoveSampler, MoveSampler, MoveSampler]"
  obtain dl' where dl': "advance_deadline Release dl (a_period_ns a) = Some dl'"
    using advance_loop_release [of "dl\<lparr>tv_nsec := tv_nsec dl + a_period_ns a\<rparr>"]
    by (auto simp: advance_deadline_def add_i64_def)
  have stats: "\<exists>st. stats_update Release stats_new err step = Some st" for err step
    by (simp add: stats_update_def add_u64_def split_beta)
  obtain s where s: "par_run a ?mvs (par_init [c] dl w) = Some s"
    "p_sampler s = SFinalWait" "\<not> p_running s" "w_pc (p_workers s ! 0) = WDone" "length (p_workers s) = 1"
  proof (cases "correct_follower Release (a_rd a) (a_wr a) f c v wm = Some (None, c', wc)")
    case True
    with assms(1-3,5) dl' that show thesis by (simp add: run_simps add_u64_def check_stats_new)
  next
    case False
    obtain step err where r: "r = (step, err)" by (cases r)
    obtain st where "stats_update Release stats_new err step = Some st" using stats by blast
    with False assms r dl' that show thesis by (simp add: run_simps add_u64_def check_stats_new)
  qed
  then have "stuck a s" by (intro stuckI) simp_all
  with s par_run_reach show ?thesis by blast
qed

theorem shutdown_deadlock_at_final_barrier_witness:
  "\<exists>s. par_reach sim_args sim_start s \<and> p_sampler s = SFinalWait \<and> stuck sim_args s"
proof -
  let ?c = "controller_new 1000000 200 False"
  let ?m = "\<lparr>file_fd = 3, pread_ok = True\<rparr>" and ?f = "\<lparr>file_fd = 5, pread_ok = True\<rparr>"
  obtain w1 where w1: "read_tsf (sim_sys True) True ?m sim_world = (Some (Inr 7), w1)" "\<forall>d. sim_tsf w1 d = 7"
    by (rule sim_read)
  obtain r w2 where r: "correct_follower Release (read_tsf (sim_sys True) True) (write_tsf (sim_sys True)) ?f ?c 7 w1
      = Some (Some r, ?c, w2)"
    using sim.port.correct_follower_ok [of ?f ?c 7 w1 True] w1(2)
    by (auto simp: p_controller_def controller_new_def tsf_err_def)
  have sl: "sleep_until True sim_rt d w2 = Some (w2\<lparr>sim_tsf := (\<lambda>fd. sim_tsf w2 fd + 10000)\<rparr>)" for d
    by (subst sleep_until.simps) (simp add: do_clock_nanosleep_def sim_rt_def Let_def)
  show ?thesis unfolding sim_start_def
    by (rule shutdown_deadlock_at_final_barrier [where v = 7 and f = ?f and c' = ?c and r = r and wc = w2 and
          wake = "\<lambda>_. w2\<lparr>sim_tsf := (\<lambda>fd. sim_tsf w2 fd + 10000)\<rparr>"])
      (simp_all add: sim_args_def w1(1) sl, simp only: r, simp)
qed

text \<open>C33: when the signal finds every worker waiting at the first barrier and the sampler at its loop test, which is where a sleeping loop wakes up, the shutdown completes: there is no infinite run from there, and no run can get stuck before the sampler is done and every worker has ended.\<close>

theorem shutdown_completes_when_idle:
  assumes "par_reach a (par_init controllers dl w) s" "length controllers = length (a_followers a)"
    "\<not> p_running s" "p_sampler s = STest" "list_all (\<lambda>wk. w_pc wk = WWait1) (p_workers s)"
  shows "\<not> (\<exists>f. f 0 = s \<and> (\<forall>i. par_step a (f i) (f (Suc i)))) \<and>
     \<not> (\<exists>s'. par_reach a s s' \<and> stuck a s' \<and> \<not> (p_sampler s' = SDone \<and> list_all ended (p_workers s')))"
proof -
  have cl: "closing (length (a_followers a)) s"
    using par_reach_inv [OF assms(1,2)] assms(3-5) by (simp add: closing_def)
  have reach: "closing (length (a_followers a)) s'" if "par_reach a s s'" for s'
    using that by (induction rule: rtranclp_induct) (use cl closing_step in blast)+
  have "\<not> (f 0 = s \<and> (\<forall>i. par_step a (f i) (f (Suc i))))" for f
  proof
    assume f: "f 0 = s \<and> (\<forall>i. par_step a (f i) (f (Suc i)))"
    have "closing (length (a_followers a)) (f i) \<and> steps_left (f i) + i \<le> steps_left s" for i
    proof (induction i)
      case (Suc i)
      then have "par_step a (f i) (f (Suc i))" "closing (length (a_followers a)) (f i)" using f by auto
      from closing_step [OF this(2,1)] Suc show ?case by simp
    qed (use f cl in simp)
    from this [of "Suc (steps_left s)"] show False by simp
  qed
  moreover have "p_sampler s' = SDone \<and> list_all ended (p_workers s')"
    if "par_reach a s s'" "stuck a s'" for s'
    using closing_progress [of a s'] reach [OF that(1)] that(2)
    by (auto simp: closing_def)
  ultimately show ?thesis by blast
qed

theorem shutdown_completes_when_idle_witness:
  "\<exists>s. par_reach sim_args sim_start s \<and> p_sampler s = STest \<and>
     \<not> (\<exists>f. f 0 = s \<and> (\<forall>i. par_step sim_args (f i) (f (Suc i)))) \<and>
     \<not> (\<exists>s'. par_reach sim_args s s' \<and> stuck sim_args s' \<and> \<not> (p_sampler s' = SDone \<and> list_all ended (p_workers s')))"
proof -
  obtain s where s: "par_run sim_args [MoveWorker 0, MoveWorker 0, MoveSignal] sim_start = Some s"
    "p_sampler s = STest" "\<not> p_running s" "list_all (\<lambda>wk. w_pc wk = WWait1) (p_workers s)"
    by (simp add: run_simps sim_args_def sim_start_def)
  note r = par_run_reach [OF s(1)]
  from shutdown_completes_when_idle [OF r [unfolded sim_start_def] _ s(3,2,4)] s r show ?thesis
    by (auto simp: sim_args_def)
qed

end
