(* ===== verification/DebugfsMain.thy ===== *)
theory DebugfsMain
  imports Parallel
begin

text \<open>
  The main function of the debugfs tool (src/bin/tsf\_sync\_debugfs/main.rs): opening the
  files, building the controllers, the period and interval arithmetic and the choice of the
  loop.  The result is the exit code of an early exit, a panic, or the loop that is entered
  with its arguments.  Parsing the command line (clap) and the log lines are not modelled.
\<close>

record debugfs_cli =
  cli_master :: string
  cli_followers :: "string list"
  cli_cpu :: "nat option"
  cli_period_ms :: u64
  cli_priority :: u32
  cli_kp_ppm :: i64
  cli_max_step_us :: i64
  cli_stats_interval :: u64
  cli_rms_warn :: u64
  cli_kalman :: bool
  cli_parallel :: bool

text \<open>The defaults of the options; the master and the followers must be given.\<close>

definition cli_defaults :: "string \<Rightarrow> string list \<Rightarrow> debugfs_cli" where
  "cli_defaults master followers =
     \<lparr>cli_master = master, cli_followers = followers, cli_cpu = None, cli_period_ms = 10, cli_priority = 80,
      cli_kp_ppm = 1000000, cli_max_step_us = 200, cli_stats_interval = 0, cli_rms_warn = 0,
      cli_kalman = False, cli_parallel = False\<rparr>"

record loop_args =
  l_parallel :: bool
  l_master :: tsf_file
  l_followers :: "tsf_file list"
  l_controllers :: "controller list"
  l_period_ns :: i64
  l_interval :: u64
  l_rms_warn :: u64

datatype main_result = ExitCode nat | Panic | RunLoop loop_args

fun open_followers :: "'w tsf_sys \<Rightarrow> string list \<Rightarrow> 'w \<Rightarrow> tsf_file list option \<times> 'w" where
  "open_followers sys [] w = (Some [], w)"
| "open_followers sys (p # ps) w =
     (case tsf_open sys p w of
        (Inl e, w) \<Rightarrow> (None, w)
      | (Inr f, w) \<Rightarrow>
          (case open_followers sys ps w of
             (Some fs, w) \<Rightarrow> (Some (f # fs), w)
           | (None, w) \<Rightarrow> (None, w)))"

definition loop_interval :: "profile \<Rightarrow> u64 \<Rightarrow> u64 \<Rightarrow> u64 option" where
  "loop_interval pr stats_interval period_ms =
     (if 0 < stats_interval
      then do { ms \<leftarrow> mul_u64 pr stats_interval 1000; div_u64 ms period_ms }
      else Some 0)"

definition loop_config :: "profile \<Rightarrow> debugfs_cli \<Rightarrow> tsf_file \<Rightarrow> tsf_file list \<Rightarrow> loop_args option" where
  "loop_config pr args master followers = do {
     period_ns \<leftarrow> mul_i64 pr (cli_period_ms args) 1000000;
     interval \<leftarrow> loop_interval pr (cli_stats_interval args) (cli_period_ms args);
     Some \<lparr>l_parallel = cli_parallel args, l_master = master, l_followers = followers,
           l_controllers = map (\<lambda>_. controller_new (cli_kp_ppm args) (cli_max_step_us args) (cli_kalman args))
                             [0..<length followers],
           l_period_ns = period_ns, l_interval = interval, l_rms_warn = cli_rms_warn args\<rparr>
   }"

definition debugfs_main ::
    "profile \<Rightarrow> 'w tsf_sys \<Rightarrow> bool \<Rightarrow> 'w rt_sys \<Rightarrow> ('w \<Rightarrow> bool) \<Rightarrow> debugfs_cli \<Rightarrow> 'w \<Rightarrow> main_result \<times> 'w" where
  "debugfs_main pr sys ssse3 rt debug_exists args w =
     (if \<not> debug_exists w then (ExitCode 1, w)
      else case tsf_open sys (cli_master args) w of
        (Inl e, w) \<Rightarrow> (ExitCode 1, w)
      | (Inr master, w) \<Rightarrow>
          (case read_tsf sys ssse3 master w of
             (None, w) \<Rightarrow> (Panic, w)
           | (Some (Inl e), w) \<Rightarrow> (ExitCode 1, w)
           | (Some (Inr v), w) \<Rightarrow>
               (case open_followers sys (cli_followers args) w of
                  (None, w) \<Rightarrow> (ExitCode 1, w)
                | (Some followers, w) \<Rightarrow>
                    (case setup_rt rt (cli_priority args) (cli_cpu args) w of
                       (_, w) \<Rightarrow>
                         (case loop_config pr args master followers of
                            Some l \<Rightarrow> (RunLoop l, w)
                          | None \<Rightarrow> (Panic, w))))))"

section \<open>The interval arithmetic\<close>

lemma loop_interval_exact:
  assumes "0 < uint p" "uint si * 1000 < 2 ^ 64"
  shows "\<exists>i. loop_interval pr si p = Some i \<and> uint i = uint si * 1000 div uint p"
proof (cases "0 < si")
  case True
  have "p \<noteq> 0" using assms(1) by auto
  moreover have "uint (si * 1000) = uint si * 1000"
  proof -
    have "uint (si * 1000) = uint si * uint (1000 :: u64) mod 2 ^ 64" by (simp only: uint_word_ariths) simp
    also have "uint (1000 :: u64) = 1000" by simp
    also have "uint si * 1000 mod 2 ^ 64 = uint si * 1000"
      using assms(2) uint_ge_0 [of si] by (intro mod_pos_pos_trivial) simp_all
    finally show ?thesis .
  qed
  moreover have "mul_u64 pr si 1000 = Some (si * 1000)"
  proof -
    have "int (unat si * 1000) < int (2 ^ 64)" using assms(2) by simp
    then have "unat si * 1000 < 2 ^ 64" by (simp only: of_nat_less_iff)
    then show ?thesis by (simp add: mul_u64_def)
  qed
  ultimately show ?thesis
    using True by (simp only: loop_interval_def div_u64_def uint_div_distrib if_True if_False bind.bind_lunit)
      (simp add: uint_div_distrib)
next
  case False
  then have "si = 0" by (simp add: word_neq_0_conv [symmetric])
  then show ?thesis by (simp add: loop_interval_def)
qed

lemma open_followers_length: "open_followers sys ps w = (Some fs, w') \<Longrightarrow> length fs = length ps"
  by (induction ps arbitrary: w fs) (auto split: prod.splits sum.splits option.splits)

lemma debugfs_main_run:
  assumes "debugfs_main pr sys ssse3 rt dbg args w = (RunLoop l, w')"
  obtains master fs w1 w2 where "open_followers sys (cli_followers args) w1 = (Some fs, w2)"
    "loop_config pr args master fs = Some l"
proof -
  have "dbg w" using assms by (auto simp: debugfs_main_def split: if_splits)
  obtain r1 w1 where 1: "tsf_open sys (cli_master args) w = (r1, w1)" by fastforce
  with assms \<open>dbg w\<close> obtain master where r1: "r1 = Inr master" by (cases r1) (simp_all add: debugfs_main_def)
  obtain r2 w2 where 2: "read_tsf sys ssse3 master w1 = (r2, w2)" by fastforce
  with assms \<open>dbg w\<close> 1 r1 obtain v where r2: "r2 = Some (Inr v)"
    by (cases r2; simp add: debugfs_main_def split: sum.splits)
  obtain r3 w3 where 3: "open_followers sys (cli_followers args) w2 = (r3, w3)" by fastforce
  with assms \<open>dbg w\<close> 1 r1 2 r2 obtain fs where r3: "r3 = Some fs" by (cases r3) (simp_all add: debugfs_main_def)
  have "loop_config pr args master fs = Some l"
    using assms \<open>dbg w\<close> 1 r1 2 r2 3 r3
    by (simp add: debugfs_main_def split: prod.split_asm option.split_asm)
  with 3 r3 that show thesis by blast
qed

text \<open>With the default options the loop gets controllers that the convergence theorems cover.\<close>

lemma cli_defaults_sane:
  assumes "loop_config pr (cli_defaults m fs) master files = Some l" "c \<in> set (l_controllers l)"
  shows "p_controller c \<and> l_period_ns l = 10000000 \<and> l_interval l = 0"
  using assms
  by (auto simp: loop_config_def cli_defaults_def loop_interval_def mul_i64_def in_i64_def controller_new_def
      p_controller_def split: if_splits)

section \<open>A simulated start\<close>

definition sim_cli :: "u64 \<Rightarrow> debugfs_cli" where
  "sim_cli period = \<lparr>cli_master = ''abc'', cli_followers = [''abcde''], cli_cpu = None, cli_period_ms = period,
     cli_priority = 80, cli_kp_ppm = 1000000, cli_max_step_us = 200, cli_stats_interval = 5, cli_rms_warn = 0,
     cli_kalman = False, cli_parallel = False\<rparr>"

lemma sim_open:
  "tsf_open (sim_sys True) path w = (Inr \<lparr>file_fd = int (length path), pread_ok = True\<rparr>, w)"
  by (simp add: tsf_open_def sim_sys_def sim_fill_def)

section \<open>Properties\<close>

text \<open>When main enters a loop, the arguments are coherent: one controller per follower and one follower per path, all controllers equal; for periods and intervals inside the range the period is period_ms * 10^6 ns and a report is due every stats_interval * 1000 / period_ms cycles.\<close>

theorem debugfs_main_loop_args:
  assumes "debugfs_main pr sys ssse3 rt dbg args w = (RunLoop l, w')"
    "0 < uint (cli_period_ms args)" "uint (cli_period_ms args) * 1000000 < 2 ^ 63"
    "uint (cli_stats_interval args) * 1000 < 2 ^ 64"
  shows "length (l_followers l) = length (cli_followers args) \<and>
     l_controllers l = replicate (length (cli_followers args)) (controller_new (cli_kp_ppm args) (cli_max_step_us args) (cli_kalman args)) \<and>
     sint (l_period_ns l) = uint (cli_period_ms args) * 1000000 \<and>
     uint (l_interval l) = uint (cli_stats_interval args) * 1000 div uint (cli_period_ms args) \<and>
     l_parallel l = cli_parallel args"
proof -
  let ?p = "cli_period_ms args"
  have p: "sint ?p = uint ?p"
    using assms(3) by (intro sint_small) simp
  have "in_i64 (sint ?p * sint (1000000 :: i64))"
  proof -
    define x where "x = uint ?p * 1000000"
    have "0 \<le> x" "x < 2 ^ 63" using assms(3) by (simp_all add: x_def)
    then have "in_i64 x" by (simp add: in_i64_def)
    then show ?thesis by (simp add: p x_def)
  qed
  then have mul: "mul_i64 pr ?p 1000000 = Some (?p * 1000000)" "sint (?p * 1000000) = uint ?p * 1000000"
    using p sint_mul_exact [of ?p 1000000] by (simp_all add: mul_i64_def)
  obtain i where i: "loop_interval pr (cli_stats_interval args) ?p = Some i"
      "uint i = uint (cli_stats_interval args) * 1000 div uint ?p"
    using loop_interval_exact [OF assms(2,4)] by blast
  obtain master fs w1 w2 where fs: "open_followers sys (cli_followers args) w1 = (Some fs, w2)"
      "loop_config pr args master fs = Some l"
    using assms(1) by (rule debugfs_main_run)
  from fs(2) mul i show ?thesis
    using open_followers_length [OF fs(1)] by (auto simp: loop_config_def map_replicate_const)
qed

theorem debugfs_main_loop_args_witness:
  "\<exists>l w'. debugfs_main Release (sim_sys True) True sim_rt (\<lambda>_. True) (sim_cli 10) sim_world = (RunLoop l, w') \<and>
     length (l_followers l) = 1 \<and> l_controllers l = replicate 1 (controller_new 1000000 200 False) \<and>
     sint (l_period_ns l) = 10000000 \<and> uint (l_interval l) = 500 \<and> \<not> l_parallel l"
proof -
  obtain w1 where "read_tsf (sim_sys True) True \<lparr>file_fd = 3, pread_ok = True\<rparr> sim_world = (Some (Inr 7), w1)"
    by (rule sim_read)
  then have "\<exists>l w'. debugfs_main Release (sim_sys True) True sim_rt (\<lambda>_. True) (sim_cli 10) sim_world = (RunLoop l, w')"
    by (simp add: debugfs_main_def sim_cli_def sim_open loop_config_def loop_interval_def rust_arith in_i64_def split_beta)
  then obtain l w' where "debugfs_main Release (sim_sys True) True sim_rt (\<lambda>_. True) (sim_cli 10) sim_world = (RunLoop l, w')"
    by blast
  with debugfs_main_loop_args [OF this] show ?thesis by (simp add: sim_cli_def)
qed

text \<open>--period-ms 0 together with a statistics interval crashes the tool: the interval is computed by dividing by the period, after the files are open and the real-time setup is done.\<close>

theorem debugfs_main_zero_period_panics:
  assumes "cli_period_ms args = 0" "0 < cli_stats_interval args" "dbg w"
    "tsf_open sys (cli_master args) w = (Inr master, w1)" "read_tsf sys ssse3 master w1 = (Some (Inr v), w2)"
    "open_followers sys (cli_followers args) w2 = (Some fs, w3)"
  shows "\<exists>w'. debugfs_main pr sys ssse3 rt dbg args w = (Panic, w')"
proof -
  have "loop_interval pr (cli_stats_interval args) 0 = None"
    using assms(2) by (simp add: loop_interval_def div_u64_def split: Option.bind_splits)
  then have "loop_config pr args master fs = None"
    using assms(1) by (simp add: loop_config_def split: Option.bind_splits)
  then show ?thesis using assms by (simp add: debugfs_main_def split: prod.split)
qed

theorem debugfs_main_zero_period_panics_witness:
  "\<exists>w'. debugfs_main Release (sim_sys True) True sim_rt (\<lambda>_. True) (sim_cli 0) sim_world = (Panic, w')"
proof -
  obtain w1 where "read_tsf (sim_sys True) True \<lparr>file_fd = 3, pread_ok = True\<rparr> sim_world = (Some (Inr 7), w1)"
    by (rule sim_read)
  then show ?thesis
    by (intro debugfs_main_zero_period_panics [where master = "\<lparr>file_fd = 3, pread_ok = True\<rparr>" and v = 7])
      (simp_all add: sim_cli_def sim_open)
qed

end
