(* ===== verification/DebugfsTests.thy ===== *)
theory DebugfsTests
  imports Threading
begin

text \<open>
  The unit tests of the debugfs tool (the test modules of asm/hex.rs, debugfs.rs, rt.rs, control.rs and
  stats.rs), run on the model: each test is the conjunction of its assertions, and the lemmas
  show that it passes, so that the definitions agree with the program on what the program's own tests
  pin down.  The build profile and the CPU are arguments.  Left out are the tests of the monotonic clock and of
  the raw system calls, which test the kernel.
\<close>

section \<open>Hex parser\<close>

definition bline :: "string \<Rightarrow> u8 list" where
  "bline s = bytes_of s @ [10]"

definition test_scalar_basic :: bool where
  "test_scalar_basic \<longleftrightarrow> parse_hex_scalar (bline ''0x1234abcd'') = Some 0x1234abcd"

definition test_scalar_no_prefix :: bool where
  "test_scalar_no_prefix \<longleftrightarrow> parse_hex_scalar (bline ''ff'') = Some 0xff"

definition test_scalar_max_u64 :: bool where
  "test_scalar_max_u64 \<longleftrightarrow> parse_hex_scalar (bline ''0xffffffffffffffff'') = Some (- 1)"

definition test_scalar_zero :: bool where
  "test_scalar_zero \<longleftrightarrow> parse_hex_scalar (bline ''0x0'') = Some 0"

definition test_scalar_empty :: bool where
  "test_scalar_empty \<longleftrightarrow> parse_hex_scalar (bline []) = None"

definition ssse3_parse :: "string \<Rightarrow> u64" where
  "ssse3_parse hex16 = parse_hex_16_ssse3 (bytes_of hex16)"

definition test_all_zeros :: bool where
  "test_all_zeros \<longleftrightarrow> ssse3_parse ''0000000000000000'' = 0"

definition test_all_ones :: bool where
  "test_all_ones \<longleftrightarrow> ssse3_parse ''ffffffffffffffff'' = - 1"

definition test_sequential :: bool where
  "test_sequential \<longleftrightarrow> ssse3_parse ''0123456789abcdef'' = 0x0123456789abcdef"

definition test_uppercase :: bool where
  "test_uppercase \<longleftrightarrow> ssse3_parse ''0123456789ABCDEF'' = 0x0123456789ABCDEF"

definition test_mixed_case :: bool where
  "test_mixed_case \<longleftrightarrow> ssse3_parse ''aAbBcCdDeEfF0123'' = 0xAABBCCDDEEFF0123"

definition test_one :: bool where
  "test_one \<longleftrightarrow> ssse3_parse ''0000000000000001'' = 1"

definition test_high_bit :: bool where
  "test_high_bit \<longleftrightarrow> ssse3_parse ''8000000000000000'' = 0x8000000000000000"

definition test_typical_tsf :: bool where
  "test_typical_tsf \<longleftrightarrow> ssse3_parse ''000000e8d4a51000'' = 0x000000e8d4a51000"

definition test_vs_scalar_exhaustive_digits :: bool where
  "test_vs_scalar_exhaustive_digits \<longleftrightarrow>
     list_all (\<lambda>d. list_all (\<lambda>pos.
       let buf = (replicate 16 CHR ''0'')[pos := d]
       in parse_hex_scalar (bline (''0x'' @ buf)) = Some (ssse3_parse buf)) [0..<16]) ''0123456789abcdef''"

definition test_round_trip :: bool where
  "test_round_trip \<longleftrightarrow>
     list_all (\<lambda>v :: u64. parse_hex_16_ssse3 (hex_fmt 16 (unat v)) = v)
       [0, 1, 0xFF, 0xDEADBEEF, 0x0123456789ABCDEF, - 1, (- 1) div 2, 0x8000000000000000]"

definition test_auto_standard_debugfs_format :: "bool \<Rightarrow> bool" where
  "test_auto_standard_debugfs_format ssse3 \<longleftrightarrow> parse_hex_auto ssse3 (bline ''0x0000000012345678'') = Some 0x12345678"

definition test_auto_max_value :: "bool \<Rightarrow> bool" where
  "test_auto_max_value ssse3 \<longleftrightarrow> parse_hex_auto ssse3 (bline ''0xffffffffffffffff'') = Some (- 1)"

definition test_auto_short_value_falls_back_to_scalar :: "bool \<Rightarrow> bool" where
  "test_auto_short_value_falls_back_to_scalar ssse3 \<longleftrightarrow> parse_hex_auto ssse3 (bline ''0xff'') = Some 0xff"

text \<open>The values of digit strings, by the lemmas on both parsers.\<close>

lemmas hex_eval = hex_digits_def nibble_val_def is_ascii_hexdigit_def is_ascii_whitespace_def skip_prefix_def hex_nibble_def bline_def bytes_of_def

lemma scalar_tests: "test_scalar_basic \<and> test_scalar_no_prefix \<and> test_scalar_max_u64 \<and> test_scalar_zero \<and> test_scalar_empty"
  by (simp add: test_scalar_basic_def test_scalar_no_prefix_def test_scalar_max_u64_def test_scalar_zero_def test_scalar_empty_def
      scalar_eq hex_eval)

lemma simd_tests: "test_all_zeros \<and> test_all_ones \<and> test_sequential \<and> test_uppercase \<and> test_mixed_case \<and> test_one \<and>
    test_high_bit \<and> test_typical_tsf"
  by (simp add: test_all_zeros_def test_all_ones_def test_sequential_def test_uppercase_def test_mixed_case_def test_one_def
      test_high_bit_def test_typical_tsf_def ssse3_parse_def ssse3_val hex_eval)

lemma scalar_is_ssse3:
  assumes "length buf = 16" "list_all is_ascii_hexdigit (bytes_of buf)"
  shows "parse_hex_scalar (bline (''0x'' @ buf)) = Some (ssse3_parse buf)"
proof -
  have len: "length (bytes_of buf) = 16" using assms(1) by (simp add: bytes_of_def)
  have "bline (''0x'' @ buf) = [48, 120] @ bytes_of buf @ [10]" by (simp add: bline_def bytes_of_def)
  moreover have "takeWhile is_ascii_hexdigit (bytes_of buf @ [10]) = bytes_of buf"
    using assms(2) by (subst takeWhile_append2) (auto simp: list_all_iff is_ascii_hexdigit_def)
  ultimately have "hex_digits (bline (''0x'' @ buf)) = bytes_of buf"
    by (simp add: hex_digits_def is_ascii_whitespace_def skip_prefix_def)
  moreover have "length (bline (''0x'' @ buf)) < 2 ^ 32" using len by (simp add: bline_def bytes_of_def)
  ultimately show ?thesis using scalar_eq [of "bline (''0x'' @ buf)"] len assms(2) ssse3_val [OF len]
    by (auto simp: ssse3_parse_def)
qed

lemma exhaustive_test: "test_vs_scalar_exhaustive_digits"
proof -
  have hex: "is_ascii_hexdigit (of_char d)" if "d \<in> set ''0123456789abcdef''" for d
    using that by (auto simp: is_ascii_hexdigit_def)
  have "parse_hex_scalar (bline (''0x'' @ (replicate 16 CHR ''0'')[pos := d])) = Some (ssse3_parse ((replicate 16 CHR ''0'')[pos := d]))"
    if "d \<in> set ''0123456789abcdef''" for d pos
  proof (rule scalar_is_ssse3)
    have "set ((replicate 16 CHR ''0'')[pos := d]) \<subseteq> insert d (set (replicate 16 CHR ''0''))" by (rule set_update_subset_insert)
    then show "list_all is_ascii_hexdigit (bytes_of ((replicate 16 CHR ''0'')[pos := d]))"
      using hex [OF that] by (auto simp: bytes_of_def list_all_iff is_ascii_hexdigit_def)
  qed simp
  then show ?thesis unfolding test_vs_scalar_exhaustive_digits_def Let_def list_all_iff by blast
qed

lemma round_trip_test: "test_round_trip"
proof -
  have "parse_hex_16_ssse3 (hex_fmt 16 (unat v)) = v" for v :: u64
  proof -
    have "unat v < 16 ^ 16" using unsigned_less [of v] by simp
    then show ?thesis using ssse3_val [of "hex_fmt 16 (unat v)"] by (simp add: hex_fmt_props)
  qed
  then show ?thesis by (simp only: test_round_trip_def list_all_iff) simp
qed

lemma auto_tests: "test_auto_standard_debugfs_format ssse3 \<and> test_auto_max_value ssse3 \<and> test_auto_short_value_falls_back_to_scalar ssse3"
  by (simp add: test_auto_standard_debugfs_format_def test_auto_max_value_def test_auto_short_value_falls_back_to_scalar_def
      parse_hex_auto_def ssse3_val scalar_eq hex_eval)

section \<open>TSF files\<close>

definition test_format_decimal_zero :: bool where
  "test_format_decimal_zero \<longleftrightarrow>
     (case format_u64_decimal 0 (replicate 21 0) of Some (n, buf) \<Rightarrow> take n buf = bline ''0'' | None \<Rightarrow> False)"

definition test_format_decimal_max :: bool where
  "test_format_decimal_max \<longleftrightarrow>
     (case format_u64_decimal (- 1) (replicate 21 0) of Some (n, buf) \<Rightarrow> take n buf = bline ''18446744073709551615'' | None \<Rightarrow> False)"

definition test_format_decimal_typical :: bool where
  "test_format_decimal_typical \<longleftrightarrow>
     (case format_u64_decimal 123456789 (replicate 21 0) of Some (n, buf) \<Rightarrow> take n buf = bline ''123456789'' | None \<Rightarrow> False)"

text \<open>A temporary file: its contents, read and written at an offset.\<close>

definition tmp_sys :: "u8 list tsf_sys" where
  "tmp_sys = \<lparr>
     sys_open = (\<lambda>path w. (Inr 3, w)),
     sys_pread = (\<lambda>fd buf off w. (sim_fill (drop (nat off) w) buf, w)),
     sys_pwrite = (\<lambda>fd bs off w. (int (length bs), take (nat off) w @ bs @ drop (nat off + length bs) w)),
     sys_lseek = (\<lambda>fd off w. w),
     sys_read = (\<lambda>fd buf w. (sim_fill w buf, w)),
     sys_write = (\<lambda>fd bs w. (int (length bs), bs @ drop (length bs) w)),
     sys_errno = (\<lambda>w. 0)\<rparr>"

definition tmp_read :: "bool \<Rightarrow> u8 list \<Rightarrow> (io_error + u64) option" where
  "tmp_read ssse3 contents =
     (case tsf_open tmp_sys ''tmp'' contents of
        (Inl e, w) \<Rightarrow> None
      | (Inr tsf, w) \<Rightarrow> fst (read_tsf tmp_sys ssse3 tsf w))"

definition test_read_tsf_parses_hex :: "bool \<Rightarrow> bool" where
  "test_read_tsf_parses_hex ssse3 \<longleftrightarrow> tmp_read ssse3 (bline ''0x000000e8d4a51000'') = Some (Inr 0x000000e8d4a51000)"

definition test_write_tsf_writes_decimal :: bool where
  "test_write_tsf_writes_decimal \<longleftrightarrow>
     (case tsf_open tmp_sys ''tmp'' [] of
        (Inl e, w) \<Rightarrow> False
      | (Inr tsf, w) \<Rightarrow> write_tsf tmp_sys tsf 12345 w = (Some (Inr ()), bline ''12345''))"

definition test_read_tsf_zero_value :: "bool \<Rightarrow> bool" where
  "test_read_tsf_zero_value ssse3 \<longleftrightarrow> tmp_read ssse3 (bline ''0x0000000000000000'') = Some (Inr 0)"

definition test_read_tsf_max_value :: "bool \<Rightarrow> bool" where
  "test_read_tsf_max_value ssse3 \<longleftrightarrow> tmp_read ssse3 (bline ''0xffffffffffffffff'') = Some (Inr (- 1))"

definition test_read_tsf_invalid_returns_error :: "bool \<Rightarrow> bool" where
  "test_read_tsf_invalid_returns_error ssse3 \<longleftrightarrow> (case tmp_read ssse3 (bline []) of Some (Inl e) \<Rightarrow> True | _ \<Rightarrow> False)"

lemma unat_max: "unat (- 1 :: u64) = 18446744073709551615"
  by (simp add: unsigned_minus_1_eq_mask mask_eq_exp_minus_1)

lemma format_tests: "test_format_decimal_zero \<and> test_format_decimal_max \<and> test_format_decimal_typical"
proof -
  have "case format_u64_decimal v (replicate 21 0) of Some (n, buf) \<Rightarrow> take n buf = dec_line v | None \<Rightarrow> False" for v
    using format_line [of "replicate 21 0" v] by auto
  moreover have "dec_line 0 = bline ''0''" "dec_line (- 1) = bline ''18446744073709551615''" "dec_line 123456789 = bline ''123456789''"
    by (simp_all add: dec_line_def bline_def bytes_of_def dec_fmt_step unat_max)
  ultimately show ?thesis by (metis test_format_decimal_zero_def test_format_decimal_max_def test_format_decimal_typical_def)
qed

lemma tmp_read_line: "tmp_read ssse3 (tsf_line v) = Some (Inr v)"
  by (simp add: tmp_read_def tsf_open_def tmp_sys_def read_tsf_def read_raw_def sim_fill_def Let_def auto_tsf_line min_def split: prod.splits)

lemma hex_fmt_numeral:
  "hex_fmt (numeral k) m = hex_fmt (pred_numeral k) (m div 16) @ [if m mod 16 < 10 then 48 + word_of_nat (m mod 16) else 87 + word_of_nat (m mod 16)]"
  unfolding numeral_eq_Suc [of k] by (rule hex_fmt.simps)

lemma file_tests: "test_read_tsf_parses_hex ssse3 \<and> test_write_tsf_writes_decimal \<and> test_read_tsf_zero_value ssse3 \<and>
    test_read_tsf_max_value ssse3 \<and> test_read_tsf_invalid_returns_error ssse3"
proof (intro conjI)
  have "bline ''0x000000e8d4a51000'' = tsf_line 0x000000e8d4a51000" "bline ''0x0000000000000000'' = tsf_line 0"
    "bline ''0xffffffffffffffff'' = tsf_line (- 1)"
    by (simp_all add: bline_def bytes_of_def tsf_line_def hex_fmt_numeral unat_max)
  then show "test_read_tsf_parses_hex ssse3" "test_read_tsf_zero_value ssse3" "test_read_tsf_max_value ssse3"
    by (simp_all only: test_read_tsf_parses_hex_def test_read_tsf_zero_value_def test_read_tsf_max_value_def tmp_read_line)
  have "dec_line 12345 = bline ''12345''" by (simp add: dec_line_def bline_def bytes_of_def dec_fmt_step)
  then show "test_write_tsf_writes_decimal"
    by (simp add: test_write_tsf_writes_decimal_def tsf_open_def tmp_sys_def write_tsf_line write_raw_def sim_fill_def Let_def)
  show "test_read_tsf_invalid_returns_error ssse3"
    by (simp add: test_read_tsf_invalid_returns_error_def tmp_read_def tsf_open_def tmp_sys_def read_tsf_def read_raw_def sim_fill_def Let_def
        bline_def bytes_of_def parse_hex_auto_def scalar_eq hex_eval)
qed

section \<open>Deadlines\<close>

definition test_advance_simple :: "profile \<Rightarrow> bool" where
  "test_advance_simple pr \<longleftrightarrow>
     (case advance_deadline pr \<lparr>tv_sec = 0, tv_nsec = 0\<rparr> 10000000 of
        Some ts \<Rightarrow> tv_sec ts = 0 \<and> tv_nsec ts = 10000000 | None \<Rightarrow> False)"

definition test_advance_wraps_second :: "profile \<Rightarrow> bool" where
  "test_advance_wraps_second pr \<longleftrightarrow>
     (case advance_deadline pr \<lparr>tv_sec = 0, tv_nsec = 999000000\<rparr> 10000000 of
        Some ts \<Rightarrow> tv_sec ts = 1 \<and> tv_nsec ts = 9000000 | None \<Rightarrow> False)"

definition test_advance_multiple_seconds :: "profile \<Rightarrow> bool" where
  "test_advance_multiple_seconds pr \<longleftrightarrow>
     (case advance_deadline pr \<lparr>tv_sec = 0, tv_nsec = 0\<rparr> 2500000000 of
        Some ts \<Rightarrow> tv_sec ts = 2 \<and> tv_nsec ts = 500000000 | None \<Rightarrow> False)"

definition test_advance_accumulates :: "profile \<Rightarrow> bool" where
  "test_advance_accumulates pr \<longleftrightarrow>
     (case rounds 100 (\<lambda>ts. advance_deadline pr ts 10000000) \<lparr>tv_sec = 0, tv_nsec = 0\<rparr> of
        Some ts \<Rightarrow> tv_sec ts = 1 \<and> tv_nsec ts = 0 | None \<Rightarrow> False)"

text \<open>A normalised time is determined by its nanoseconds.\<close>

lemma normal_ts_eqI:
  assumes "normal_ts ts" "total_ns ts = s * 1000000000 + n" "0 \<le> n" "n < 1000000000"
  shows "sint (tv_sec ts) = s \<and> sint (tv_nsec ts) = n"
proof -
  have "(sint (tv_sec ts) * 1000000000 + sint (tv_nsec ts)) div 1000000000 = (s * 1000000000 + n) div 1000000000"
    using assms(2) by (simp add: total_ns_def)
  then have "sint (tv_sec ts) = s" using assms by (simp add: normal_ts_def div_pos_pos_trivial)
  then show ?thesis using assms(2) by (simp add: total_ns_def)
qed

lemma advance_to:
  assumes "normal_ts ts" "0 \<le> sint (tv_sec ts)" "sint (tv_sec ts) < 1000000" "0 \<le> sint p" "sint p < 1000000000000"
  shows "\<exists>ts'. advance_deadline pr ts p = Some ts' \<and> normal_ts ts' \<and> total_ns ts' = total_ns ts + sint p"
proof (rule advance_deadline_exact [OF assms(1,4)])
  have n: "0 \<le> sint (tv_nsec ts)" "sint (tv_nsec ts) < 1000000000" using assms(1) by (simp_all add: normal_ts_def)
  show "in_i64 (sint (tv_nsec ts) + sint p)" using n assms(4,5) by (simp add: in_i64_def)
  have "0 \<le> (sint (tv_nsec ts) + sint p) div 1000000000" "(sint (tv_nsec ts) + sint p) div 1000000000 \<le> 1001"
    using n assms(4,5) by (simp_all add: pos_imp_zdiv_nonneg_iff)
  then show "in_i64 (sint (tv_sec ts) + (sint (tv_nsec ts) + sint p) div 1000000000)" using assms(2,3) by (simp add: in_i64_def)
qed

lemma advance_rounds:
  assumes "n \<le> 1000"
  shows "\<exists>ts. rounds n (\<lambda>ts. advance_deadline pr ts 10000000) \<lparr>tv_sec = 0, tv_nsec = 0\<rparr> = Some ts \<and> normal_ts ts \<and>
    total_ns ts = int n * 10000000"
  using assms
proof (induction n)
  case (Suc n)
  then obtain ts where ts: "rounds n (\<lambda>ts. advance_deadline pr ts 10000000) \<lparr>tv_sec = 0, tv_nsec = 0\<rparr> = Some ts" "normal_ts ts"
      "total_ns ts = int n * 10000000" by auto
  have "0 \<le> sint (tv_sec ts)" "sint (tv_sec ts) < 1000000"
    using ts(2,3) Suc.prems by (simp_all add: normal_ts_def total_ns_def)
  then obtain ts' where "advance_deadline pr ts 10000000 = Some ts'" "normal_ts ts'" "total_ns ts' = total_ns ts + 10000000"
    using advance_to [OF ts(2), of 10000000 pr] by auto
  then show ?case using ts by (simp add: rounds_snoc del: rounds.simps)
qed (simp add: normal_ts_def total_ns_def)

lemma deadline_tests: "test_advance_simple pr \<and> test_advance_wraps_second pr \<and> test_advance_multiple_seconds pr \<and> test_advance_accumulates pr"
proof (intro conjI)
  obtain t1 where t1: "advance_deadline pr \<lparr>tv_sec = 0, tv_nsec = 0\<rparr> 10000000 = Some t1" "normal_ts t1" "total_ns t1 = 0 * 1000000000 + 10000000"
    using advance_to [of "\<lparr>tv_sec = 0, tv_nsec = 0\<rparr>" 10000000 pr] by (auto simp: normal_ts_def total_ns_def)
  then show "test_advance_simple pr"
    using normal_ts_eqI [OF t1(2,3)] by (auto simp: test_advance_simple_def intro!: signed_word_eqI)
  obtain t2 where t2: "advance_deadline pr \<lparr>tv_sec = 0, tv_nsec = 999000000\<rparr> 10000000 = Some t2" "normal_ts t2" "total_ns t2 = 1 * 1000000000 + 9000000"
    using advance_to [of "\<lparr>tv_sec = 0, tv_nsec = 999000000\<rparr>" 10000000 pr] by (auto simp: normal_ts_def total_ns_def)
  then show "test_advance_wraps_second pr"
    using normal_ts_eqI [OF t2(2,3)] by (auto simp: test_advance_wraps_second_def intro!: signed_word_eqI)
  obtain t3 where t3: "advance_deadline pr \<lparr>tv_sec = 0, tv_nsec = 0\<rparr> 2500000000 = Some t3" "normal_ts t3" "total_ns t3 = 2 * 1000000000 + 500000000"
    using advance_to [of "\<lparr>tv_sec = 0, tv_nsec = 0\<rparr>" 2500000000 pr] by (auto simp: normal_ts_def total_ns_def)
  then show "test_advance_multiple_seconds pr"
    using normal_ts_eqI [OF t3(2,3)] by (auto simp: test_advance_multiple_seconds_def intro!: signed_word_eqI)
  obtain t4 where t4: "rounds 100 (\<lambda>ts. advance_deadline pr ts 10000000) \<lparr>tv_sec = 0, tv_nsec = 0\<rparr> = Some t4" "normal_ts t4"
      "total_ns t4 = 1 * 1000000000 + 0"
    using advance_rounds [of 100 pr] by auto
  then show "test_advance_accumulates pr"
    using normal_ts_eqI [OF t4(2,3)] by (auto simp: test_advance_accumulates_def intro!: signed_word_eqI)
qed

section \<open>Controller\<close>

definition test_clamp_within_range :: "profile \<Rightarrow> bool" where
  "test_clamp_within_range pr \<longleftrightarrow> clamp_step pr 100 200 100 = Some 100"

definition test_clamp_positive_max :: "profile \<Rightarrow> bool" where
  "test_clamp_positive_max pr \<longleftrightarrow> clamp_step pr 500 200 500 = Some 200"

definition test_clamp_negative_max :: "profile \<Rightarrow> bool" where
  "test_clamp_negative_max pr \<longleftrightarrow> clamp_step pr (- 500) 200 (- 500) = Some (- 200)"

definition test_clamp_minimum_positive :: "profile \<Rightarrow> bool" where
  "test_clamp_minimum_positive pr \<longleftrightarrow> clamp_step pr 0 200 10 = Some 1"

definition test_clamp_minimum_negative :: "profile \<Rightarrow> bool" where
  "test_clamp_minimum_negative pr \<longleftrightarrow> clamp_step pr 0 200 (- 10) = Some (- 1)"

definition test_clamp_zero_error_zero_step :: "profile \<Rightarrow> bool" where
  "test_clamp_zero_error_zero_step pr \<longleftrightarrow> clamp_step pr 0 200 0 = Some 0"

definition test_proportional_basic :: "profile \<Rightarrow> bool" where
  "test_proportional_basic pr \<longleftrightarrow>
     (case controller_apply pr (controller_new 1000000 200 False) 1000100 1000000 of
        Some ((step, err), ctrl) \<Rightarrow> err = 100 \<and> step = 100 | None \<Rightarrow> False)"

definition test_proportional_clamped :: "profile \<Rightarrow> bool" where
  "test_proportional_clamped pr \<longleftrightarrow>
     (case controller_apply pr (controller_new 1000000 200 False) 1000500 1000000 of
        Some ((step, err), ctrl) \<Rightarrow> err = 500 \<and> step = 200 | None \<Rightarrow> False)"

definition test_proportional_negative :: "profile \<Rightarrow> bool" where
  "test_proportional_negative pr \<longleftrightarrow>
     (case controller_apply pr (controller_new 1000000 200 False) 1000000 1000050 of
        Some ((step, err), ctrl) \<Rightarrow> err = - 50 \<and> step = - 50 | None \<Rightarrow> False)"

definition test_minimum_step :: "profile \<Rightarrow> bool" where
  "test_minimum_step pr \<longleftrightarrow>
     (case controller_apply pr (controller_new 1 200 False) 1000010 1000000 of
        Some ((step, err), ctrl) \<Rightarrow> err = 10 \<and> step = 1 | None \<Rightarrow> False)"

definition test_zero_error :: "profile \<Rightarrow> bool" where
  "test_zero_error pr \<longleftrightarrow>
     (case controller_apply pr (controller_new 1000000 200 False) 1000000 1000000 of
        Some ((step, err), ctrl) \<Rightarrow> err = 0 \<and> step = 0 | None \<Rightarrow> False)"

definition test_kalman_smoothing :: "profile \<Rightarrow> bool" where
  "test_kalman_smoothing pr \<longleftrightarrow>
     (case controller_apply pr (controller_new 1000000 200 True) 1000100 1000000 of
        Some ((step1, _), ctrl) \<Rightarrow> step1 <s 100 \<and> 0 <s step1 | None \<Rightarrow> False)"

lemmas control_eval = clamp_step_def clamp_i64_def neg_i64_def controller_apply_def controller_new_def filter_error_def
  sub_i64_def mul_i64_def div_i64_def word_sless_alt word_sle_eq

lemma clamp_tests: "test_clamp_within_range pr \<and> test_clamp_positive_max pr \<and> test_clamp_negative_max pr \<and>
    test_clamp_minimum_positive pr \<and> test_clamp_minimum_negative pr \<and> test_clamp_zero_error_zero_step pr"
  by (simp add: test_clamp_within_range_def test_clamp_positive_max_def test_clamp_negative_max_def
      test_clamp_minimum_positive_def test_clamp_minimum_negative_def test_clamp_zero_error_zero_step_def control_eval)

lemma proportional_tests: "test_proportional_basic pr \<and> test_proportional_clamped pr \<and> test_proportional_negative pr \<and>
    test_minimum_step pr \<and> test_zero_error pr"
  by (simp add: test_proportional_basic_def test_proportional_clamped_def test_proportional_negative_def
      test_minimum_step_def test_zero_error_def control_eval in_i64_def Let_def)

lemma kalman_debug: "test_kalman_smoothing Debug"
  by code_simp

lemma kalman_release: "test_kalman_smoothing Release"
  by code_simp

lemma kalman_test: "test_kalman_smoothing pr"
  using kalman_debug kalman_release by (cases pr) simp_all

section \<open>Statistics\<close>

definition test_empty_stats :: bool where
  "test_empty_stats \<longleftrightarrow> rms stats_new = 0"

definition test_single_sample :: "profile \<Rightarrow> bool" where
  "test_single_sample pr \<longleftrightarrow>
     (case stats_update pr stats_new 10 5 of
        Some s \<Rightarrow> ws_n s = 1 \<and> \<bar>fsub (ws_mean s) 10\<bar> < 1 / 2 ^ 52 \<and> ws_max_abs_err s = 10 \<and> ws_max_abs_step s = 5
      | None \<Rightarrow> False)"

definition test_welford_accuracy :: "profile \<Rightarrow> bool" where
  "test_welford_accuracy pr \<longleftrightarrow>
     (case stats_run pr stats_new [(2, 1), (4, 2), (6, 3)] of
        Some s \<Rightarrow>
          \<bar>fsub (ws_mean s) 4\<bar> < f64_round (1 / 10 ^ 10) \<and>
          (let expected_rms = f64_sqrt (fdiv 8 3) in \<bar>fsub (rms s) expected_rms\<bar> < f64_round (1 / 10 ^ 10))
      | None \<Rightarrow> False)"

definition test_negative_errors :: "profile \<Rightarrow> bool" where
  "test_negative_errors pr \<longleftrightarrow>
     (case stats_update pr stats_new (- 100) (- 50) of
        Some s \<Rightarrow> ws_max_abs_err s = 100 \<and> ws_max_abs_step s = 50 | None \<Rightarrow> False)"

definition test_print_resets :: "profile \<Rightarrow> bool" where
  "test_print_resets pr \<longleftrightarrow>
     (case stats_run pr stats_new [(10, 5), (20, 10)] of
        Some s \<Rightarrow> (case print_and_reset s ''test'' of (r, s, _) \<Rightarrow> 0 < r \<and> ws_n s = 0) | None \<Rightarrow> False)"

text \<open>The profiles only differ when the count overflows.\<close>

lemma stats_update_profile: "unat (ws_n st) + 1 < 2 ^ 64 \<Longrightarrow> stats_update pr st e x = stats_update Release st e x"
  by (simp add: stats_update_def add_u64_def)

lemma stats_update_count: "stats_update Release st e x = Some st' \<Longrightarrow> unat (ws_n st') \<le> unat (ws_n st) + 1"
  by (auto simp: stats_update_def add_u64_def Let_def unat_word_ariths split: prod.splits)

lemma stats_run_profile: "unat (ws_n st) + length obs < 2 ^ 64 \<Longrightarrow> stats_run pr st obs = stats_run Release st obs"
proof (induction obs arbitrary: st)
  case (Cons ob obs)
  obtain e x where ob: "ob = (e, x)" by (cases ob)
  have eq: "stats_update pr st e x = stats_update Release st e x" using Cons.prems by (intro stats_update_profile) simp
  show ?case
  proof (cases "stats_update Release st e x")
    case (Some st1)
    then show ?thesis using Cons.IH [of st1] Cons.prems stats_update_count [OF Some] by (simp add: ob eq)
  qed (simp add: ob eq)
qed simp

lemma new_count: "unat (ws_n stats_new) = 0"
  by (simp add: stats_new_def)

lemma samples_release: "test_empty_stats" "test_single_sample Release" "test_negative_errors Release"
  by code_simp+

lemma resets_release: "test_print_resets Release"
  by code_simp

lemma sample_tests: "test_empty_stats \<and> test_single_sample pr \<and> test_negative_errors pr \<and> test_print_resets pr"
proof -
  show ?thesis
    using samples_release resets_release stats_run_profile [of stats_new "[(10, 5), (20, 10)]" pr] stats_update_profile [of stats_new pr]
    by (simp add: test_single_sample_def test_negative_errors_def test_print_resets_def new_count)
qed

lemma accuracy_test: "test_welford_accuracy pr"
proof -
  have "case stats_run Release stats_new [(2, 1), (4, 2), (6, 3)] of Some s \<Rightarrow> ws_n s = 3 \<and> ws_mean s = 4 \<and> ws_m2 s = 8 | None \<Rightarrow> False"
    by code_simp
  then obtain s where s: "stats_run pr stats_new [(2, 1), (4, 2), (6, 3)] = Some s" "ws_n s = 3" "ws_mean s = 4" "ws_m2 s = 8"
    using stats_run_profile [of stats_new "[(2, 1), (4, 2), (6, 3)]" pr] by (auto simp: new_count split: option.splits)
  have three: "f64_of_u64 3 = 3" "0 < f64_round (1 / 10 ^ 10)" by code_simp+
  have "rms s = f64_sqrt (fdiv 8 3)" using s(2,4) three(1) by (simp add: rms_def)
  then show ?thesis using s(1,3) three(2) by (simp add: test_welford_accuracy_def fsub_def Let_def)
qed

end
