(* ===== verification/KernelCard.thy ===== *)
theory KernelCard
  imports SyncMode
begin

text \<open>
  The cards of the kernel module (src/kernel/tsf\_ptp.c): the state of the module, the driver
  operations it calls, and the PTP clock of one card (gettime, settime, adjtime, adjfine,
  getcrosststamp).  The drivers and the services of the kernel are a record of operations; the
  locale \<open>tsf_driver\<close> states what get\_tsf and set\_tsf of a driver do to the TSF of an interface.
  An object is identified by a number where the code compares its address: a wiphy, and the vif of
  a net device, which has the number of the device.
\<close>

section \<open>State\<close>

text \<open>The part of ieee80211\_local that the module reads: the name of the wiphy and which of the two operations the driver has.\<close>

record ieee80211_local =
  lo_name :: "u8 list"
  lo_get_tsf :: bool
  lo_set_tsf :: bool

record tsf_card =
  cd_wiphy :: nat                \<comment> \<open>hw->wiphy\<close>
  cd_local :: ieee80211_local    \<comment> \<open>hw\_to\_local (hw)\<close>
  cd_vif :: "nat option"
  cd_phy_name :: "u8 list"
  cd_settime :: bool             \<comment> \<open>whether ptp\_info has settime64 and adjtime\<close>
  cd_last_offset_ns :: i64
  cd_sync_count :: u64
  cd_sync_error_count :: u64

text \<open>
  The static variables of the module.  \<open>km_work\<close> is the delay of the queued \<open>sync_work\<close>;
  \<open>km_clocks\<close>, \<open>km_misc\<close> and \<open>km_notifier\<close> are what the module has registered with the kernel and
  not yet unregistered: the clocks of the wiphys, /dev/tsf\_sync, the net device notifier.
\<close>

record kmod =
  km_cards :: "tsf_card list"
  km_threshold_ns :: u32
  km_sync_mode :: u32
  km_sync_primary :: "u8 list"
  km_interval_ms :: u32
  km_skip_count :: u64
  km_apply_count :: u64
  km_sync_count :: u64
  km_sync_error_count :: u64
  km_work :: "u32 option"
  km_chardev_registered :: bool
  km_clocks :: "nat list"
  km_misc :: bool
  km_notifier :: bool

text \<open>
  The drivers and the kernel: the private data of a wiphy; get\_tsf and set\_tsf of a wiphy on a vif;
  the three clocks; whether an allocation succeeds; what a read of freed memory
  returns; the results of ptp\_clock\_register and
  misc\_register (0 or a negative errno).
\<close>

record 'w kapi =
  ka_local :: "nat \<Rightarrow> ieee80211_local option"
  ka_get_tsf :: "nat \<Rightarrow> nat \<Rightarrow> 'w \<Rightarrow> u64 \<times> 'w"
  ka_set_tsf :: "nat \<Rightarrow> nat \<Rightarrow> u64 \<Rightarrow> 'w \<Rightarrow> 'w"
  ka_raw :: "'w \<Rightarrow> i64"
  ka_real :: "'w \<Rightarrow> i64"
  ka_mono :: "'w \<Rightarrow> i64"
  ka_alloc :: "'w \<Rightarrow> bool"
  ka_freed_read :: "'w \<Rightarrow> int"
  ka_ptp_register :: "nat \<Rightarrow> 'w \<Rightarrow> int \<times> 'w"
  ka_misc_register :: "'w \<Rightarrow> int \<times> 'w"

section \<open>Driver operations\<close>

definition call_get_tsf :: "'w kapi \<Rightarrow> tsf_card \<Rightarrow> nat \<Rightarrow> 'w \<Rightarrow> u64 \<times> 'w" where
  "call_get_tsf api c vif w =
     (if lo_get_tsf (cd_local c) then ka_get_tsf api (cd_wiphy c) vif w else (0, w))"

definition call_set_tsf :: "'w kapi \<Rightarrow> tsf_card \<Rightarrow> nat \<Rightarrow> u64 \<Rightarrow> 'w \<Rightarrow> 'w" where
  "call_set_tsf api c vif tsf w =
     (if lo_set_tsf (cd_local c) then ka_set_tsf api (cd_wiphy c) vif tsf w else w)"

section \<open>The PTP clock of a card\<close>

abbreviation ENODEV :: int where "ENODEV \<equiv> 19"

record timespec64 =
  tv_sec :: i64
  tv_nsec :: i64

text \<open>The conversions of the kernel's time library: the first rounds down, the second saturates.\<close>

definition ns_to_timespec64 :: "i64 \<Rightarrow> timespec64" where
  "ns_to_timespec64 ns =
     \<lparr>tv_sec = word_of_int (sint ns div 1000000000), tv_nsec = word_of_int (sint ns mod 1000000000)\<rparr>"

definition timespec64_to_ns :: "timespec64 \<Rightarrow> i64" where
  "timespec64_to_ns ts =
     (if 9223372036 \<le> sint (tv_sec ts) then 9223372036854775807
      else if sint (tv_sec ts) \<le> - 9223372036 then i64_min
      else tv_sec ts * 1000000000 + tv_nsec ts)"

text \<open>The error of a clock operation is the errno, which the code returns negated.\<close>

definition ptp_gettime :: "'w kapi \<Rightarrow> tsf_card \<Rightarrow> 'w \<Rightarrow> (int + timespec64) \<times> 'w" where
  "ptp_gettime api c w =
     (case cd_vif c of
        None \<Rightarrow> (Inl ENODEV, w)
      | Some vif \<Rightarrow>
          (let (tsf_usec, w) = call_get_tsf api c vif w
           in (Inr (ns_to_timespec64 (tsf_usec * 1000)), w)))"

text \<open>The division is that of unsigned words: a negative time becomes a large TSF.\<close>

definition ptp_settime :: "'w kapi \<Rightarrow> tsf_card \<Rightarrow> timespec64 \<Rightarrow> 'w \<Rightarrow> (int + unit) \<times> 'w" where
  "ptp_settime api c ts w =
     (let tsf_usec = timespec64_to_ns ts div 1000
      in case cd_vif c of
           None \<Rightarrow> (Inl ENODEV, w)
         | Some vif \<Rightarrow> (Inr (), call_set_tsf api c vif tsf_usec w))"

definition below_threshold :: "u32 \<Rightarrow> i64 \<Rightarrow> bool" where
  "below_threshold threshold delta_ns \<longleftrightarrow>
     sint (if delta_ns <s 0 then - delta_ns else delta_ns) < int (unat threshold)"

definition ptp_adjtime :: "'w kapi \<Rightarrow> tsf_card \<Rightarrow> i64 \<Rightarrow> kmod \<Rightarrow> 'w \<Rightarrow> (int + unit) \<times> kmod \<times> 'w" where
  "ptp_adjtime api c delta_ns k w =
     (if 0 < km_threshold_ns k \<and> below_threshold (km_threshold_ns k) delta_ns
      then (Inr (), k\<lparr>km_skip_count := km_skip_count k + 1\<rparr>, w)
      else case cd_vif c of
             None \<Rightarrow> (Inl ENODEV, k, w)
           | Some vif \<Rightarrow>
               (let (tsf_usec, w) = call_get_tsf api c vif w;
                    delta_usec = word_of_int (sint delta_ns sdiv 1000);
                    w = call_set_tsf api c vif (tsf_usec + delta_usec) w
                in (Inr (), k\<lparr>km_apply_count := km_apply_count k + 1\<rparr>, w)))"

definition ptp_adjfine :: "tsf_card \<Rightarrow> int \<Rightarrow> int" where
  "ptp_adjfine c scaled_ppm = 0"

record crosststamp =
  ct_sys_monoraw :: i64
  ct_device :: i64
  ct_sys_realtime :: i64

definition ptp_getcrosststamp :: "'w kapi \<Rightarrow> tsf_card \<Rightarrow> 'w \<Rightarrow> (int + crosststamp) \<times> 'w" where
  "ptp_getcrosststamp api c w =
     (case cd_vif c of
        None \<Rightarrow> (Inl ENODEV, w)
      | Some vif \<Rightarrow>
          (let raw = ka_raw api w;
               (tsf_usec, w) = call_get_tsf api c vif w;
               real = ka_real api w
           in (Inr \<lparr>ct_sys_monoraw = raw, ct_device = tsf_usec * 1000, ct_sys_realtime = real\<rparr>, w)))"

section \<open>The contract of a driver\<close>

text \<open>
  \<open>tsf_at w p v\<close> is the TSF of wiphy \<open>p\<close> on vif \<open>v\<close>.  Reading returns it and changes no TSF; setting
  changes that of its interface and of no other wiphy.
\<close>

locale tsf_driver =
  fixes api :: "'w kapi" and tsf_at :: "'w \<Rightarrow> nat \<Rightarrow> nat \<Rightarrow> u64"
  assumes get_tsf: "ka_get_tsf api p v w = (t, w') \<Longrightarrow> t = tsf_at w p v \<and> tsf_at w' = tsf_at w"
    and set_same: "tsf_at (ka_set_tsf api p v t w) p v = t"
    and set_other: "q \<noteq> p \<Longrightarrow> tsf_at (ka_set_tsf api p v t w) q u = tsf_at w q u"

text \<open>What the module sees of the TSF of a card: nothing without an interface.\<close>

definition card_tsf :: "('w \<Rightarrow> nat \<Rightarrow> nat \<Rightarrow> u64) \<Rightarrow> 'w \<Rightarrow> tsf_card \<Rightarrow> u64 option" where
  "card_tsf tsf_at w c = map_option (tsf_at w (cd_wiphy c)) (cd_vif c)"

definition settable :: "tsf_card \<Rightarrow> bool" where
  "settable c \<longleftrightarrow> lo_get_tsf (cd_local c) \<and> lo_set_tsf (cd_local c)"

context tsf_driver begin

lemma call_get:
  assumes "lo_get_tsf (cd_local c)"
  shows "\<exists>w'. call_get_tsf api c v w = (tsf_at w (cd_wiphy c) v, w') \<and> tsf_at w' = tsf_at w"
  using assms get_tsf [of "cd_wiphy c" v w] by (cases "ka_get_tsf api (cd_wiphy c) v w") (simp add: call_get_tsf_def)

lemma call_set_same: "lo_set_tsf (cd_local c) \<Longrightarrow> tsf_at (call_set_tsf api c v t w) (cd_wiphy c) v = t"
  by (simp add: call_set_tsf_def set_same)

lemma call_set_other: "q \<noteq> cd_wiphy c \<Longrightarrow> tsf_at (call_set_tsf api c v t w) q u = tsf_at w q u"
  by (simp add: call_set_tsf_def set_other)

lemma card_tsf_set:
  assumes "lo_set_tsf (cd_local c)" "cd_vif c = Some v"
  shows "card_tsf tsf_at (call_set_tsf api c v t w) c = Some t"
  using assms by (simp add: card_tsf_def call_set_same)

lemma card_tsf_set_other:
  "cd_wiphy d \<noteq> cd_wiphy c \<Longrightarrow> card_tsf tsf_at (call_set_tsf api c v t w) d = card_tsf tsf_at w d"
  by (cases "cd_vif d") (simp_all add: card_tsf_def call_set_other)

end

lemma card_tsf_cong: "tsf_at w = tsf_at w' \<Longrightarrow> card_tsf tsf_at w = card_tsf tsf_at w'"
  by (intro ext) (simp add: card_tsf_def)

section \<open>A set of radios\<close>

text \<open>Radios whose TSF is a register, with a system clock that advances with each read.\<close>

record radios =
  ra_tsf :: "nat \<Rightarrow> nat \<Rightarrow> u64"
  ra_now :: i64

definition radio_api :: "(nat \<Rightarrow> ieee80211_local option) \<Rightarrow> radios kapi" where
  "radio_api loc =
     \<lparr>ka_local = loc,
      ka_get_tsf = (\<lambda>p v w. (ra_tsf w p v, w\<lparr>ra_now := ra_now w + 1\<rparr>)),
      ka_set_tsf = (\<lambda>p v t w. w\<lparr>ra_tsf := (ra_tsf w)(p := (ra_tsf w p)(v := t))\<rparr>),
      ka_raw = ra_now, ka_real = ra_now, ka_mono = ra_now, ka_alloc = (\<lambda>w. True),
      ka_freed_read = (\<lambda>w. 0), ka_ptp_register = (\<lambda>p w. (0, w)), ka_misc_register = (\<lambda>w. (0, w))\<rparr>"

lemma radio_api_simps [simp]:
  "ka_local (radio_api loc) = loc"
  "ka_get_tsf (radio_api loc) p v w = (ra_tsf w p v, w\<lparr>ra_now := ra_now w + 1\<rparr>)"
  "ka_set_tsf (radio_api loc) p v t w = w\<lparr>ra_tsf := (ra_tsf w)(p := (ra_tsf w p)(v := t))\<rparr>"
  "ka_raw (radio_api loc) = ra_now" "ka_real (radio_api loc) = ra_now" "ka_mono (radio_api loc) = ra_now"
  "ka_alloc (radio_api loc) w" "ka_freed_read (radio_api loc) w = 0" "ka_ptp_register (radio_api loc) p w = (0, w)"
  "ka_misc_register (radio_api loc) w = (0, w)"
  by (simp_all add: radio_api_def)

interpretation radio: tsf_driver "radio_api loc" ra_tsf
  by unfold_locales auto

section \<open>Properties of the PTP clock\<close>

lemma timespec64_to_ns_exact:
  assumes "0 \<le> sint (tv_sec ts)" "sint (tv_sec ts) < 9223372036" "0 \<le> sint (tv_nsec ts)" "sint (tv_nsec ts) < 1000000000"
  shows "sint (timespec64_to_ns ts) = sint (tv_sec ts) * 1000000000 + sint (tv_nsec ts)"
proof -
  have "in_i64 (sint (tv_sec ts) * sint (1000000000 :: i64))" using assms by (simp add: in_i64_def)
  then have m: "sint (tv_sec ts * 1000000000) = sint (tv_sec ts) * 1000000000" using sint_mul_exact [of "tv_sec ts" 1000000000] by simp
  then have "in_i64 (sint (tv_sec ts * 1000000000) + sint (tv_nsec ts))" using assms by (simp add: in_i64_def)
  then have "sint (tv_sec ts * 1000000000 + tv_nsec ts) = sint (tv_sec ts) * 1000000000 + sint (tv_nsec ts)"
    using m by (simp add: sint_add_exact)
  then show ?thesis using assms by (simp add: timespec64_to_ns_def)
qed

lemma uint_nonneg_sint: "0 \<le> sint (w :: i64) \<Longrightarrow> uint w = sint w"
  by (simp only: uint_sint) (rule take_bit_int_eq_self, use sint_lt [of w] in simp_all)

text \<open>Whole microseconds survive the way into the TSF and back.\<close>

lemma microseconds_back:
  assumes "0 \<le> sint (ns :: i64)"
  shows "sint (ns div 1000 * 1000) = sint ns - sint ns mod 1000"
proof -
  have "uint (ns div 1000) = sint ns div 1000"
    using assms by (simp add: uint_div uint_nonneg_sint)
  moreover have "sint ns div 1000 * 1000 = sint ns - sint ns mod 1000" by (rule minus_mod_eq_div_mult [symmetric])
  moreover have nn: "0 \<le> sint ns div 1000" using assms by (simp add: pos_imp_zdiv_nonneg_iff)
  moreover have le: "sint ns - sint ns mod 1000 < 9223372036854775808"
    using sint_bounds [of ns] pos_mod_sign [of 1000 "sint ns"] by linarith
  ultimately have "uint (ns div 1000 * 1000) = sint ns - sint ns mod 1000"
    by (simp add: uint_word_ariths)
  then show ?thesis using sint_small [of "ns div 1000 * 1000"] le by simp
qed

text \<open>What is set is what is read: after settime64 with a time of not more than 292 years on a card
  with an interface and both driver operations, gettime64 returns that time rounded down to a microsecond, the unit of the TSF.\<close>

theorem settime_then_gettime:
  assumes "tsf_driver api tsf_at" "cd_vif c = Some v" "settable c"
    "0 \<le> sint (tv_sec ts)" "sint (tv_sec ts) < 9223372036" "0 \<le> sint (tv_nsec ts)" "sint (tv_nsec ts) < 1000000000"
  shows "\<exists>w'. ptp_settime api c ts w = (Inr (), w') \<and>
     fst (ptp_gettime api c w') = Inr (ts\<lparr>tv_nsec := word_of_int (sint (tv_nsec ts) - sint (tv_nsec ts) mod 1000)\<rparr>)"
proof -
  let ?ns = "timespec64_to_ns ts" and ?m = "sint (tv_nsec ts) - sint (tv_nsec ts) mod 1000"
  have ns: "sint ?ns = sint (tv_sec ts) * 1000000000 + sint (tv_nsec ts)" using assms(4-7) by (rule timespec64_to_ns_exact)
  then have "0 \<le> sint ?ns" using assms(4,6) by simp
  then have "sint (?ns div 1000 * 1000) = sint ?ns - sint ?ns mod 1000" by (rule microseconds_back)
  also have "sint ?ns mod 1000 = sint (tv_nsec ts) mod 1000" unfolding ns by (simp add: mod_add_left_eq [symmetric] mod_mult_right_eq [symmetric])
  finally have us: "sint (?ns div 1000 * 1000) = sint (tv_sec ts) * 1000000000 + ?m" unfolding ns by simp
  have m: "0 \<le> ?m" "?m < 1000000000" using assms(6,7) pos_mod_sign [of 1000 "sint (tv_nsec ts)"]
    by (simp_all add: zmod_le_nonneg_dividend)
  then have "(sint (tv_sec ts) * 1000000000 + ?m) div 1000000000 = sint (tv_sec ts)" by simp
  moreover have "(sint (tv_sec ts) * 1000000000 + ?m) mod 1000000000 = ?m" using m by simp
  ultimately have conv: "ns_to_timespec64 (?ns div 1000 * 1000) = ts\<lparr>tv_nsec := word_of_int ?m\<rparr>"
    unfolding ns_to_timespec64_def us by simp
  let ?w = "call_set_tsf api c v (?ns div 1000) w"
  have lo: "lo_get_tsf (cd_local c)" "lo_set_tsf (cd_local c)" using assms(3) by (simp_all add: settable_def)
  obtain w' where "call_get_tsf api c v ?w = (?ns div 1000, w')"
    using tsf_driver.call_get [OF assms(1) lo(1), of v ?w] tsf_driver.call_set_same [OF assms(1) lo(2), of v "?ns div 1000" w]
    by auto
  then show ?thesis using assms(2) conv by (simp add: ptp_settime_def ptp_gettime_def Let_def)
qed

text \<open>A card with an interface on the radios, whose driver has both operations.\<close>

definition radio_card :: "nat \<Rightarrow> nat option \<Rightarrow> tsf_card" where
  "radio_card p vif =
     \<lparr>cd_wiphy = p, cd_local = \<lparr>lo_name = [112, 104, 121, 48 + word_of_nat p], lo_get_tsf = True, lo_set_tsf = True\<rparr>,
      cd_vif = vif, cd_phy_name = [112, 104, 121, 48 + word_of_nat p], cd_settime = True, cd_last_offset_ns = 0,
      cd_sync_count = 0, cd_sync_error_count = 0\<rparr>"

lemma radio_card_simps [simp]:
  "cd_wiphy (radio_card p vif) = p" "cd_vif (radio_card p vif) = vif" "settable (radio_card p vif)"
  "cd_phy_name (radio_card p vif) = [112, 104, 121, 48 + word_of_nat p]"
  by (simp_all add: radio_card_def settable_def)

text \<open>A loaded module with given cards.\<close>

definition module_of :: "tsf_card list \<Rightarrow> kmod" where
  "module_of cards =
     \<lparr>km_cards = cards, km_threshold_ns = 5000, km_sync_mode = 1, km_sync_primary = [], km_interval_ms = 10,
      km_skip_count = 0, km_apply_count = 0, km_sync_count = 0, km_sync_error_count = 0, km_work = None,
      km_chardev_registered = False, km_clocks = map cd_wiphy cards, km_misc = False, km_notifier = True\<rparr>"

lemma module_of_simps [simp]:
  "km_cards (module_of cards) = cards" "km_threshold_ns (module_of cards) = 5000" "km_sync_primary (module_of cards) = []"
  "km_apply_count (module_of cards) = 0" "km_skip_count (module_of cards) = 0" "km_sync_count (module_of cards) = 0"
  "km_sync_error_count (module_of cards) = 0" "km_work (module_of cards) = None" "km_clocks (module_of cards) = map cd_wiphy cards"
  "km_interval_ms (module_of cards) = 10" "km_sync_mode (module_of cards) = 1" "km_chardev_registered (module_of cards) = False"
  "km_misc (module_of cards) = False" "km_notifier (module_of cards)"
  by (simp_all add: module_of_def)

theorem settime_then_gettime_witness:
  "\<exists>w'. ptp_settime (radio_api Map.empty) (radio_card 0 (Some 3)) \<lparr>tv_sec = 5, tv_nsec = 1999\<rparr> \<lparr>ra_tsf = (\<lambda>p v. 0), ra_now = 0\<rparr>
         = (Inr (), w') \<and>
     fst (ptp_gettime (radio_api Map.empty) (radio_card 0 (Some 3)) w') = Inr \<lparr>tv_sec = 5, tv_nsec = 1000\<rparr>"
  using settime_then_gettime [OF radio.tsf_driver_axioms, of "radio_card 0 (Some 3)" 3 "\<lparr>tv_sec = 5, tv_nsec = 1999\<rparr>"] by simp

text \<open>
  A step of adjtime and the opposite step cancel: both are skipped or both are cut to microseconds
  towards zero.
\<close>

theorem adjtime_back:
  assumes "tsf_driver api tsf_at" "cd_vif c = Some v" "settable c" "delta \<noteq> i64_min"
    "ptp_adjtime api c delta k w = (r, k1, w1)" "ptp_adjtime api c (- delta) k1 w1 = (r', k2, w2)"
  shows "r = Inr () \<and> r' = Inr () \<and> tsf_at w2 (cd_wiphy c) v = tsf_at w (cd_wiphy c) v"
proof -
  have lo: "lo_get_tsf (cd_local c)" "lo_set_tsf (cd_local c)" using assms(3) by (simp_all add: settable_def)
  have neg: "sint (- delta) = - sint delta" by (rule sint_neg_exact [OF assms(4)])
  then have below: "below_threshold t (- delta) \<longleftrightarrow> below_threshold t delta" for t
    by (auto simp: below_threshold_def word_sless_alt)
  have thr: "km_threshold_ns k1 = km_threshold_ns k" using assms(2,5)
    by (auto simp: ptp_adjtime_def Let_def split: if_splits prod.splits)
  show ?thesis
  proof (cases "0 < km_threshold_ns k \<and> below_threshold (km_threshold_ns k) delta")
    case True
    then show ?thesis using assms(5,6) below thr by (auto simp: ptp_adjtime_def)
  next
    case False
    have step: "tsf_at w' (cd_wiphy c) v = tsf_at w (cd_wiphy c) v + word_of_int (sint d sdiv 1000) \<and> r = Inr ()"
      if "ptp_adjtime api c d k w = (r, k', w')" "\<not> (0 < km_threshold_ns k \<and> below_threshold (km_threshold_ns k) d)" for d k w r k' w'
    proof -
      obtain w0 where "call_get_tsf api c v w = (tsf_at w (cd_wiphy c) v, w0)"
        using tsf_driver.call_get [OF assms(1) lo(1)] by blast
      then show ?thesis using that assms(2) tsf_driver.call_set_same [OF assms(1) lo(2)] by (auto simp: ptp_adjtime_def Let_def)
    qed
    have "(- sint delta) sdiv 1000 = - (sint delta sdiv 1000)" by (rule sdiv_minus) simp
    then show ?thesis using step [OF assms(5) False] step [OF assms(6)] False below thr neg by simp
  qed
qed

end
