(* ===== verification/KernelSync.thy ===== *)
theory KernelSync
  imports KernelCard
begin

text \<open>
  Mode B (src/kernel/tsf\_ptp.c): the delayed work that reads the TSF of the primary card and sets
  that of every other card whose offset reaches the threshold.  A card of the list is its position,
  as the code compares addresses.
\<close>

section \<open>The work\<close>

definition find_index :: "('a \<Rightarrow> bool) \<Rightarrow> 'a list \<Rightarrow> nat option" where
  "find_index P xs = find (\<lambda>i. P (xs ! i)) [0..<length xs]"

definition find_primary_locked :: "kmod \<Rightarrow> nat option" where
  "find_primary_locked k =
     (let prim = km_sync_primary k
      in if prim \<noteq> [] then find_index (\<lambda>c. cd_phy_name c = prim) (km_cards k)
         else if km_cards k = [] then None else Some 0)"

text \<open>One secondary card; the pair counts the applied and the skipped adjustments.\<close>

definition sync_card :: "'w kapi \<Rightarrow> u32 \<Rightarrow> u64 \<Rightarrow> tsf_card \<Rightarrow> u64 \<times> u64 \<Rightarrow> 'w \<Rightarrow> tsf_card \<times> (u64 \<times> u64) \<times> 'w" where
  "sync_card api threshold primary_tsf c counts w =
     (case cd_vif c of
        None \<Rightarrow> (c\<lparr>cd_sync_error_count := cd_sync_error_count c + 1\<rparr>, counts, w)
      | Some vif \<Rightarrow>
          (let (secondary_tsf, w) = call_get_tsf api c vif w;
               delta_ns = (primary_tsf - secondary_tsf) * 1000;
               c' = c\<lparr>cd_last_offset_ns := delta_ns, cd_sync_count := cd_sync_count c + 1\<rparr>
           in if threshold = 0 \<or> \<not> below_threshold threshold delta_ns
              then (c', (fst counts + 1, snd counts), call_set_tsf api c vif primary_tsf w)
              else (c', (fst counts, snd counts + 1), w)))"

fun sync_cards ::
    "'w kapi \<Rightarrow> u32 \<Rightarrow> nat \<Rightarrow> u64 \<Rightarrow> nat \<Rightarrow> tsf_card list \<Rightarrow> u64 \<times> u64 \<Rightarrow> 'w \<Rightarrow> tsf_card list \<times> (u64 \<times> u64) \<times> 'w" where
  "sync_cards api threshold primary primary_tsf i [] counts w = ([], counts, w)"
| "sync_cards api threshold primary primary_tsf i (c # cs) counts w =
     (let (c', counts, w) = (if i = primary then (c, counts, w) else sync_card api threshold primary_tsf c counts w);
          (cs', counts, w) = sync_cards api threshold primary primary_tsf (i + 1) cs counts w
      in (c' # cs', counts, w))"

text \<open>Queueing work that is queued already has no effect.\<close>

definition schedule_delayed_work :: "u32 \<Rightarrow> kmod \<Rightarrow> kmod" where
  "schedule_delayed_work ms k = (case km_work k of None \<Rightarrow> k\<lparr>km_work := Some ms\<rparr> | Some _ \<Rightarrow> k)"

definition resched :: "kmod \<Rightarrow> kmod" where
  "resched k = schedule_delayed_work (if km_interval_ms k = 0 then 10 else km_interval_ms k) k"

definition sync_work_fn :: "'w kapi \<Rightarrow> kmod \<Rightarrow> 'w \<Rightarrow> kmod \<times> 'w" where
  "sync_work_fn api k w =
     (case find_primary_locked k of
        None \<Rightarrow> (resched (k\<lparr>km_sync_error_count := km_sync_error_count k + 1\<rparr>), w)
      | Some primary \<Rightarrow>
          (case cd_vif (km_cards k ! primary) of
             None \<Rightarrow> (resched (k\<lparr>km_sync_error_count := km_sync_error_count k + 1\<rparr>), w)
           | Some vif \<Rightarrow>
               (let (primary_tsf, w) = call_get_tsf api (km_cards k ! primary) vif w;
                    (cards, (applied, skipped), w) =
                      sync_cards api (km_threshold_ns k) primary primary_tsf 0 (km_cards k)
                        (km_apply_count k, km_skip_count k) w
                in (resched (k\<lparr>km_cards := cards, km_apply_count := applied, km_skip_count := skipped,
                               km_sync_count := km_sync_count k + 1\<rparr>), w))))"

definition sync_start_kernel :: "kmod \<Rightarrow> kmod" where
  "sync_start_kernel k = schedule_delayed_work (km_interval_ms k) (k\<lparr>km_work := None\<rparr>)"

definition sync_stop_kernel :: "kmod \<Rightarrow> kmod" where
  "sync_stop_kernel k = k\<lparr>km_work := None\<rparr>"

text \<open>The work queue takes the work off the queue and runs it.\<close>

definition run_sync_work :: "'w kapi \<Rightarrow> kmod \<Rightarrow> 'w \<Rightarrow> kmod \<times> 'w" where
  "run_sync_work api k w =
     (case km_work k of None \<Rightarrow> (k, w) | Some _ \<Rightarrow> sync_work_fn api (k\<lparr>km_work := None\<rparr>) w)"

section \<open>Lemmas\<close>

lemma find_index_Some: "find_index P xs = Some i \<Longrightarrow> i < length xs \<and> P (xs ! i)"
  by (auto simp: find_index_def find_Some_iff)

lemma find_index_None: "find_index P xs = None \<longleftrightarrow> (\<forall>x \<in> set xs. \<not> P x)"
  by (fastforce simp: find_index_def find_None_iff in_set_conv_nth)

lemma find_primary_in: "find_primary_locked k = Some p \<Longrightarrow> p < length (km_cards k)"
  by (auto simp: find_primary_locked_def Let_def split: if_splits dest: find_index_Some)

lemma resched_simps [simp]:
  "km_cards (resched k) = km_cards k" "km_apply_count (resched k) = km_apply_count k"
  "km_skip_count (resched k) = km_skip_count k" "km_sync_count (resched k) = km_sync_count k"
  "km_sync_error_count (resched k) = km_sync_error_count k"
  "km_clocks (resched k) = km_clocks k" "km_misc (resched k) = km_misc k" "km_notifier (resched k) = km_notifier k"
  "km_chardev_registered (resched k) = km_chardev_registered k" "km_sync_mode (resched k) = km_sync_mode k"
  "km_threshold_ns (resched k) = km_threshold_ns k"
  by (simp_all add: resched_def schedule_delayed_work_def split: option.split)

lemma km_work_resched: "km_work (resched k) = (case km_work k of None \<Rightarrow> Some (if km_interval_ms k = 0 then 10 else km_interval_ms k) | w \<Rightarrow> w)"
  by (simp add: resched_def schedule_delayed_work_def split: option.split)

text \<open>The offset of a card in the microseconds of the TSF, without wrap-around.\<close>

definition tsf_in_range :: "u64 \<Rightarrow> bool" where
  "tsf_in_range t \<longleftrightarrow> uint t * 1000 < 9223372036854775808"

text \<open>Mode B's decision for a card whose TSF is \<open>t\<close> and whose primary's is \<open>p\<close>.\<close>

definition aligned :: "u32 \<Rightarrow> u64 \<Rightarrow> u64 \<Rightarrow> u64" where
  "aligned threshold p t = (if int (unat threshold) \<le> 1000 * \<bar>uint p - uint t\<bar> then p else t)"

lemma scaled_diff:
  fixes a b :: int
  assumes "0 \<le> a" "0 \<le> b" "a * 1000 < 9223372036854775808" "b * 1000 < 9223372036854775808"
  shows "- 9223372036854775808 < 1000 * (a - b)" "1000 * (a - b) < 9223372036854775808"
    "in_i64 (a - b)" "in_i64 ((a - b) * 1000)"
proof -
  show l: "- 9223372036854775808 < 1000 * (a - b)" and u: "1000 * (a - b) < 9223372036854775808"
    using assms by (simp_all add: right_diff_distrib)
  show "in_i64 ((a - b) * 1000)" using l u by (simp add: in_i64_def mult.commute)
  show "in_i64 (a - b)" using l u unfolding in_i64_def by simp
qed

lemma delta_exact:
  assumes "tsf_in_range p" "tsf_in_range t"
  shows "sint ((p - t) * 1000) = 1000 * (uint p - uint t)"
proof -
  have r: "0 \<le> uint p" "0 \<le> uint t" "uint p * 1000 < 9223372036854775808" "uint t * 1000 < 9223372036854775808"
    using assms by (simp_all add: tsf_in_range_def)
  then have s: "sint p = uint p" "sint t = uint t" by (simp_all add: sint_small)
  have d: "sint (p - t) = uint p - uint t"
    unfolding s [symmetric] by (rule sint_sub_exact) (unfold s, rule scaled_diff(3) [OF r])
  have "in_i64 (sint (p - t) * 1000)" unfolding d by (rule scaled_diff(4) [OF r])
  then show ?thesis using sint_mul_exact [of "p - t" 1000] d by simp
qed

lemma below_threshold_exact:
  assumes "tsf_in_range p" "tsf_in_range t"
  shows "below_threshold thr ((p - t) * 1000) \<longleftrightarrow> 1000 * \<bar>uint p - uint t\<bar> < int (unat thr)"
proof -
  have "0 \<le> uint p" "0 \<le> uint t" "uint p * 1000 < 9223372036854775808" "uint t * 1000 < 9223372036854775808"
    using assms by (simp_all add: tsf_in_range_def)
  then have "sint i64_min < sint ((p - t) * 1000)"
    unfolding delta_exact [OF assms] sint_i64_min by (rule scaled_diff(1))
  then have "(p - t) * 1000 \<noteq> i64_min" by (metis less_irrefl)
  then have "sint (- ((p - t) * 1000)) = - (1000 * (uint p - uint t))"
    using delta_exact [OF assms] sint_neg_exact by metis
  then show ?thesis using delta_exact [OF assms] by (auto simp: below_threshold_def word_sless_alt abs_if)
qed

lemma aligned_primary [simp]: "aligned thr p p = p"
  by (simp add: aligned_def)

text \<open>What a cycle writes into the structure of a secondary whose TSF was \<open>t\<close>.\<close>

definition same_card :: "tsf_card \<Rightarrow> tsf_card \<Rightarrow> bool" where
  "same_card c c' \<longleftrightarrow> cd_wiphy c' = cd_wiphy c \<and> cd_vif c' = cd_vif c \<and> cd_local c' = cd_local c \<and> cd_phy_name c' = cd_phy_name c"

definition counted :: "u64 \<Rightarrow> u64 option \<Rightarrow> tsf_card \<Rightarrow> tsf_card \<Rightarrow> bool" where
  "counted p u c c' \<longleftrightarrow>
     (case u of
        None \<Rightarrow> cd_sync_error_count c' = cd_sync_error_count c + 1 \<and> cd_sync_count c' = cd_sync_count c
      | Some t \<Rightarrow> cd_sync_count c' = cd_sync_count c + 1 \<and> cd_sync_error_count c' = cd_sync_error_count c \<and>
          sint (cd_last_offset_ns c') = 1000 * (uint p - uint t))"

lemma card_tsf_same: "same_card c c' \<Longrightarrow> card_tsf tsf_at w c' = card_tsf tsf_at w c"
  by (simp add: same_card_def card_tsf_def)

lemma same_card_refl [simp]: "same_card c c"
  by (simp add: same_card_def)

context tsf_driver begin

text \<open>One secondary: its TSF is aligned, its counters say which branch was taken, no other wiphy is touched.\<close>

lemma sync_card_correct:
  assumes "settable c" "tsf_in_range p" "\<forall>t. card_tsf tsf_at w c = Some t \<longrightarrow> tsf_in_range t"
    "sync_card api thr p c (a, s) w = (c', (a', s'), w')"
  shows "card_tsf tsf_at w' c = map_option (aligned thr p) (card_tsf tsf_at w c) \<and>
     same_card c c' \<and> counted p (card_tsf tsf_at w c) c c' \<and>
     (\<forall>q u. q \<noteq> cd_wiphy c \<longrightarrow> tsf_at w' q u = tsf_at w q u) \<and>
     a' + s' = a + s + of_bool (cd_vif c \<noteq> None)"
proof (cases "cd_vif c")
  case None
  then show ?thesis using assms(4) by (auto simp: sync_card_def card_tsf_def same_card_def counted_def)
next
  case (Some v)
  have lo: "lo_get_tsf (cd_local c)" "lo_set_tsf (cd_local c)" using assms(1) by (simp_all add: settable_def)
  let ?t = "tsf_at w (cd_wiphy c) v"
  obtain w1 where w1: "call_get_tsf api c v w = (?t, w1)" "tsf_at w1 = tsf_at w" using call_get [OF lo(1)] by blast
  have t: "card_tsf tsf_at w c = Some ?t" using Some by (simp add: card_tsf_def)
  then have r: "tsf_in_range ?t" using assms(3) by simp
  have apply_iff: "thr = 0 \<or> \<not> below_threshold thr ((p - ?t) * 1000) \<longleftrightarrow> int (unat thr) \<le> 1000 * \<bar>uint p - uint ?t\<bar>"
    using below_threshold_exact [OF assms(2) r, of thr] by auto
  show ?thesis
  proof (cases "int (unat thr) \<le> 1000 * \<bar>uint p - uint ?t\<bar>")
    case True
    then have "c' = c\<lparr>cd_last_offset_ns := (p - ?t) * 1000, cd_sync_count := cd_sync_count c + 1\<rparr>" "a' = a + 1" "s' = s"
      "w' = call_set_tsf api c v p w1"
      using assms(4) Some w1(1) apply_iff by (simp_all add: sync_card_def)
    then show ?thesis using True t Some w1(2) delta_exact [OF assms(2) r] card_tsf_set [OF lo(2) Some]
      by (simp add: aligned_def call_set_other same_card_def counted_def)
  next
    case False
    then have "c' = c\<lparr>cd_last_offset_ns := (p - ?t) * 1000, cd_sync_count := cd_sync_count c + 1\<rparr>" "a' = a" "s' = s + 1"
      "w' = w1"
      using assms(4) Some w1(1) apply_iff by (simp_all add: sync_card_def)
    then show ?thesis using False t Some w1(2) delta_exact [OF assms(2) r] card_tsf_cong [OF w1(2)]
      by (simp add: aligned_def same_card_def counted_def)
  qed
qed

text \<open>All secondaries, from position \<open>i\<close> on.\<close>

lemma sync_cards_correct:
  assumes "distinct (map cd_wiphy cs)" "\<forall>c \<in> set cs. settable c"
    "\<forall>c \<in> set cs. \<forall>t. card_tsf tsf_at w c = Some t \<longrightarrow> tsf_in_range t" "tsf_in_range p"
    "\<forall>j < length cs. i + j = prim \<longrightarrow> card_tsf tsf_at w (cs ! j) = Some p"
    "sync_cards api thr prim p i cs (a, s) w = (cs', (a', s'), w')"
  shows "map (card_tsf tsf_at w') cs = map (map_option (aligned thr p) \<circ> card_tsf tsf_at w) cs \<and>
     list_all2 same_card cs cs' \<and>
     (\<forall>j < length cs. if i + j = prim then cs' ! j = cs ! j else counted p (card_tsf tsf_at w (cs ! j)) (cs ! j) (cs' ! j)) \<and>
     (\<forall>q u. q \<notin> cd_wiphy ` set cs \<longrightarrow> tsf_at w' q u = tsf_at w q u) \<and>
     a' + s' = a + s + of_nat (length (filter (\<lambda>(j, c). j \<noteq> prim \<and> cd_vif c \<noteq> None) (enumerate i cs)))"
  using assms
proof (induction cs arbitrary: i a s w cs')
  case (Cons c cs)
  obtain c1 a1 s1 w1 where step: "(if i = prim then (c, (a, s), w) else sync_card api thr p c (a, s) w) = (c1, (a1, s1), w1)"
    by (metis prod.collapse)
  obtain cs1 where rest: "sync_cards api thr prim p (i + 1) cs (a1, s1) w1 = (cs1, (a', s'), w')" "cs' = c1 # cs1"
    using Cons.prems(6) step by (auto simp: Let_def split: prod.splits)
  have c: "card_tsf tsf_at w1 c = map_option (aligned thr p) (card_tsf tsf_at w c)" "same_card c c1"
    "if i = prim then c1 = c else counted p (card_tsf tsf_at w c) c c1"
    "\<forall>q u. q \<noteq> cd_wiphy c \<longrightarrow> tsf_at w1 q u = tsf_at w q u"
    "a1 + s1 = a + s + of_bool (i \<noteq> prim \<and> cd_vif c \<noteq> None)"
    using sync_card_correct [of c p w thr a s c1 a1 s1 w1] Cons.prems(2-5) step by (auto split: if_splits)
  have other: "card_tsf tsf_at w1 d = card_tsf tsf_at w d" if "d \<in> set cs" for d
  proof -
    have "cd_wiphy d \<noteq> cd_wiphy c" using imageI [OF that, of cd_wiphy] Cons.prems(1) by auto
    then show ?thesis using c(4) by (cases "cd_vif d") (simp_all add: card_tsf_def)
  qed
  have ih: "map (card_tsf tsf_at w') cs = map (map_option (aligned thr p) \<circ> card_tsf tsf_at w1) cs \<and>
     list_all2 same_card cs cs1 \<and>
     (\<forall>j < length cs. if i + 1 + j = prim then cs1 ! j = cs ! j else counted p (card_tsf tsf_at w1 (cs ! j)) (cs ! j) (cs1 ! j)) \<and>
     (\<forall>q u. q \<notin> cd_wiphy ` set cs \<longrightarrow> tsf_at w' q u = tsf_at w1 q u) \<and>
     a' + s' = a1 + s1 + of_nat (length (filter (\<lambda>(j, c). j \<noteq> prim \<and> cd_vif c \<noteq> None) (enumerate (i + 1) cs)))"
    using Cons.prems other rest(1) by (intro Cons.IH) (force simp: nth_Cons)+
  have "card_tsf tsf_at w' c = card_tsf tsf_at w1 c"
    using ih Cons.prems(1) by (cases "cd_vif c") (auto simp: card_tsf_def)
  then have "map (card_tsf tsf_at w') (c # cs) = map (map_option (aligned thr p) \<circ> card_tsf tsf_at w) (c # cs)"
    using ih c(1) other by (simp cong: map_cong)
  moreover have "\<forall>j < length (c # cs). if i + j = prim then cs' ! j = (c # cs) ! j
      else counted p (card_tsf tsf_at w ((c # cs) ! j)) ((c # cs) ! j) (cs' ! j)"
    using ih c(3) other rest(2) by (auto simp: nth_Cons split: nat.split)
  ultimately show ?case using ih c(2,4,5) rest(2) by (auto simp: algebra_simps)
qed simp

lemma sync_work_correct:
  assumes "distinct (map cd_wiphy (km_cards k))" "\<forall>c \<in> set (km_cards k). settable c"
    "\<forall>c \<in> set (km_cards k). \<forall>t. card_tsf tsf_at w c = Some t \<longrightarrow> tsf_in_range t"
    "find_primary_locked k = Some i" "card_tsf tsf_at w (km_cards k ! i) = Some p"
    "sync_work_fn api k w = (k', w')"
  shows "map (card_tsf tsf_at w') (km_cards k') = map (map_option (aligned (km_threshold_ns k) p) \<circ> card_tsf tsf_at w) (km_cards k) \<and>
     list_all2 same_card (km_cards k) (km_cards k') \<and>
     (\<forall>j < length (km_cards k). if j = i then km_cards k' ! j = km_cards k ! j
        else counted p (card_tsf tsf_at w (km_cards k ! j)) (km_cards k ! j) (km_cards k' ! j)) \<and>
     (\<forall>q u. q \<notin> cd_wiphy ` set (km_cards k) \<longrightarrow> tsf_at w' q u = tsf_at w q u) \<and>
     km_apply_count k' + km_skip_count k' = km_apply_count k + km_skip_count k +
       of_nat (length (filter (\<lambda>(j, c). j \<noteq> i \<and> cd_vif c \<noteq> None) (enumerate 0 (km_cards k)))) \<and>
     km_sync_count k' = km_sync_count k + 1 \<and> km_sync_error_count k' = km_sync_error_count k"
proof -
  let ?c = "km_cards k ! i"
  have i: "i < length (km_cards k)" using assms(4) by (rule find_primary_in)
  then have c: "?c \<in> set (km_cards k)" by simp
  obtain v where v: "cd_vif ?c = Some v" "tsf_at w (cd_wiphy ?c) v = p" using assms(5) by (auto simp: card_tsf_def)
  have "lo_get_tsf (cd_local ?c)" using assms(2) c by (simp add: settable_def)
  then obtain w1 where w1: "call_get_tsf api ?c v w = (p, w1)" "tsf_at w1 = tsf_at w" using call_get v(2) by blast
  obtain cards a s where l: "sync_cards api (km_threshold_ns k) i p 0 (km_cards k) (km_apply_count k, km_skip_count k) w1 = (cards, (a, s), w')"
    and k': "k' = resched (k\<lparr>km_cards := cards, km_apply_count := a, km_skip_count := s, km_sync_count := km_sync_count k + 1\<rparr>)"
    using assms(4,6) v(1) w1(1) by (auto simp: sync_work_fn_def Let_def split: prod.splits)
  have w1t: "card_tsf tsf_at w1 = card_tsf tsf_at w" using w1(2) by (rule card_tsf_cong)
  have "tsf_in_range p" using assms(3,5) c by blast
  from sync_cards_correct [OF assms(1,2) _ this _ l]
  have main: "map (card_tsf tsf_at w') (km_cards k) = map (map_option (aligned (km_threshold_ns k) p) \<circ> card_tsf tsf_at w) (km_cards k) \<and>
     list_all2 same_card (km_cards k) cards \<and>
     (\<forall>j < length (km_cards k). if 0 + j = i then cards ! j = km_cards k ! j
        else counted p (card_tsf tsf_at w (km_cards k ! j)) (km_cards k ! j) (cards ! j)) \<and>
     (\<forall>q u. q \<notin> cd_wiphy ` set (km_cards k) \<longrightarrow> tsf_at w' q u = tsf_at w1 q u) \<and>
     a + s = km_apply_count k + km_skip_count k + of_nat (length (filter (\<lambda>(j, c). j \<noteq> i \<and> cd_vif c \<noteq> None) (enumerate 0 (km_cards k))))"
    unfolding w1t using assms(3,5) by simp
  moreover have "map (card_tsf tsf_at w') cards = map (card_tsf tsf_at w') (km_cards k)"
    using main by (intro nth_equalityI) (auto simp: list_all2_conv_all_nth card_tsf_same)
  ultimately show ?thesis using k' w1(2) by simp
qed

end

section \<open>Properties\<close>


text \<open>Three radios, the second 5 ms behind the first and the third without an interface.\<close>

definition three_radios :: "radios" where
  "three_radios = \<lparr>ra_tsf = (\<lambda>p v. if p = 1 then 1000000 else 1005000), ra_now = 0\<rparr>"


text \<open>Without a primary, or with a primary that is down, a cycle changes nothing but the error counter, and the loop goes on.\<close>

theorem kernel_cycle_without_primary:
  assumes "find_primary_locked k = None \<or> (\<exists>i. find_primary_locked k = Some i \<and> cd_vif (km_cards k ! i) = None)"
  shows "run_sync_work api (k\<lparr>km_work := Some d\<rparr>) w =
     (k\<lparr>km_sync_error_count := km_sync_error_count k + 1,
        km_work := Some (if km_interval_ms k = 0 then 10 else km_interval_ms k)\<rparr>, w)"
proof -
  have "find_primary_locked (k\<lparr>km_work := None\<rparr>) = find_primary_locked k" by (simp add: find_primary_locked_def Let_def)
  then show ?thesis using assms
    by (auto simp: run_sync_work_def sync_work_fn_def resched_def schedule_delayed_work_def)
qed

theorem kernel_cycle_without_primary_witness:
  "run_sync_work (radio_api Map.empty) (module_of []\<lparr>km_work := Some 10\<rparr>) three_radios =
     (module_of []\<lparr>km_sync_error_count := 1, km_work := Some 10\<rparr>, three_radios)"
  using kernel_cycle_without_primary [of "module_of []" "radio_api Map.empty" 10 three_radios]
  by (simp add: find_primary_locked_def)

end
