(* ===== verification/Chardev.thy ===== *)
theory Chardev
  imports Iouring KernelCard
begin

text \<open>
  The other side of /dev/tsf\_sync: the character device of the kernel module
  (tsf\_sync\_chardev\_read and tsf\_sync\_chardev\_write in kernel/tsf\_ptp.c), and the contract
  \<open>tsf_device\<close> between the two sides.  The handlers of the kernel give the contract, behind a
  ring that serves one request at a time, for every driver that keeps its own (\<open>tsf_kernel\<close>), and
  the alignment theorem of the synchroniser is proved once from the contract.
\<close>

section \<open>The kernel side\<close>

definition snapshot_card :: "'w kapi \<Rightarrow> nat \<Rightarrow> tsf_card \<Rightarrow> 'w \<Rightarrow> tsf_snapshot \<times> 'w" where
  "snapshot_card api i c w =
     (let name = cd_phy_name c;
          snap = \<lparr>sn_card_index = word_of_nat i, sn_phy_name_len = word_of_nat (length name),
                  sn_phy_name = take 32 name @ replicate (32 - length name) 0, sn_tsf_ns = 0, sn_mono_ns = 0\<rparr>
      in case cd_vif c of
           None \<Rightarrow> (snap, w)
         | Some vif \<Rightarrow>
             (let (tsf, w) = call_get_tsf api c vif w
              in (snap\<lparr>sn_tsf_ns := tsf * 1000, sn_mono_ns := ka_mono api w\<rparr>, w)))"

fun snapshot_cards :: "'w kapi \<Rightarrow> nat \<Rightarrow> tsf_card list \<Rightarrow> 'w \<Rightarrow> tsf_snapshot list \<times> 'w" where
  "snapshot_cards api i [] w = ([], w)"
| "snapshot_cards api i (c # cs) w =
     (let (s, w) = snapshot_card api i c w; (ss, w) = snapshot_cards api (i + 1) cs w in (s # ss, w))"

text \<open>
  The result of a read is the bytes copied or the errno; \<open>user_ok\<close> says whether the buffer of the
  caller is accessible.
\<close>

definition chardev_read :: "'w kapi \<Rightarrow> kmod \<Rightarrow> nat \<Rightarrow> bool \<Rightarrow> 'w \<Rightarrow> (int + u8 list) \<times> 'w" where
  "chardev_read api k count user_ok w =
     (if km_cards k = [] then (Inr [], w)
      else if \<not> ka_alloc api w then (Inl 12, w)
      else let (snaps, w) = snapshot_cards api 0 (km_cards k) w;
               ret = min count (length snaps * snapshot_size)
           in if user_ok then (Inr (take ret (concat (map snapshot_bytes snaps))), w) else (Inl 14, w))"

text \<open>
  One adjustment.  When the index equals the number of cards the search loop ends with the
  list head as the cursor and the test behind it passes: \<open>None\<close> is that invalid access.
\<close>

definition apply_adjustment :: "'w kapi \<Rightarrow> tsf_adjustment \<Rightarrow> kmod \<Rightarrow> 'w \<Rightarrow> (kmod \<times> 'w) option" where
  "apply_adjustment api a k w =
     (let delta = adj_delta_ns a; i = unat (adj_card_index a)
      in if 0 < km_threshold_ns k \<and> below_threshold (km_threshold_ns k) delta
         then Some (k\<lparr>km_skip_count := km_skip_count k + 1\<rparr>, w)
         else if i = length (km_cards k) then None
         else if length (km_cards k) < i then Some (k, w)
         else (let c = km_cards k ! i
               in case cd_vif c of
                    None \<Rightarrow> Some (k, w)
                  | Some vif \<Rightarrow>
                      (let (tsf, w) = call_get_tsf api c vif w;
                           w = call_set_tsf api c vif (tsf + word_of_int (sint delta sdiv 1000)) w
                       in Some (k\<lparr>km_apply_count := km_apply_count k + 1\<rparr>, w))))"

fun apply_adjustments :: "'w kapi \<Rightarrow> tsf_adjustment list \<Rightarrow> kmod \<Rightarrow> 'w \<Rightarrow> (kmod \<times> 'w) option" where
  "apply_adjustments api [] k w = Some (k, w)"
| "apply_adjustments api (a # adjs) k w =
     (case apply_adjustment api a k w of None \<Rightarrow> None | Some (k, w) \<Rightarrow> apply_adjustments api adjs k w)"

text \<open>The result of a write is the number of bytes taken or a negative errno.\<close>

definition chardev_write :: "'w kapi \<Rightarrow> u8 list \<Rightarrow> bool \<Rightarrow> kmod \<Rightarrow> 'w \<Rightarrow> (int \<times> kmod \<times> 'w) option" where
  "chardev_write api buf user_ok k w =
     (let n = length buf div adjustment_size
      in if buf = [] then Some (0, k, w)
         else if n = 0 then Some (- 22, k, w)
         else if \<not> ka_alloc api w then Some (- 12, k, w)
         else if \<not> user_ok then Some (- 14, k, w)
         else map_option (\<lambda>(k, w). (int (n * adjustment_size), k, w))
                (apply_adjustments api (records adjustment_size read_adjustment n buf) k w))"

section \<open>The contract of the device\<close>

text \<open>
  The TSFs of the cards in nanoseconds as the device reports them, and what a written list of
  adjustments does to the counters, index by index.
\<close>

definition moved :: "nat \<Rightarrow> i64 \<Rightarrow> u64 option \<Rightarrow> u64 option" where
  "moved thr delta t =
     (if 0 < thr \<and> sint (if delta <s 0 then - delta else delta) < int thr then t
      else map_option (\<lambda>t. t + word_of_int (sint delta sdiv 1000)) t)"

fun move_tsfs :: "nat \<Rightarrow> tsf_adjustment list \<Rightarrow> u64 option list \<Rightarrow> u64 option list" where
  "move_tsfs thr [] ts = ts"
| "move_tsfs thr (a # adjs) ts =
     (let i = unat (adj_card_index a)
      in move_tsfs thr adjs (ts[i := moved thr (adj_delta_ns a) (ts ! i)]))"

definition reported_ns :: "u64 option \<Rightarrow> i64" where
  "reported_ns t = (case t of Some t \<Rightarrow> t * 1000 | None \<Rightarrow> 0)"

locale tsf_device =
  fixes ring :: "'w uring" and fd :: int and dev_tsfs :: "'w \<Rightarrow> u64 option list"
    and dev_snaps :: "'w \<Rightarrow> tsf_snapshot list" and thr :: nat and dev_ok :: "'w \<Rightarrow> bool"
  assumes snaps: "dev_ok w \<Longrightarrow> length (dev_snaps w) = length (dev_tsfs w) \<and> length (dev_tsfs w) \<le> max_cards"
    and snap: "dev_ok w \<Longrightarrow> i < length (dev_tsfs w) \<Longrightarrow>
      sn_card_index (dev_snaps w ! i) = word_of_nat i \<and> sn_tsf_ns (dev_snaps w ! i) = reported_ns (dev_tsfs w ! i) \<and>
      length (sn_phy_name (dev_snaps w ! i)) = 32"
    and read_dev: "dev_ok w \<Longrightarrow>
      \<exists>w'. ring_op ring (ReadSqe fd (snapshot_size * max_cards)) w =
          (let bs = concat (map snapshot_bytes (dev_snaps w)) in (Inr (int (length bs), bs), w')) \<and>
        dev_ok w' \<and> dev_tsfs w' = dev_tsfs w"
    and write_dev: "dev_ok w \<Longrightarrow> adjs \<noteq> [] \<Longrightarrow> \<forall>a \<in> set adjs. unat (adj_card_index a) < length (dev_tsfs w) \<Longrightarrow>
      \<exists>w'. ring_op ring (WriteSqe fd (concat (map adjustment_bytes adjs))) w =
          (Inr (int (12 * length adjs), []), w') \<and>
        dev_ok w' \<and> dev_tsfs w' = move_tsfs thr adjs (dev_tsfs w)"

section \<open>What one cycle asks of the device\<close>

definition adjusts :: "syncer \<Rightarrow> i64 \<Rightarrow> tsf_snapshot \<Rightarrow> bool" where
  "adjusts sy pt s \<longleftrightarrow> sn_card_index s \<noteq> sy_primary_index sy \<and> sint (sy_threshold_ns sy) < \<bar>sint pt - sint (sn_tsf_ns s)\<bar>"

definition adjustment_of :: "i64 \<Rightarrow> tsf_snapshot \<Rightarrow> tsf_adjustment" where
  "adjustment_of pt s = \<lparr>adj_card_index = sn_card_index s, adj_delta_ns = pt - sn_tsf_ns s\<rparr>"

lemma abs_delta:
  assumes "0 \<le> sint (a :: i64)" "0 \<le> sint b"
  shows "sub_i64 pr a b = Some (a - b)"
    "\<exists>d. (if a - b <s 0 then neg_i64 pr (a - b) else Some (a - b)) = Some d \<and> sint d = \<bar>sint a - sint b\<bar>"
    "sint (a - b) = sint a - sint b"
proof -
  have in': "in_i64 (sint a - sint b)" "- 9223372036854775808 < sint a - sint b"
    using assms sint_bounds [of a] sint_bounds [of b] by (simp_all add: in_i64_def)
  then show sub: "sub_i64 pr a b = Some (a - b)" by (simp add: sub_i64_def)
  show s: "sint (a - b) = sint a - sint b" using in'(1) by (rule sint_sub_exact)
  then have "a - b \<noteq> i64_min" using in'(2) sint_eq_iff [of "a - b" i64_min] by auto
  then show "\<exists>d. (if a - b <s 0 then neg_i64 pr (a - b) else Some (a - b)) = Some d \<and> sint d = \<bar>sint a - sint b\<bar>"
    using s sint_neg_exact [of "a - b"] by (auto simp: word_sless_alt neg_i64_def)
qed

lemma adjust_loop_ok:
  assumes "0 \<le> sint pt" "\<forall>s \<in> set snaps. 0 \<le> sint (sn_tsf_ns s)"
    "unat (adjustments_applied st) + unat (adjustments_skipped st) + length snaps < 2 ^ 32"
  shows "\<exists>st'. adjust_loop pr sy pt snaps adjs st = Some (adjs @ map (adjustment_of pt) (filter (adjusts sy pt) snaps), st') \<and>
     cards_read st' = cards_read st \<and>
     unat (adjustments_applied st') = unat (adjustments_applied st) + length (filter (adjusts sy pt) snaps) \<and>
     unat (adjustments_applied st') + unat (adjustments_skipped st') =
       unat (adjustments_applied st) + unat (adjustments_skipped st) +
       length (filter (\<lambda>s. sn_card_index s \<noteq> sy_primary_index sy) snaps)"
  using assms
proof (induction snaps arbitrary: adjs st)
  case (Cons s snaps)
  show ?case
  proof (cases "sn_card_index s = sy_primary_index sy")
    case True
    then show ?thesis using Cons.IH [of st adjs] Cons.prems by (auto simp: adjusts_def)
  next
    case False
    obtain d where d: "sub_i64 pr pt (sn_tsf_ns s) = Some (pt - sn_tsf_ns s)"
      "(if pt - sn_tsf_ns s <s 0 then neg_i64 pr (pt - sn_tsf_ns s) else Some (pt - sn_tsf_ns s)) = Some d"
      "sint d = \<bar>sint pt - sint (sn_tsf_ns s)\<bar>"
      using abs_delta(1,2) [OF Cons.prems(1), of "sn_tsf_ns s" pr] Cons.prems(2) by auto
    define st0 where "st0 = (if max_offset_ns st <s d then st\<lparr>max_offset_ns := d\<rparr> else st)"
    have st0: "adjustments_applied st0 = adjustments_applied st" "adjustments_skipped st0 = adjustments_skipped st"
      "cards_read st0 = cards_read st" by (simp_all add: st0_def)
    have bound: "unat (adjustments_applied st) + 1 < 2 ^ 32" "unat (adjustments_skipped st) + 1 < 2 ^ 32"
      using Cons.prems(3) by simp_all
    have n: "add_u32 pr (adjustments_applied st0) 1 = Some (adjustments_applied st + 1)"
      "unat (adjustments_applied st + 1) = unat (adjustments_applied st) + 1"
      "add_u32 pr (adjustments_skipped st0) 1 = Some (adjustments_skipped st + 1)"
      "unat (adjustments_skipped st + 1) = unat (adjustments_skipped st) + 1"
      using bound st0 by (simp_all add: add_u32_def unat_word_ariths)
    have ad: "adjusts sy pt s \<longleftrightarrow> sy_threshold_ns sy <s d" using False d(3) by (simp add: adjusts_def word_sless_alt)
    show ?thesis
    proof (cases "sy_threshold_ns sy <s d")
      case True
      let ?st = "st0\<lparr>adjustments_applied := adjustments_applied st + 1\<rparr>"
      have "adjust_loop pr sy pt (s # snaps) adjs st = adjust_loop pr sy pt snaps (adjs @ [adjustment_of pt s]) ?st"
        using False True d(1,2) n by (simp add: Let_def st0_def [symmetric] adjustment_of_def)
      then show ?thesis
        using Cons.IH [of ?st "adjs @ [adjustment_of pt s]"] Cons.prems False True ad n st0 by auto
    next
      case F: False
      let ?st = "st0\<lparr>adjustments_skipped := adjustments_skipped st + 1\<rparr>"
      have "adjust_loop pr sy pt (s # snaps) adjs st = adjust_loop pr sy pt snaps adjs ?st"
        using False F d(1,2) n by (simp add: Let_def st0_def [symmetric])
      then show ?thesis
        using Cons.IH [of ?st adjs] Cons.prems False F ad n st0 by auto
    qed
  qed
qed simp

lemma move_tsfs_distinct:
  assumes "distinct (map adj_card_index adjs)" "\<forall>a \<in> set adjs. unat (adj_card_index a) < length ts"
  shows "length (move_tsfs thr adjs ts) = length ts \<and>
     (\<forall>a \<in> set adjs. move_tsfs thr adjs ts ! unat (adj_card_index a) =
        moved thr (adj_delta_ns a) (ts ! unat (adj_card_index a))) \<and>
     (\<forall>j < length ts. j \<notin> (unat \<circ> adj_card_index) ` set adjs \<longrightarrow> move_tsfs thr adjs ts ! j = ts ! j)"
  using assms
proof (induction adjs arbitrary: ts)
  case (Cons b adjs)
  let ?i = "unat (adj_card_index b)"
  let ?ts = "ts[?i := moved thr (adj_delta_ns b) (ts ! ?i)]"
  have eq: "move_tsfs thr (b # adjs) ts = move_tsfs thr adjs ?ts" by (simp add: Let_def)
  have ne: "unat (adj_card_index a) \<noteq> ?i" if "a \<in> set adjs" for a
  proof -
    have "adj_card_index a \<in> adj_card_index ` set adjs" using that by (rule imageI)
    then have "adj_card_index a \<noteq> adj_card_index b" using Cons.prems(1) by auto
    then show ?thesis by (simp add: word_unat_eq_iff)
  qed
  have ih: "length (move_tsfs thr adjs ?ts) = length ?ts \<and>
     (\<forall>a \<in> set adjs. move_tsfs thr adjs ?ts ! unat (adj_card_index a) =
        moved thr (adj_delta_ns a) (?ts ! unat (adj_card_index a))) \<and>
     (\<forall>j < length ?ts. j \<notin> (unat \<circ> adj_card_index) ` set adjs \<longrightarrow> move_tsfs thr adjs ?ts ! j = ?ts ! j)"
    using Cons.prems by (intro Cons.IH) simp_all
  moreover have "?i \<notin> (unat \<circ> adj_card_index) ` set adjs" using ne by force
  ultimately show ?case unfolding eq using ne Cons.prems(2) by (auto simp: nth_list_update)
qed simp

lemma abs_scale: "\<bar>1000 * a - 1000 * b\<bar> = 1000 * \<bar>a - b :: int\<bar>"
  by (auto simp: abs_if)

text \<open>The microseconds a card reports: its TSF, or 0 without an interface.\<close>

definition reported_us :: "u64 option \<Rightarrow> int" where
  "reported_us u = (case u of Some t \<Rightarrow> uint t | None \<Rightarrow> 0)"

lemma moved_exact:
  assumes "sint delta = 1000 * (p - reported_us u)" "int thr \<le> 1000 * \<bar>p - reported_us u\<bar>"
  shows "moved thr delta u = map_option (\<lambda>_. word_of_int p) u"
proof -
  have ne: "delta \<noteq> i64_min"
  proof
    assume "delta = i64_min"
    then have "- 9223372036854775808 = 1000 * (p - reported_us u)" using assms(1) by simp
    then have "(1000 :: int) dvd 9223372036854775808" by (metis dvd_minus_iff dvd_triv_left)
    then show False by simp
  qed
  have "sint (if delta <s 0 then - delta else delta) = \<bar>sint delta\<bar>"
    using sint_neg_exact [OF ne] by (simp add: word_sless_alt)
  also have "\<dots> = 1000 * \<bar>p - reported_us u\<bar>" by (simp add: assms(1) abs_scale)
  finally have ge: "\<not> sint (if delta <s 0 then - delta else delta) < int thr" using assms(2) by simp
  have "(1000 * x) sdiv 1000 = x" for x :: int
    by (simp add: sdiv_pos sgn_mult abs_mult sgn_mult_abs mult.commute [of 1000])
  then have "sint delta sdiv 1000 = p - reported_us u" by (simp only: assms(1))
  with ge show ?thesis by (cases u) (simp_all add: moved_def reported_us_def)
qed

lemma length_concat_snapshots:
  "\<forall>s \<in> set ss. length (sn_phy_name s) = 32 \<Longrightarrow> length (concat (map snapshot_bytes ss)) = 56 * length ss"
  by (induction ss) (simp_all add: length_snapshot_bytes)

lemma reported_ns_exact:
  assumes "reported_us u * 1000 < 2 ^ 63"
  shows "sint (reported_ns u) = reported_us u * 1000"
proof (cases u)
  case (Some t)
  have "uint (t * 1000) = uint t * uint (1000 :: u64) mod 2 ^ 64" by (simp only: uint_word_ariths) simp
  also have "\<dots> = uint t * 1000"
    using assms Some by (simp add: reported_us_def)
  finally have "uint (t * 1000) = uint t * 1000" .
  then show ?thesis using assms Some sint_small [of "t * 1000"] by (simp add: reported_ns_def reported_us_def)
qed (simp add: reported_ns_def reported_us_def)

lemma reported_us_nonneg: "0 \<le> reported_us u"
  by (simp add: reported_us_def split: option.split)

context tsf_device begin

lemma read_snapshots_dev:
  assumes "dev_ok w" "sy_fd sy = fd"
  shows "\<exists>w'. read_snapshots ring sy w = (Some (Inr (dev_snaps w)), w') \<and> dev_ok w' \<and> dev_tsfs w' = dev_tsfs w"
proof -
  let ?ss = "dev_snaps w"
  have names: "\<forall>s \<in> set ?ss. length (sn_phy_name s) = 32"
    using snaps [OF assms(1)] snap [OF assms(1)] by (auto simp: in_set_conv_nth)
  have len: "length (concat (map snapshot_bytes ?ss)) = 56 * length ?ss" "length ?ss \<le> 128"
    using length_concat_snapshots [OF names] snaps [OF assms(1)] by simp_all
  obtain w' where w': "ring_op ring (ReadSqe fd (snapshot_size * max_cards)) w =
      (Inr (int (56 * length ?ss), concat (map snapshot_bytes ?ss)), w')" "dev_ok w'" "dev_tsfs w' = dev_tsfs w"
    using read_dev [OF assms(1)] len(1) by (auto simp: Let_def)
  have "records snapshot_size read_snapshot (length ?ss) (concat (map snapshot_bytes ?ss) @ rest) = ?ss" for rest
    using names read_snapshot_bytes [where rest = "[]"] by (intro records_concat) (simp add: length_snapshot_bytes)
  moreover have "nat (56 * int (length ?ss)) div 56 = length ?ss" by (simp add: nat_mult_distrib)
  ultimately show ?thesis using w' assms(2) len
    by (simp add: read_snapshots_def Let_def)
qed

lemma card_index:
  assumes "dev_ok w" "i < length (dev_tsfs w)"
  shows "unat (sn_card_index (dev_snaps w ! i)) = i"
  using snaps [OF assms(1)] snap [OF assms] assms(2) by (simp add: unat_of_nat take_bit_nat_eq_self)

lemma find_primary:
  assumes "dev_ok w" "unat p < length (dev_tsfs w)"
  shows "find (\<lambda>s. sn_card_index s = p) (dev_snaps w) = Some (dev_snaps w ! unat p)"
proof -
  have "sn_card_index (dev_snaps w ! i) = p \<longleftrightarrow> i = unat p" if "i < length (dev_tsfs w)" for i
    using card_index [OF assms(1) that] by (auto simp: word_unat_eq_iff)
  then have "sn_card_index (dev_snaps w ! unat p) = p"
    "\<forall>j < unat p. sn_card_index (dev_snaps w ! j) \<noteq> p"
    using assms(2) by auto
  then show ?thesis
    using snaps [OF assms(1)] assms(2) unfolding find_Some_iff by (intro exI [of _ "unat p"]) simp
qed

text \<open>A cycle over healthy cards.\<close>

lemma sync_once_aligns_dev:
  assumes "dev_ok w" "sy_fd sy = fd" "dev_tsfs w = us"
    "\<forall>u \<in> set us. reported_us u * 1000 < 2 ^ 63" "unat (sy_primary_index sy) < length us"
    "int thr \<le> sint (sy_threshold_ns sy) + 1"
  shows "\<exists>st w'. sync_once pr ring sy w = (Some (Inr st), w') \<and> dev_ok w' \<and>
     dev_tsfs w' = map (\<lambda>u. let p = reported_us (us ! unat (sy_primary_index sy))
        in if sint (sy_threshold_ns sy) < 1000 * \<bar>p - reported_us u\<bar> then map_option (\<lambda>_. word_of_int p) u else u) us \<and>
     unat (cards_read st) = length us \<and>
     unat (adjustments_applied st) + unat (adjustments_skipped st) + 1 = length us"
proof -
  let ?n = "length us" and ?pi = "unat (sy_primary_index sy)" and ?ss = "dev_snaps w"
  let ?p = "reported_us (us ! ?pi)" and ?pt = "reported_ns (us ! ?pi)"
  have n: "length ?ss = ?n" "?n \<le> 128" using snaps [OF assms(1)] assms(3) by simp_all
  have idx: "unat (sn_card_index (?ss ! i)) = i" if "i < ?n" for i
    using card_index [OF assms(1)] that assms(3) by simp
  have tsf: "sn_tsf_ns (?ss ! i) = reported_ns (us ! i)" if "i < ?n" for i
    using snap [OF assms(1)] that assms(3) by simp
  have ns: "sint (reported_ns (us ! i)) = reported_us (us ! i) * 1000" if "i < ?n" for i
    using reported_ns_exact assms(4) that by simp
  define adjs where "adjs = map (adjustment_of ?pt) (filter (adjusts sy ?pt) ?ss)"
  obtain w1 where w1: "read_snapshots ring sy w = (Some (Inr ?ss), w1)" "dev_ok w1" "dev_tsfs w1 = dev_tsfs w"
    using read_snapshots_dev [OF assms(1,2)] by blast
  have fp: "find (\<lambda>s. sn_card_index s = sy_primary_index sy) ?ss = Some (?ss ! ?pi)"
    using find_primary [OF assms(1)] assms(3,5) by simp
  have ne: "?ss \<noteq> []" using n assms(5) by auto
  let ?st0 = "stats_default\<lparr>cards_read := word_of_nat (length ?ss)\<rparr>"
  have pos: "0 \<le> sint ?pt" "\<forall>s \<in> set ?ss. 0 \<le> sint (sn_tsf_ns s)"
    using ns [OF assms(5)] tsf ns n reported_us_nonneg by (auto simp: in_set_conv_nth)
  obtain st where st: "adjust_loop pr sy ?pt ?ss [] ?st0 = Some (adjs, st)" "cards_read st = word_of_nat (length ?ss)"
    "unat (adjustments_applied st) + unat (adjustments_skipped st) =
       length (filter (\<lambda>s. sn_card_index s \<noteq> sy_primary_index sy) ?ss)"
    using adjust_loop_ok [OF pos, of ?st0 pr sy "[]"] n by (auto simp: stats_default_def adjs_def)
  have one: "length (filter (\<lambda>s. sn_card_index s \<noteq> sy_primary_index sy) ?ss) + 1 = ?n"
  proof -
    have "{i. i < ?n \<and> sn_card_index (?ss ! i) \<noteq> sy_primary_index sy} = {..<?n} - {?pi}"
      using idx by (auto simp: word_unat_eq_iff)
    then show ?thesis using n assms(5) by (simp add: length_filter_conv_card)
  qed
  have idx_inj: "distinct (map sn_card_index ?ss)"
    using idx n by (auto simp: distinct_conv_nth) metis
  have dist: "distinct (map adj_card_index adjs)"
    using idx_inj by (simp add: adjs_def comp_def adjustment_of_def distinct_map_filter)
  have bnd: "\<forall>a \<in> set adjs. unat (adj_card_index a) < length (dev_tsfs w1)"
    using idx n w1(3) assms(3) by (auto simp: adjs_def adjustment_of_def in_set_conv_nth)
  let ?ts' = "map (\<lambda>u. if sint (sy_threshold_ns sy) < 1000 * \<bar>?p - reported_us u\<bar> then map_option (\<lambda>_. word_of_int ?p) u else u) us"
  have "\<exists>w'. sync_once pr ring sy w = (Some (Inr st), w') \<and> dev_ok w' \<and> dev_tsfs w' = ?ts'"
  proof -
    have ad: "adjusts sy ?pt (?ss ! i) \<longleftrightarrow> i \<noteq> ?pi \<and> sint (sy_threshold_ns sy) < 1000 * \<bar>?p - reported_us (us ! i)\<bar>"
      if i: "i < ?n" for i
    proof -
      have "sint ?pt - sint (sn_tsf_ns (?ss ! i)) = 1000 * (?p - reported_us (us ! i))"
        using ns [OF assms(5)] ns [OF i] tsf [OF i] by simp
      then show ?thesis using idx [OF i] by (auto simp: adjusts_def abs_scale word_unat_eq_iff)
    qed
    have "move_tsfs thr adjs (dev_tsfs w1) = ?ts'"
    proof (rule nth_equalityI)
      note mv = move_tsfs_distinct [OF dist bnd, of thr]
      show "length (move_tsfs thr adjs (dev_tsfs w1)) = length ?ts'" using mv w1(3) assms(3) by simp
      fix i assume "i < length (move_tsfs thr adjs (dev_tsfs w1))"
      then have i: "i < ?n" using mv w1(3) assms(3) by simp
      show "move_tsfs thr adjs (dev_tsfs w1) ! i = ?ts' ! i"
      proof (cases "adjusts sy ?pt (?ss ! i)")
        case True
        then have "adjustment_of ?pt (?ss ! i) \<in> set adjs" using i n by (auto simp: adjs_def)
        then have "move_tsfs thr adjs (dev_tsfs w1) ! i = moved thr (?pt - sn_tsf_ns (?ss ! i)) (us ! i)"
          using mv i idx [OF i] w1(3) assms(3) by (force simp: adjustment_of_def)
        moreover have "sint (?pt - sn_tsf_ns (?ss ! i)) = 1000 * (?p - reported_us (us ! i))"
          using abs_delta(3) [of ?pt "sn_tsf_ns (?ss ! i)"] pos(1) reported_us_nonneg [of "us ! i"]
            ns [OF assms(5)] ns [OF i] tsf [OF i] by simp
        moreover have big: "sint (sy_threshold_ns sy) < 1000 * \<bar>?p - reported_us (us ! i)\<bar>" using True ad [OF i] by simp
        ultimately show ?thesis
          using moved_exact [of "?pt - sn_tsf_ns (?ss ! i)" ?p "us ! i" thr] assms(6) i by simp
      next
        case False
        then have "i \<notin> (unat \<circ> adj_card_index) ` set adjs"
          using idx n i by (auto simp: adjs_def adjustment_of_def in_set_conv_nth)
        then have "move_tsfs thr adjs (dev_tsfs w1) ! i = us ! i"
          using mv i w1(3) assms(3) by simp
        moreover have "map_option (\<lambda>_. word_of_int (reported_us u)) u = u" for u
          by (cases u) (simp_all add: reported_us_def)
        ultimately show ?thesis using False ad [OF i] i by auto
      qed
    qed
    moreover have "\<exists>w'. sync_once pr ring sy w = (Some (Inr st), w') \<and> dev_ok w' \<and>
        dev_tsfs w' = move_tsfs thr adjs (dev_tsfs w1)"
    proof (cases "adjs = []")
      case True
      then show ?thesis
        using w1 ne fp st(1) tsf [OF assms(5)] by (simp add: sync_once_def Let_def)
    next
      case False
      obtain w2 where "ring_op ring (WriteSqe fd (concat (map adjustment_bytes adjs))) w1 = (Inr (int (12 * length adjs), []), w2)"
        "dev_ok w2" "dev_tsfs w2 = move_tsfs thr adjs (dev_tsfs w1)"
        using write_dev [OF w1(2) False bnd] by blast
      then show ?thesis
        using w1 ne fp st(1) tsf [OF assms(5)] False assms(2)
        by (simp add: sync_once_def Let_def write_adjustments_def)
    qed
    ultimately show ?thesis by simp
  qed
  then show ?thesis using st(2,3) one n by (auto simp: Let_def unat_of_nat take_bit_nat_eq_self)
qed

end

section \<open>The kernel behind a ring\<close>

text \<open>A ring that executes one request per submission on the kernel's character device.\<close>

record 'w kworld =
  kw_kernel :: kmod
  kw_hw :: 'w
  kw_pending :: "sqe option"
  kw_completion :: "(int \<times> u8 list) option"

definition kernel_exec :: "'w kapi \<Rightarrow> sqe \<Rightarrow> kmod \<Rightarrow> 'w \<Rightarrow> ((int \<times> u8 list) \<times> kmod \<times> 'w) option" where
  "kernel_exec api e k w =
     (case e of
        ReadSqe fd len \<Rightarrow>
          (case chardev_read api k len True w of
             (Inl e, w) \<Rightarrow> Some ((- e, []), k, w)
           | (Inr bs, w) \<Rightarrow> Some ((int (length bs), bs), k, w))
      | WriteSqe fd bs \<Rightarrow> map_option (\<lambda>(r, k, w). ((r, []), k, w)) (chardev_write api bs True k w))"

definition kernel_ring :: "'w kapi \<Rightarrow> 'w kworld uring" where
  "kernel_ring api = \<lparr>
     ring_push = (\<lambda>e w. case kw_pending w of None \<Rightarrow> (True, w\<lparr>kw_pending := Some e\<rparr>) | Some _ \<Rightarrow> (False, w)),
     ring_submit_and_wait = (\<lambda>w.
       case kw_pending w of
         None \<Rightarrow> (Inl (OsError 16), w)
       | Some e \<Rightarrow>
           (case kernel_exec api e (kw_kernel w) (kw_hw w) of
              None \<Rightarrow> (Inl (OsError 5), w\<lparr>kw_pending := None\<rparr>)
            | Some (c, k, hw) \<Rightarrow>
                (Inr (), w\<lparr>kw_kernel := k, kw_hw := hw, kw_pending := None, kw_completion := Some c\<rparr>))),
     ring_next = (\<lambda>w. (kw_completion w, w\<lparr>kw_completion := None\<rparr>))\<rparr>"

definition kernel_ok :: "nat \<Rightarrow> 'w kworld \<Rightarrow> bool" where
  "kernel_ok thr w \<longleftrightarrow> kw_pending w = None \<and> kw_completion w = None \<and>
     length (km_cards (kw_kernel w)) \<le> max_cards \<and> unat (km_threshold_ns (kw_kernel w)) = thr \<and>
     distinct (map cd_wiphy (km_cards (kw_kernel w))) \<and> list_all settable (km_cards (kw_kernel w))"

abbreviation kernel_tsfs :: "('w \<Rightarrow> nat \<Rightarrow> nat \<Rightarrow> u64) \<Rightarrow> kmod \<Rightarrow> 'w \<Rightarrow> u64 option list" where
  "kernel_tsfs tsf_at k w \<equiv> map (card_tsf tsf_at w) (km_cards k)"

lemma moved_threshold:
  "moved (unat thr) delta t =
     (if 0 < thr \<and> below_threshold thr delta then t else map_option (\<lambda>t. t + word_of_int (sint delta sdiv 1000)) t)"
  by (simp add: moved_def below_threshold_def unat_gt_0 word_neq_0_conv [symmetric])

text \<open>A driver under a kernel that does not run out of memory.\<close>

locale tsf_kernel = tsf_driver +
  assumes alloc: "ka_alloc api w"

context tsf_driver begin

lemma snapshot_card_correct:
  assumes "settable c"
  shows "\<exists>s w'. snapshot_card api i c w = (s, w') \<and> tsf_at w' = tsf_at w \<and> sn_card_index s = word_of_nat i \<and>
     sn_tsf_ns s = reported_ns (card_tsf tsf_at w c) \<and> length (sn_phy_name s) = 32"
proof (cases "cd_vif c")
  case None
  then show ?thesis by (simp add: snapshot_card_def card_tsf_def reported_ns_def Let_def)
next
  case (Some v)
  obtain w' where "call_get_tsf api c v w = (tsf_at w (cd_wiphy c) v, w')" "tsf_at w' = tsf_at w"
    using call_get [of c v w] assms unfolding settable_def by blast
  then show ?thesis using Some by (simp add: snapshot_card_def card_tsf_def reported_ns_def Let_def)
qed

lemma snapshot_cards_correct:
  assumes "list_all settable cs"
  shows "\<exists>ss w'. snapshot_cards api i cs w = (ss, w') \<and> tsf_at w' = tsf_at w \<and> length ss = length cs \<and>
     (\<forall>j < length cs. sn_card_index (ss ! j) = word_of_nat (i + j) \<and>
        sn_tsf_ns (ss ! j) = reported_ns (card_tsf tsf_at w (cs ! j)) \<and> length (sn_phy_name (ss ! j)) = 32)"
  using assms
proof (induction cs arbitrary: i w)
  case (Cons c cs)
  obtain s w1 where s: "snapshot_card api i c w = (s, w1)" "tsf_at w1 = tsf_at w" "sn_card_index s = word_of_nat i"
     "sn_tsf_ns s = reported_ns (card_tsf tsf_at w c)" "length (sn_phy_name s) = 32"
    using snapshot_card_correct [of c] Cons.prems by fastforce
  obtain ss w2 where "snapshot_cards api (i + 1) cs w1 = (ss, w2)" "tsf_at w2 = tsf_at w1" "length ss = length cs"
     "\<forall>j < length cs. sn_card_index (ss ! j) = word_of_nat (i + 1 + j) \<and>
        sn_tsf_ns (ss ! j) = reported_ns (card_tsf tsf_at w1 (cs ! j)) \<and> length (sn_phy_name (ss ! j)) = 32"
    using Cons.IH [of "i + 1" w1] Cons.prems by auto
  then show ?case using s card_tsf_cong [OF s(2)] by (auto simp: nth_Cons split: nat.split)
qed simp

lemma apply_adjustment_tsfs:
  assumes i: "unat (adj_card_index a) < length (km_cards k)"
    and cards: "distinct (map cd_wiphy (km_cards k))" "list_all settable (km_cards k)"
  shows "\<exists>k' w'. apply_adjustment api a k w = Some (k', w') \<and> km_threshold_ns k' = km_threshold_ns k \<and>
     km_cards k' = km_cards k \<and>
     kernel_tsfs tsf_at k w' = (kernel_tsfs tsf_at k w)[unat (adj_card_index a) :=
        moved (unat (km_threshold_ns k)) (adj_delta_ns a) (kernel_tsfs tsf_at k w ! unat (adj_card_index a))]"
proof -
  let ?i = "unat (adj_card_index a)" and ?delta = "adj_delta_ns a"
  let ?c = "km_cards k ! ?i"
  have id: "(kernel_tsfs tsf_at k w)[?i := card_tsf tsf_at w ?c] = kernel_tsfs tsf_at k w"
    using i list_update_id [of "kernel_tsfs tsf_at k w" ?i] by simp
  show ?thesis
  proof (cases "0 < km_threshold_ns k \<and> below_threshold (km_threshold_ns k) ?delta")
    case True
    then show ?thesis using i id by (simp add: apply_adjustment_def Let_def moved_threshold)
  next
    case False
    show ?thesis
    proof (cases "cd_vif ?c")
      case None
      then have "card_tsf tsf_at w ?c = None" by (simp add: card_tsf_def)
      then show ?thesis using False None i id
        by (simp add: apply_adjustment_def Let_def moved_threshold)
    next
      case (Some v)
      have lo: "lo_get_tsf (cd_local ?c)" "lo_set_tsf (cd_local ?c)"
        using cards(2) i by (simp_all add: list_all_length settable_def)
      let ?t = "tsf_at w (cd_wiphy ?c) v"
      obtain w1 where w1: "call_get_tsf api ?c v w = (?t, w1)" "tsf_at w1 = tsf_at w" using call_get [OF lo(1)] by blast
      let ?w' = "call_set_tsf api ?c v (?t + word_of_int (sint ?delta sdiv 1000)) w1"
      have "kernel_tsfs tsf_at k ?w' = (kernel_tsfs tsf_at k w)[?i := Some (?t + word_of_int (sint ?delta sdiv 1000))]"
      proof (rule nth_equalityI)
        fix j assume "j < length (kernel_tsfs tsf_at k ?w')"
        then have j: "j < length (km_cards k)" by simp
        show "kernel_tsfs tsf_at k ?w' ! j = (kernel_tsfs tsf_at k w)[?i := Some (?t + word_of_int (sint ?delta sdiv 1000))] ! j"
        proof (cases "j = ?i")
          case True
          then show ?thesis using card_tsf_set [OF lo(2) Some] i by simp
        next
          case ne: False
          then have "cd_wiphy (km_cards k ! j) \<noteq> cd_wiphy ?c" using cards(1) i j by (simp add: distinct_conv_nth)
          then show ?thesis using ne j card_tsf_set_other card_tsf_cong [OF w1(2)] by simp
        qed
      qed simp
      moreover have "card_tsf tsf_at w ?c = Some ?t" using Some by (simp add: card_tsf_def)
      moreover have skip: "(0 < km_threshold_ns k \<and> below_threshold (km_threshold_ns k) ?delta) = False" using False by (simp only: simp_thms)
      have "apply_adjustment api a k w = Some (k\<lparr>km_apply_count := km_apply_count k + 1\<rparr>, ?w')"
        unfolding apply_adjustment_def Let_def skip using Some w1(1) i by simp
      moreover have "moved (unat (km_threshold_ns k)) ?delta t = map_option (\<lambda>t. t + word_of_int (sint ?delta sdiv 1000)) t" for t
        unfolding moved_threshold skip by simp
      ultimately show ?thesis using i by simp
    qed
  qed
qed

lemma apply_adjustments_tsfs:
  assumes "\<forall>a \<in> set adjs. unat (adj_card_index a) < length (km_cards k)"
    "distinct (map cd_wiphy (km_cards k))" "list_all settable (km_cards k)"
  shows "\<exists>k' w'. apply_adjustments api adjs k w = Some (k', w') \<and> km_threshold_ns k' = km_threshold_ns k \<and>
     km_cards k' = km_cards k \<and>
     kernel_tsfs tsf_at k w' = move_tsfs (unat (km_threshold_ns k)) adjs (kernel_tsfs tsf_at k w)"
  using assms
proof (induction adjs arbitrary: k w)
  case (Cons a adjs)
  let ?i = "unat (adj_card_index a)"
  have i: "?i < length (km_cards k)" using Cons.prems by simp
  obtain k1 w1 where "apply_adjustment api a k w = Some (k1, w1)" "km_threshold_ns k1 = km_threshold_ns k"
      "km_cards k1 = km_cards k"
      "kernel_tsfs tsf_at k w1 = (kernel_tsfs tsf_at k w)[?i := moved (unat (km_threshold_ns k)) (adj_delta_ns a) (kernel_tsfs tsf_at k w ! ?i)]"
    using apply_adjustment_tsfs [OF i Cons.prems(2,3)] by blast
  then show ?case using Cons.IH [of k1 w1] Cons.prems by (auto simp: Let_def)
qed simp

end

context tsf_kernel begin

lemma chardev_write_adjustments:
  assumes "adjs \<noteq> []" "\<forall>a \<in> set adjs. unat (adj_card_index a) < length (km_cards k)"
    "distinct (map cd_wiphy (km_cards k))" "list_all settable (km_cards k)"
  shows "\<exists>k' w'. chardev_write api (concat (map adjustment_bytes adjs)) True k w = Some (int (12 * length adjs), k', w') \<and>
     km_threshold_ns k' = km_threshold_ns k \<and> km_cards k' = km_cards k \<and>
     kernel_tsfs tsf_at k w' = move_tsfs (unat (km_threshold_ns k)) adjs (kernel_tsfs tsf_at k w)"
proof -
  have len: "length (concat (map adjustment_bytes adjs)) = 12 * length adjs"
    by (induction adjs) simp_all
  have rec: "records 12 read_adjustment (length adjs) (concat (map adjustment_bytes adjs)) = adjs"
    using records_concat [where rest = "[]" and xs = adjs and enc = adjustment_bytes and k = 12 and rd = read_adjustment]
      read_adjustment_bytes [where rest = "[]"] by simp
  have "concat (map adjustment_bytes adjs) \<noteq> []" using len assms(1) by force
  moreover obtain k' w' where "apply_adjustments api adjs k w = Some (k', w')" "km_threshold_ns k' = km_threshold_ns k"
    "km_cards k' = km_cards k"
    "kernel_tsfs tsf_at k w' = move_tsfs (unat (km_threshold_ns k)) adjs (kernel_tsfs tsf_at k w)"
    using apply_adjustments_tsfs [OF assms(2-4)] by blast
  ultimately show ?thesis using assms(1) len rec alloc by (simp add: chardev_write_def Let_def)
qed

lemma chardev_read_snapshots:
  assumes "list_all settable (km_cards k)" "length (km_cards k) * snapshot_size \<le> n"
  shows "\<exists>ss w'. snapshot_cards api 0 (km_cards k) w = (ss, w') \<and> tsf_at w' = tsf_at w \<and>
     chardev_read api k n True w = (Inr (concat (map snapshot_bytes ss)), w')"
proof -
  obtain ss w' where ss: "snapshot_cards api 0 (km_cards k) w = (ss, w')" "tsf_at w' = tsf_at w"
    "length ss = length (km_cards k)" "\<forall>j < length (km_cards k). length (sn_phy_name (ss ! j)) = 32"
    using snapshot_cards_correct [OF assms(1), of 0 w] by blast
  then have "\<forall>s \<in> set ss. length (sn_phy_name s) = 32" by (metis in_set_conv_nth)
  then have "length (concat (map snapshot_bytes ss)) = 56 * length ss" by (rule length_concat_snapshots)
  then show ?thesis using ss assms(2) alloc by (auto simp: chardev_read_def Let_def)
qed

end

sublocale tsf_kernel \<subseteq> device: tsf_device "kernel_ring api" fd "\<lambda>w. kernel_tsfs tsf_at (kw_kernel w) (kw_hw w)"
   "\<lambda>w. fst (snapshot_cards api 0 (km_cards (kw_kernel w)) (kw_hw w))" thr "kernel_ok thr" for fd thr
proof (unfold_locales, goal_cases)
  case (1 w)
  then show ?case using snapshot_cards_correct [of "km_cards (kw_kernel w)" 0 "kw_hw w"] by (auto simp: kernel_ok_def)
next
  case (2 w i)
  then show ?case using snapshot_cards_correct [of "km_cards (kw_kernel w)" 0 "kw_hw w"] by (auto simp: kernel_ok_def)
next
  case (3 w)
  let ?cs = "km_cards (kw_kernel w)"
  have "list_all settable ?cs" "length ?cs * snapshot_size \<le> snapshot_size * max_cards" using 3 by (auto simp: kernel_ok_def)
  then obtain ss w' where r: "snapshot_cards api 0 ?cs (kw_hw w) = (ss, w')" "tsf_at w' = tsf_at (kw_hw w)"
    "chardev_read api (kw_kernel w) (snapshot_size * max_cards) True (kw_hw w) = (Inr (concat (map snapshot_bytes ss)), w')"
    using chardev_read_snapshots by blast
  from 3 r show ?case
    by (simp add: ring_op_def kernel_ring_def kernel_ok_def kernel_exec_def Let_def card_tsf_cong [OF r(2)])
next
  case (4 w adjs)
  then have "\<forall>a \<in> set adjs. unat (adj_card_index a) < length (km_cards (kw_kernel w))"
    "distinct (map cd_wiphy (km_cards (kw_kernel w)))" "list_all settable (km_cards (kw_kernel w))"
    by (simp_all add: kernel_ok_def)
  then obtain k' w' where r: "chardev_write api (concat (map adjustment_bytes adjs)) True (kw_kernel w) (kw_hw w) =
      (Some (int (12 * length adjs), k', w'))" "km_threshold_ns k' = km_threshold_ns (kw_kernel w)"
     "km_cards k' = km_cards (kw_kernel w)"
     "kernel_tsfs tsf_at (kw_kernel w) w' = move_tsfs (unat (km_threshold_ns (kw_kernel w))) adjs (kernel_tsfs tsf_at (kw_kernel w) (kw_hw w))"
    using chardev_write_adjustments [OF 4(2), of "kw_kernel w" "kw_hw w"] by blast
  from 4(1) r show ?case
    by (simp add: ring_op_def kernel_ring_def kernel_ok_def kernel_exec_def)
qed

context tsf_kernel begin

lemma device_contract:
  "tsf_device (kernel_ring api) fd (\<lambda>w. kernel_tsfs tsf_at (kw_kernel w) (kw_hw w))
     (\<lambda>w. fst (snapshot_cards api 0 (km_cards (kw_kernel w)) (kw_hw w))) thr (kernel_ok thr)"
  by (rule device.tsf_device_axioms)

end

interpretation radio: tsf_kernel "radio_api loc" ra_tsf
  by unfold_locales simp

section \<open>Properties\<close>

text \<open>The packed structures of the device survive the trip between the kernel and the tool: a snapshot encoded in 56 bytes and an adjustment encoded in 12 bytes are decoded to themselves, wherever they lie in a buffer of records.\<close>

theorem packed_records_roundtrip:
  assumes "\<forall>s \<in> set snaps. length (sn_phy_name s) = 32"
  shows "records snapshot_size read_snapshot (length snaps) (concat (map snapshot_bytes snaps) @ rest) = snaps \<and>
     records adjustment_size read_adjustment (length adjs) (concat (map adjustment_bytes adjs) @ rest) = adjs"
  using assms read_snapshot_bytes [where rest = "[]"] read_adjustment_bytes [where rest = "[]"]
  by (auto intro!: records_concat simp: length_snapshot_bytes)

theorem packed_records_roundtrip_witness:
  "records snapshot_size read_snapshot (length [fst (snapshot_card (radio_api Map.empty) 0 (radio_card 0 (Some 4)) \<lparr>ra_tsf = (\<lambda>p v. 77), ra_now = 5\<rparr>)])
       (concat (map snapshot_bytes [fst (snapshot_card (radio_api Map.empty) 0 (radio_card 0 (Some 4)) \<lparr>ra_tsf = (\<lambda>p v. 77), ra_now = 5\<rparr>)]) @ [1, 2])
     = [fst (snapshot_card (radio_api Map.empty) 0 (radio_card 0 (Some 4)) \<lparr>ra_tsf = (\<lambda>p v. 77), ra_now = 5\<rparr>)] \<and>
   records adjustment_size read_adjustment (length [\<lparr>adj_card_index = 3, adj_delta_ns = - 9\<rparr>])
       (concat (map adjustment_bytes [\<lparr>adj_card_index = 3, adj_delta_ns = - 9\<rparr>]) @ [1, 2])
     = [\<lparr>adj_card_index = 3, adj_delta_ns = - 9\<rparr>]"
  by (rule packed_records_roundtrip) (simp add: snapshot_card_def radio_card_def call_get_tsf_def Let_def)

text \<open>C7: one cycle of the io\_uring synchroniser over a device that keeps its contract and whose cards are all up moves every card whose offset exceeds the threshold of the daemon exactly onto the primary's TSF and leaves every other card alone; it never panics, reads all cards and counts each secondary either as applied or as skipped. The threshold of the module is at most one nanosecond above that of the daemon, and the TSFs in nanoseconds are below 2^63.\<close>

theorem sync_once_aligns:
  assumes "tsf_device ring fd dev_tsfs dev_snaps thr dev_ok" "dev_ok w" "sy_fd sy = fd"
    "dev_tsfs w = map Some ts" "\<forall>t \<in> set ts. uint t * 1000 < 2 ^ 63"
    "unat (sy_primary_index sy) < length ts" "int thr \<le> sint (sy_threshold_ns sy) + 1"
  shows "\<exists>st w'. sync_once pr ring sy w = (Some (Inr st), w') \<and>
     dev_tsfs w' = map (\<lambda>t. let p = ts ! unat (sy_primary_index sy)
        in Some (if sint (sy_threshold_ns sy) < 1000 * \<bar>uint p - uint t\<bar> then p else t)) ts \<and>
     unat (cards_read st) = length ts \<and>
     unat (adjustments_applied st) + unat (adjustments_skipped st) + 1 = length ts"
proof -
  have "\<forall>u \<in> set (map Some ts). reported_us u * 1000 < 2 ^ 63" using assms(5) by (simp add: reported_us_def)
  moreover have "unat (sy_primary_index sy) < length (map Some ts)" using assms(6) by simp
  ultimately obtain st w' where "sync_once pr ring sy w = (Some (Inr st), w')"
     "dev_tsfs w' = map (\<lambda>u. let p = reported_us (map Some ts ! unat (sy_primary_index sy))
        in if sint (sy_threshold_ns sy) < 1000 * \<bar>p - reported_us u\<bar> then map_option (\<lambda>_. word_of_int p) u else u) (map Some ts)"
     "unat (cards_read st) = length (map Some ts)"
     "unat (adjustments_applied st) + unat (adjustments_skipped st) + 1 = length (map Some ts)"
    using tsf_device.sync_once_aligns_dev [OF assms(1-4) _ _ assms(7), of pr] by blast
  then show ?thesis using assms(6) by (auto simp: reported_us_def Let_def)
qed

text \<open>Three cards, the first the primary; the second is 5 ms behind, the third 3 us ahead.\<close>

definition three_cards :: "nat option \<Rightarrow> radios kworld" where
  "three_cards primary_vif =
     \<lparr>kw_kernel = module_of [radio_card 0 primary_vif, radio_card 1 (Some 8), radio_card 2 (Some 9)],
      kw_hw = \<lparr>ra_tsf = (\<lambda>p v. if p = 0 then 1005000 else if p = 1 then 1000000 else 1005003), ra_now = 1\<rparr>,
      kw_pending = None, kw_completion = None\<rparr>"

theorem sync_once_aligns_witness:
  "\<exists>st w'. sync_once Debug (kernel_ring (radio_api Map.empty)) \<lparr>sy_fd = 3, sy_primary_index = 0, sy_threshold_ns = 5000\<rparr> (three_cards (Some 7))
       = (Some (Inr st), w') \<and>
     kernel_tsfs ra_tsf (kw_kernel w') (kw_hw w') = [Some 1005000, Some 1005000, Some 1005003] \<and>
     unat (cards_read st) = length [1005000 :: u64, 1000000, 1005003] \<and>
     unat (adjustments_applied st) + unat (adjustments_skipped st) + 1 = length [1005000 :: u64, 1000000, 1005003]"
  using sync_once_aligns [OF radio.device.tsf_device_axioms, of 5000 "three_cards (Some 7)"
      "\<lparr>sy_fd = 3, sy_primary_index = 0, sy_threshold_ns = 5000\<rparr>" 3 "[1005000, 1000000, 1005003]" Debug Map.empty]
  by (simp add: three_cards_def kernel_ok_def card_tsf_def)



end
