(* ===== verification/KernelModes.thy ===== *)
theory KernelModes
  imports KernelSync Chardev
begin

text \<open>
  Modes B and C on the same cards: the loop of the kernel (sync\_work\_fn of kernel/tsf\_ptp.c) and
  one cycle of the io\_uring synchroniser (iouring\_sync.rs) over the character device of the same
  module.
\<close>

text \<open>C9: With the same threshold and the same primary, a cycle of the kernel loop and a cycle of the
  io\_uring synchroniser leave the same TSFs on cards that are all up, except when a card that is not at the primary's
  TSF is exactly the threshold away from it: mode B sets such a card and mode C does not.\<close>

theorem modes_b_and_c_agree:
  assumes "tsf_kernel api tsf_at" "kernel_ok thr w" "sint (sy_threshold_ns sy) = int thr"
    "kernel_tsfs tsf_at (kw_kernel w) (kw_hw w) = map Some ts" "list_all tsf_in_range ts"
    "find_primary_locked (kw_kernel w) = Some (unat (sy_primary_index sy))"
    "sync_work_fn api (kw_kernel w) (kw_hw w) = (kb, hwb)" "sync_once pr (kernel_ring api) sy w = (r, wc)"
  shows "kernel_tsfs tsf_at kb hwb = kernel_tsfs tsf_at (kw_kernel wc) (kw_hw wc) \<longleftrightarrow>
     (\<forall>t \<in> set ts. 1000 * \<bar>uint (ts ! unat (sy_primary_index sy)) - uint t\<bar> = int thr \<longrightarrow>
        t = ts ! unat (sy_primary_index sy))"
proof -
  let ?k = "kw_kernel w" and ?i = "unat (sy_primary_index sy)"
  let ?p = "ts ! ?i"
  have drv: "tsf_driver api tsf_at" using assms(1) by (rule tsf_kernel.axioms(1))
  have len: "length ts = length (km_cards ?k)" using assms(4) by (metis length_map)
  then have i: "?i < length ts" using find_primary_in [OF assms(6)] by simp
  have cards: "distinct (map cd_wiphy (km_cards ?k))" "\<forall>c \<in> set (km_cards ?k). settable c"
    "unat (km_threshold_ns ?k) = thr"
    using assms(2) by (simp_all add: kernel_ok_def list_all_iff)
  have nth: "card_tsf tsf_at (kw_hw w) (km_cards ?k ! j) = Some (ts ! j)" if "j < length ts" for j
    using arg_cong [OF assms(4), of "\<lambda>xs. xs ! j"] that len by simp
  have range: "\<forall>c \<in> set (km_cards ?k). \<forall>t. card_tsf tsf_at (kw_hw w) c = Some t \<longrightarrow> tsf_in_range t"
    using nth assms(5) len by (auto simp: in_set_conv_nth list_all_length)
  have p: "card_tsf tsf_at (kw_hw w) (km_cards ?k ! ?i) = Some ?p" using nth [OF i] .
  have "kernel_tsfs tsf_at kb hwb = map (map_option (aligned (km_threshold_ns ?k) ?p)) (map (card_tsf tsf_at (kw_hw w)) (km_cards ?k))"
    using tsf_driver.sync_work_correct [OF drv cards(1,2) range assms(6) p assms(7)] by simp
  then have b: "kernel_tsfs tsf_at kb hwb = map (\<lambda>t. Some (aligned (km_threshold_ns ?k) ?p t)) ts"
    unfolding assms(4) by (simp add: comp_def)
  have small: "\<forall>t \<in> set ts. uint t * 1000 < 2 ^ 63" using assms(5) by (simp add: list_all_iff tsf_in_range_def)
  have "\<exists>st w'. sync_once pr (kernel_ring api) sy w = (Some (Inr st), w') \<and>
     kernel_tsfs tsf_at (kw_kernel w') (kw_hw w') =
       map (\<lambda>u. let p = reported_us (map Some ts ! ?i)
         in if sint (sy_threshold_ns sy) < 1000 * \<bar>p - reported_us u\<bar> then map_option (\<lambda>_. word_of_int p) u else u) (map Some ts)"
    using tsf_device.sync_once_aligns_dev [OF tsf_kernel.device_contract [OF assms(1)] assms(2) refl assms(4), of sy pr] small i assms(3)
    by (auto simp: reported_us_def)
  then have c: "kernel_tsfs tsf_at (kw_kernel wc) (kw_hw wc) = map (\<lambda>t. Some (if int thr < 1000 * \<bar>uint ?p - uint t\<bar> then ?p else t)) ts"
    using assms(3,8) i by (auto simp: reported_us_def comp_def)
  have "aligned (km_threshold_ns ?k) ?p t = (if int thr < 1000 * \<bar>uint ?p - uint t\<bar> then ?p else t) \<longleftrightarrow>
      (1000 * \<bar>uint ?p - uint t\<bar> = int thr \<longrightarrow> t = ?p)" for t
    using cards(3) by (auto simp: aligned_def)
  then show ?thesis unfolding b c by (simp add: list_eq_iff_nth_eq all_set_conv_all_nth)
qed

text \<open>Two cards that are 5 us apart, the default threshold.\<close>

definition boundary_cards :: "radios kworld" where
  "boundary_cards =
     \<lparr>kw_kernel = module_of [radio_card 0 (Some 7), radio_card 1 (Some 8)],
      kw_hw = \<lparr>ra_tsf = (\<lambda>p v. if p = 0 then 1005000 else 1005005), ra_now = 1\<rparr>,
      kw_pending = None, kw_completion = None\<rparr>"

theorem modes_b_and_c_agree_witness:
  "\<exists>kb hwb r wc. sync_work_fn (radio_api Map.empty) (kw_kernel boundary_cards) (kw_hw boundary_cards) = (kb, hwb) \<and>
     sync_once Debug (kernel_ring (radio_api Map.empty)) \<lparr>sy_fd = 3, sy_primary_index = 0, sy_threshold_ns = 5000\<rparr> boundary_cards = (r, wc) \<and>
     kernel_tsfs ra_tsf kb hwb \<noteq> kernel_tsfs ra_tsf (kw_kernel wc) (kw_hw wc)"
proof -
  let ?api = "radio_api Map.empty" and ?sy = "\<lparr>sy_fd = 3, sy_primary_index = 0, sy_threshold_ns = 5000\<rparr>"
  obtain kb hwb where b: "sync_work_fn ?api (kw_kernel boundary_cards) (kw_hw boundary_cards) = (kb, hwb)" by (metis prod.collapse)
  obtain r wc where c: "sync_once Debug (kernel_ring ?api) ?sy boundary_cards = (r, wc)" by (metis prod.collapse)
  have "kernel_tsfs ra_tsf kb hwb \<noteq> kernel_tsfs ra_tsf (kw_kernel wc) (kw_hw wc)"
    using modes_b_and_c_agree [OF radio.tsf_kernel_axioms _ _ _ _ _ b c, of 5000 "[1005000, 1005005]"]
    by (simp add: boundary_cards_def kernel_ok_def card_tsf_def tsf_in_range_def find_primary_locked_def)
  with b c show ?thesis by (intro exI [of _ kb] exI [of _ hwb] exI [of _ r] exI [of _ wc] conjI)
qed

end
