(* ===== verification/KernelNet.thy ===== *)
theory KernelNet
  imports KernelSync Chardev
begin

text \<open>
  The life of the cards of the kernel module (src/kernel/tsf\_ptp.c): probing and removal, the
  notifier of net devices, loading and unloading; and the lemmas that each event keeps the cards in
  step with the net devices.
\<close>

section \<open>Probing and removal\<close>

text \<open>A net device; \<open>nd_wiphy\<close> is \<open>None\<close> for one that is not wireless.\<close>

record net_device =
  nd_id :: nat
  nd_wiphy :: "nat option"
  nd_up :: bool

datatype netdev_event = NetdevRegister | NetdevUp | NetdevDown | NetdevUnregister | NetdevOther

definition find_card_by_wiphy :: "nat \<Rightarrow> kmod \<Rightarrow> nat option" where
  "find_card_by_wiphy p k = find_index (\<lambda>c. cd_wiphy c = p) (km_cards k)"

definition new_card :: "nat \<Rightarrow> ieee80211_local \<Rightarrow> tsf_card" where
  "new_card p lo =
     \<lparr>cd_wiphy = p, cd_local = lo, cd_vif = None, cd_phy_name = take 31 (lo_name lo),
      cd_settime = lo_set_tsf lo, cd_last_offset_ns = 0, cd_sync_count = 0, cd_sync_error_count = 0\<rparr>"

text \<open>The error of a failed registration is read from the structure that was freed just before.\<close>

definition tsf_ptp_probe :: "'w kapi \<Rightarrow> nat \<Rightarrow> ieee80211_local \<Rightarrow> kmod \<Rightarrow> 'w \<Rightarrow> int \<times> kmod \<times> 'w" where
  "tsf_ptp_probe api p lo k w =
     (if \<not> lo_get_tsf lo then (- 95, k, w)
      else if find_card_by_wiphy p k \<noteq> None then (- 17, k, w)
      else if \<not> ka_alloc api w then (- 12, k, w)
      else let (ret, w) = ka_ptp_register api p w
           in if ret < 0 then (ka_freed_read api w, k, w)
              else (0, k\<lparr>km_clocks := km_clocks k @ [p], km_cards := km_cards k @ [new_card p lo]\<rparr>, w))"

definition tsf_ptp_remove :: "tsf_card \<Rightarrow> kmod \<Rightarrow> kmod" where
  "tsf_ptp_remove c k = k\<lparr>km_clocks := remove1 (cd_wiphy c) (km_clocks k)\<rparr>"

definition try_hotplug_probe :: "'w kapi \<Rightarrow> nat \<Rightarrow> kmod \<Rightarrow> 'w \<Rightarrow> kmod \<times> 'w" where
  "try_hotplug_probe api p k w =
     (if find_card_by_wiphy p k \<noteq> None then (k, w)
      else case ka_local api p of None \<Rightarrow> (k, w) | Some lo \<Rightarrow> snd (tsf_ptp_probe api p lo k w))"

definition try_hotplug_remove :: "net_device list \<Rightarrow> nat \<Rightarrow> kmod \<Rightarrow> kmod" where
  "try_hotplug_remove devs p k =
     (if list_ex (\<lambda>d. nd_wiphy d = Some p) devs then k
      else case find_card_by_wiphy p k of
             None \<Rightarrow> k
           | Some i \<Rightarrow>
               tsf_ptp_remove (km_cards k ! i) (k\<lparr>km_cards := take i (km_cards k) @ drop (i + 1) (km_cards k)\<rparr>))"

section \<open>The notifier\<close>

definition capture_vif :: "nat \<Rightarrow> nat \<Rightarrow> kmod \<Rightarrow> kmod" where
  "capture_vif p vif k =
     (case find_card_by_wiphy p k of
        None \<Rightarrow> k
      | Some i \<Rightarrow>
          (if cd_vif (km_cards k ! i) = None
           then k\<lparr>km_cards := (km_cards k)[i := (km_cards k ! i)\<lparr>cd_vif := Some vif\<rparr>]\<rparr> else k))"

definition release_vif :: "nat \<Rightarrow> nat \<Rightarrow> kmod \<Rightarrow> kmod" where
  "release_vif p vif k =
     (case find_card_by_wiphy p k of
        None \<Rightarrow> k
      | Some i \<Rightarrow>
          (if cd_vif (km_cards k ! i) = Some vif
           then k\<lparr>km_cards := (km_cards k)[i := (km_cards k ! i)\<lparr>cd_vif := None\<rparr>]\<rparr> else k))"

text \<open>\<open>devs\<close> is the list of net devices that for\_each\_netdev goes through.\<close>

definition tsf_ptp_netdev_event ::
    "'w kapi \<Rightarrow> net_device list \<Rightarrow> netdev_event \<Rightarrow> net_device \<Rightarrow> kmod \<Rightarrow> 'w \<Rightarrow> kmod \<times> 'w" where
  "tsf_ptp_netdev_event api devs ev d k w =
     (case nd_wiphy d of
        None \<Rightarrow> (k, w)
      | Some p \<Rightarrow>
          (case ev of
             NetdevRegister \<Rightarrow> try_hotplug_probe api p k w
           | NetdevUp \<Rightarrow> (capture_vif p (nd_id d) k, w)
           | NetdevDown \<Rightarrow> (release_vif p (nd_id d) k, w)
           | NetdevUnregister \<Rightarrow> (try_hotplug_remove devs p (release_vif p (nd_id d) k), w)
           | NetdevOther \<Rightarrow> (k, w)))"

fun netdev_events ::
    "'w kapi \<Rightarrow> net_device list \<Rightarrow> (netdev_event \<times> net_device) list \<Rightarrow> kmod \<Rightarrow> 'w \<Rightarrow> kmod \<times> 'w" where
  "netdev_events api devs [] k w = (k, w)"
| "netdev_events api devs ((ev, d) # evs) k w =
     (let (k, w) = tsf_ptp_netdev_event api devs ev d k w in netdev_events api devs evs k w)"

section \<open>Loading and unloading\<close>

fun discover_from_netdevs :: "'w kapi \<Rightarrow> net_device list \<Rightarrow> kmod \<Rightarrow> 'w \<Rightarrow> nat \<times> kmod \<times> 'w" where
  "discover_from_netdevs api [] k w = (0, k, w)"
| "discover_from_netdevs api (d # devs) k w =
     (case (nd_wiphy d, Option.bind (nd_wiphy d) (ka_local api)) of
        (Some p, Some lo) \<Rightarrow>
          (let (ret, k, w) = tsf_ptp_probe api p lo k w;
               (count, k, w) = discover_from_netdevs api devs k w
           in (if ret = 0 then count + 1 else count, k, w))
      | _ \<Rightarrow> discover_from_netdevs api devs k w)"

fun scan_existing_vifs :: "net_device list \<Rightarrow> kmod \<Rightarrow> kmod" where
  "scan_existing_vifs [] k = k"
| "scan_existing_vifs (d # devs) k =
     scan_existing_vifs devs
       (case nd_wiphy d of None \<Rightarrow> k | Some p \<Rightarrow> if nd_up d then capture_vif p (nd_id d) k else k)"

definition chardev_register :: "'w kapi \<Rightarrow> kmod \<Rightarrow> 'w \<Rightarrow> int \<times> kmod \<times> 'w" where
  "chardev_register api k w =
     (let (ret, w) = ka_misc_register api w
      in if ret \<noteq> 0 then (ret, k, w) else (0, k\<lparr>km_misc := True, km_chardev_registered := True\<rparr>, w))"

definition chardev_unregister :: "kmod \<Rightarrow> kmod" where
  "chardev_unregister k =
     (if km_chardev_registered k then k\<lparr>km_misc := False, km_chardev_registered := False\<rparr> else k)"

text \<open>
  \<open>replay\<close> holds the events that register\_netdevice\_notifier and unregister\_netdevice\_notifier
  themselves pass to the notifier.  The number is the count of clocks that is logged.
\<close>

definition tsf_ptp_init ::
    "'w kapi \<Rightarrow> (netdev_event \<times> net_device) list \<Rightarrow> net_device list \<Rightarrow> kmod \<Rightarrow> 'w \<Rightarrow> nat \<times> kmod \<times> 'w" where
  "tsf_ptp_init api replay devs k w =
     (let (k, w) = netdev_events api devs replay (k\<lparr>km_notifier := True\<rparr>) w;
          (count, k, w) = discover_from_netdevs api devs k w;
          k = scan_existing_vifs devs k
      in if km_sync_mode k = 1 then (count, sync_start_kernel k, w)
         else if km_sync_mode k = 2 then (count, snd (chardev_register api k w))
         else (count, k, w))"

fun remove_cards :: "tsf_card list \<Rightarrow> kmod \<Rightarrow> kmod" where
  "remove_cards [] k = k"
| "remove_cards (c # cs) k = remove_cards cs (tsf_ptp_remove c (k\<lparr>km_cards := cs\<rparr>))"

definition tsf_ptp_exit ::
    "'w kapi \<Rightarrow> (netdev_event \<times> net_device) list \<Rightarrow> net_device list \<Rightarrow> kmod \<Rightarrow> 'w \<Rightarrow> kmod \<times> 'w" where
  "tsf_ptp_exit api replay devs k w =
     (let k = (if km_sync_mode k = 1 then sync_stop_kernel k
               else if km_sync_mode k = 2 then chardev_unregister k else k);
          (k, w) = netdev_events api devs replay (k\<lparr>km_notifier := False\<rparr>) w
      in (remove_cards (km_cards k) k, w))"

section \<open>The cards and the net devices\<close>

text \<open>
  A card stands for a wiphy that has a net device, and its interface is a device of the wiphy that
  is up; there is one card, and one clock, for a wiphy.
\<close>

definition card_ok :: "'w kapi \<Rightarrow> net_device list \<Rightarrow> tsf_card \<Rightarrow> bool" where
  "card_ok api devs c \<longleftrightarrow>
     lo_get_tsf (cd_local c) \<and> ka_local api (cd_wiphy c) = Some (cd_local c) \<and>
     list_ex (\<lambda>d. nd_wiphy d = Some (cd_wiphy c)) devs \<and>
     (case cd_vif c of
        None \<Rightarrow> True
      | Some v \<Rightarrow> list_ex (\<lambda>d. nd_id d = v \<and> nd_up d \<and> nd_wiphy d = Some (cd_wiphy c)) devs)"

definition cards_ok :: "'w kapi \<Rightarrow> net_device list \<Rightarrow> kmod \<Rightarrow> bool" where
  "cards_ok api devs k \<longleftrightarrow>
     distinct (map nd_id devs) \<and> distinct (map cd_wiphy (km_cards k)) \<and>
     km_clocks k = map cd_wiphy (km_cards k) \<and> list_all (card_ok api devs) (km_cards k)"

lemma find_card_Some:
  "find_card_by_wiphy p k = Some i \<Longrightarrow> i < length (km_cards k) \<and> cd_wiphy (km_cards k ! i) = p"
  unfolding find_card_by_wiphy_def by (rule find_index_Some)

lemma find_card_None: "find_card_by_wiphy p k = None \<longleftrightarrow> p \<notin> cd_wiphy ` set (km_cards k)"
  by (auto simp: find_card_by_wiphy_def find_index_None)

lemma map_wiphy_update:
  "i < length cs \<Longrightarrow> cd_wiphy c = cd_wiphy (cs ! i) \<Longrightarrow> map cd_wiphy (cs[i := c]) = map cd_wiphy cs"
  by (simp add: map_update list_update_same_conv)

lemma cards_ok_update:
  assumes "cards_ok api devs k" "i < length (km_cards k)" "card_ok api devs c" "cd_wiphy c = cd_wiphy (km_cards k ! i)"
  shows "cards_ok api devs (k\<lparr>km_cards := (km_cards k)[i := c]\<rparr>)"
proof -
  have "map cd_wiphy ((km_cards k)[i := c]) = map cd_wiphy (km_cards k)"
    using assms(2,4) by (rule map_wiphy_update)
  then show ?thesis using assms set_update_subset_insert [of "km_cards k" i c]
    by (auto simp: cards_ok_def list_all_iff)
qed

lemma cards_ok_nth: "cards_ok api devs k \<Longrightarrow> i < length (km_cards k) \<Longrightarrow> card_ok api devs (km_cards k ! i)"
  by (simp add: cards_ok_def list_all_length)

text \<open>The device that a card uses.\<close>

lemma vif_device:
  assumes "cards_ok api devs k" "i < length (km_cards k)" "d \<in> set devs" "cd_vif (km_cards k ! i) = Some (nd_id d)"
  shows "nd_up d \<and> nd_wiphy d = Some (cd_wiphy (km_cards k ! i))"
proof -
  obtain e where e: "e \<in> set devs" "nd_id e = nd_id d" "nd_up e" "nd_wiphy e = Some (cd_wiphy (km_cards k ! i))"
    using cards_ok_nth [OF assms(1,2)] assms(4) by (auto simp: card_ok_def list_ex_iff)
  have "inj_on nd_id (set devs)" using assms(1) by (simp add: cards_ok_def distinct_map)
  from inj_onD [OF this e(2,1) assms(3)] show ?thesis using e by simp
qed

lemma capture_vif_ok:
  assumes "cards_ok api devs k" "d \<in> set devs" "nd_wiphy d = Some p" "nd_up d"
  shows "cards_ok api devs (capture_vif p (nd_id d) k)"
proof (cases "find_card_by_wiphy p k")
  case (Some i)
  note i = find_card_Some [OF Some]
  have "card_ok api devs ((km_cards k ! i)\<lparr>cd_vif := Some (nd_id d)\<rparr>)"
    using cards_ok_nth [OF assms(1), of i] i assms(2-4) by (auto simp: card_ok_def list_ex_iff)
  then show ?thesis using Some assms(1) i cards_ok_update [OF assms(1)] by (simp add: capture_vif_def)
qed (use assms(1) in \<open>simp add: capture_vif_def\<close>)

lemma release_vif_ok:
  assumes "cards_ok api devs k"
  shows "cards_ok api devs (release_vif p v k)"
proof (cases "find_card_by_wiphy p k")
  case (Some i)
  note i = find_card_Some [OF Some]
  have "card_ok api devs ((km_cards k ! i)\<lparr>cd_vif := None\<rparr>)"
    using cards_ok_nth [OF assms, of i] i by (simp add: card_ok_def)
  then show ?thesis using Some assms i cards_ok_update [OF assms] by (simp add: release_vif_def)
qed (use assms in \<open>simp add: release_vif_def\<close>)

lemma probe_ok:
  assumes "cards_ok api devs k" "ka_local api p = Some lo" "list_ex (\<lambda>d. nd_wiphy d = Some p) devs"
  shows "cards_ok api devs (fst (snd (tsf_ptp_probe api p lo k w)))"
  using assms
  by (auto simp: tsf_ptp_probe_def Let_def cards_ok_def find_card_None card_ok_def new_card_def split: prod.split)

text \<open>A device that no card uses can change or go.\<close>

lemma no_user_after_release:
  assumes "cards_ok api devs k" "d \<in> set devs" "nd_wiphy d = Some p" "c \<in> set (km_cards (release_vif p (nd_id d) k))"
  shows "cd_vif c \<noteq> Some (nd_id d)"
proof
  assume v: "cd_vif c = Some (nd_id d)"
  let ?cs = "km_cards (release_vif p (nd_id d) k)"
  have ok: "cards_ok api devs (release_vif p (nd_id d) k)" using assms(1) by (rule release_vif_ok)
  obtain j where j: "j < length ?cs" "?cs ! j = c" using assms(4) by (auto simp: in_set_conv_nth)
  have p: "cd_wiphy c = p" using vif_device [OF ok j(1) assms(2)] v j(2) assms(3) by simp
  show False
  proof (cases "find_card_by_wiphy p k")
    case None
    then have "km_cards (release_vif p (nd_id d) k) = km_cards k" by (simp add: release_vif_def)
    then show False using None assms(4) p by (auto simp: find_card_None)
  next
    case (Some i)
    note i = find_card_Some [OF Some]
    have len: "length ?cs = length (km_cards k)" and nth: "cd_vif (?cs ! i) \<noteq> Some (nd_id d)" "cd_wiphy (?cs ! i) = p"
      using Some i by (auto simp: release_vif_def)
    have "distinct (map cd_wiphy ?cs)" using ok by (simp add: cards_ok_def)
    moreover have "map cd_wiphy ?cs ! j = map cd_wiphy ?cs ! i" using j i nth(2) p len by simp
    ultimately have "j = i" using j(1) i len by (metis length_map nth_eq_iff_index_eq)
    then show False using v nth(1) j by simp
  qed
qed

lemma card_ok_mono:
  assumes "card_ok api devs c"
    "\<And>d. d \<in> set devs \<Longrightarrow> nd_wiphy d = Some (cd_wiphy c) \<Longrightarrow>
       (\<exists>e \<in> set devs'. nd_wiphy e = Some (cd_wiphy c)) \<and>
       (cd_vif c = Some (nd_id d) \<longrightarrow> nd_up d \<longrightarrow> (\<exists>e \<in> set devs'. nd_id e = nd_id d \<and> nd_up e \<and> nd_wiphy e = nd_wiphy d))"
  shows "card_ok api devs' c"
  using assms by (fastforce simp: card_ok_def list_ex_iff split: option.splits)

lemma cards_ok_mono:
  assumes "cards_ok api devs k" "distinct (map nd_id devs')"
    "\<And>c d. c \<in> set (km_cards k) \<Longrightarrow> d \<in> set devs \<Longrightarrow> nd_wiphy d = Some (cd_wiphy c) \<Longrightarrow>
       (\<exists>e \<in> set devs'. nd_wiphy e = Some (cd_wiphy c)) \<and>
       (cd_vif c = Some (nd_id d) \<longrightarrow> nd_up d \<longrightarrow> (\<exists>e \<in> set devs'. nd_id e = nd_id d \<and> nd_up e \<and> nd_wiphy e = nd_wiphy d))"
  shows "cards_ok api devs' k"
  using assms card_ok_mono by (fastforce simp: cards_ok_def list_all_iff)

section \<open>Events keep the cards\<close>

lemma register_event_ok:
  assumes "cards_ok api devs k" "d \<in> set devs"
  shows "cards_ok api devs (fst (tsf_ptp_netdev_event api devs NetdevRegister d k w))"
proof (cases "nd_wiphy d")
  case (Some p)
  then have "list_ex (\<lambda>d. nd_wiphy d = Some p) devs" using assms(2) by (auto simp: list_ex_iff)
  then show ?thesis using Some assms(1) probe_ok [OF assms(1)]
    by (simp add: tsf_ptp_netdev_event_def try_hotplug_probe_def split: option.split)
qed (use assms(1) in \<open>simp add: tsf_ptp_netdev_event_def\<close>)

lemma up_event_ok:
  assumes "cards_ok api devs k" "d \<in> set devs" "nd_up d"
  shows "cards_ok api devs (fst (tsf_ptp_netdev_event api devs NetdevUp d k w))"
  using assms capture_vif_ok [OF assms(1,2)] by (simp add: tsf_ptp_netdev_event_def split: option.split)

lemma register_step_ok:
  assumes "cards_ok api devs k" "nd_id d \<notin> nd_id ` set devs"
  shows "cards_ok api (devs @ [d]) (fst (tsf_ptp_netdev_event api (devs @ [d]) NetdevRegister d k w))"
proof (rule register_event_ok)
  show "cards_ok api (devs @ [d]) k"
    using assms by (intro cards_ok_mono [OF assms(1)]) (auto simp: cards_ok_def)
qed simp

lemma up_step_ok:
  assumes "cards_ok api (ds @ d # es) k"
  shows "cards_ok api (ds @ d\<lparr>nd_up := True\<rparr> # es)
    (fst (tsf_ptp_netdev_event api (ds @ d\<lparr>nd_up := True\<rparr> # es) NetdevUp (d\<lparr>nd_up := True\<rparr>) k w))"
proof (rule up_event_ok)
  show "cards_ok api (ds @ d\<lparr>nd_up := True\<rparr> # es) k"
    using assms by (intro cards_ok_mono [OF assms]) (auto simp: cards_ok_def)
qed simp_all

lemma down_step_ok:
  assumes "cards_ok api (ds @ d # es) k"
  shows "cards_ok api (ds @ d\<lparr>nd_up := False\<rparr> # es)
    (fst (tsf_ptp_netdev_event api devs NetdevDown (d\<lparr>nd_up := False\<rparr>) k w))"
proof -
  let ?devs = "ds @ d # es" and ?devs' = "ds @ d\<lparr>nd_up := False\<rparr> # es"
  let ?k = "fst (tsf_ptp_netdev_event api devs NetdevDown (d\<lparr>nd_up := False\<rparr>) k w)"
  have dist: "distinct (map nd_id ?devs')" using assms by (simp add: cards_ok_def)
  have ok: "cards_ok api ?devs ?k"
    using assms release_vif_ok [OF assms] by (cases "nd_wiphy d") (simp_all add: tsf_ptp_netdev_event_def)
  have free: "cd_vif c \<noteq> Some (nd_id d)" if "c \<in> set (km_cards ?k)" "nd_wiphy d = Some (cd_wiphy c)" for c
    using no_user_after_release [OF assms _ that(2)] that by (simp add: tsf_ptp_netdev_event_def)
  show ?thesis
    by (rule cards_ok_mono [OF ok dist]) (use free in auto)
qed

lemma remove1_nth: "distinct xs \<Longrightarrow> i < length xs \<Longrightarrow> remove1 (xs ! i) xs = take i xs @ drop (Suc i) xs"
proof -
  assume xs: "distinct xs" "i < length xs"
  then have "xs = take i xs @ xs ! i # drop (Suc i) xs" by (simp add: id_take_nth_drop)
  moreover from this xs(1) have "xs ! i \<notin> set (take i xs)" by (metis disjoint_insert(2) distinct_append list.set(2))
  ultimately show ?thesis by (metis remove1.simps(2) remove1_append)
qed

lemma hotplug_remove_ok:
  assumes "cards_ok api (ds @ d # es) k" "nd_wiphy d = Some p" "\<forall>c \<in> set (km_cards k). cd_vif c \<noteq> Some (nd_id d)"
  shows "cards_ok api (ds @ es) (try_hotplug_remove (ds @ es) p k)"
proof -
  let ?devs = "ds @ d # es" and ?devs' = "ds @ es"
  have dist: "distinct (map nd_id ?devs')" using assms(1) by (auto simp: cards_ok_def)
  show ?thesis
  proof (cases "list_ex (\<lambda>d. nd_wiphy d = Some p) ?devs'")
    case True
    then have "cards_ok api ?devs' k"
      using assms(2,3) by (intro cards_ok_mono [OF assms(1) dist]) (auto simp: list_ex_iff)
    then show ?thesis using True by (simp add: try_hotplug_remove_def)
  next
    case False
    have keep: "card_ok api ?devs' c" if "c \<in> set (km_cards k)" "cd_wiphy c \<noteq> p" for c
    proof (rule card_ok_mono)
      show "card_ok api ?devs c" using assms(1) that(1) by (simp add: cards_ok_def list_all_iff)
    qed (use assms(2,3) that in auto)
    show ?thesis
    proof (cases "find_card_by_wiphy p k")
      case None
      then have "\<forall>c \<in> set (km_cards k). cd_wiphy c \<noteq> p" by (auto simp: find_card_None)
      then show ?thesis using None False dist keep assms(1) by (simp add: try_hotplug_remove_def cards_ok_def list_all_iff)
    next
      case (Some i)
      note i = find_card_Some [OF Some]
      let ?cs = "take i (km_cards k) @ drop (Suc i) (km_cards k)"
      have d: "distinct (map cd_wiphy (km_cards k))" using assms(1) by (simp add: cards_ok_def)
      then have rm: "remove1 p (map cd_wiphy (km_cards k)) = map cd_wiphy ?cs"
        using remove1_nth [OF d, of i] i by (simp add: take_map drop_map)
      then have dp: "distinct (map cd_wiphy ?cs)" "p \<notin> set (map cd_wiphy ?cs)"
        using d by (metis distinct_remove1, metis distinct_remove1 rm set_remove1_eq Diff_iff insertI1 singletonI)
      have "card_ok api ?devs' c" if c: "c \<in> set ?cs" for c
      proof (rule keep)
        show "c \<in> set (km_cards k)" using c by (auto dest: in_set_takeD in_set_dropD)
        show "cd_wiphy c \<noteq> p" using c dp(2) by (auto simp: image_iff)
      qed
      then show ?thesis using Some False dist rm dp i assms(1)
        by (simp add: try_hotplug_remove_def tsf_ptp_remove_def cards_ok_def list_all_iff)
    qed
  qed
qed

lemma unregister_step_ok:
  assumes "cards_ok api (ds @ d # es) k"
  shows "cards_ok api (ds @ es) (fst (tsf_ptp_netdev_event api (ds @ es) NetdevUnregister d k w))"
proof (cases "nd_wiphy d")
  case None
  have "distinct (map nd_id (ds @ es))" using assms by (auto simp: cards_ok_def)
  then have "cards_ok api (ds @ es) k"
    by (rule cards_ok_mono [OF assms]) (use None in auto)
  then show ?thesis using None by (simp add: tsf_ptp_netdev_event_def)
next
  case (Some p)
  have "\<forall>c \<in> set (km_cards (release_vif p (nd_id d) k)). cd_vif c \<noteq> Some (nd_id d)"
    using no_user_after_release [OF assms _ Some] by simp
  then show ?thesis using hotplug_remove_ok [OF release_vif_ok [OF assms] Some] Some
    by (simp add: tsf_ptp_netdev_event_def)
qed

section \<open>Example devices\<close>

text \<open>A machine whose wiphys all have both operations.\<close>

abbreviation wifi_api :: "radios kapi" where
  "wifi_api \<equiv> radio_api (\<lambda>p. Some (cd_local (radio_card p None)))"

definition wlan :: "nat \<Rightarrow> nat \<Rightarrow> bool \<Rightarrow> net_device" where
  "wlan i p up = \<lparr>nd_id = i, nd_wiphy = Some p, nd_up = up\<rparr>"

lemma wlan_simps [simp]: "nd_id (wlan i p up) = i" "nd_wiphy (wlan i p up) = Some p" "nd_up (wlan i p up) = up"
  by (simp_all add: wlan_def)

lemma radio_card_new: "new_card p (cd_local (radio_card p None)) = radio_card p None"
  by (simp add: new_card_def radio_card_def)

end
