(* ===== verification/KernelModule.thy ===== *)
theory KernelModule
  imports KernelNet
begin

text \<open>
  The loaded kernel module as a step relation: net devices come, go up, go down and go, the kernel
  loop runs, the device and the clocks are used and the parameters are written, in any order.  Its
  invariants, and what unloading leaves behind.
\<close>

section \<open>The loaded module\<close>

text \<open>The state of the step relation: the net devices, the module, the drivers.\<close>

type_synonym 'w kstate = "net_device list \<times> kmod \<times> 'w"

inductive module_step :: "'w kapi \<Rightarrow> 'w kstate \<Rightarrow> 'w kstate \<Rightarrow> bool" for api where
  Register: "nd_id d \<notin> nd_id ` set devs \<Longrightarrow> \<not> nd_up d \<Longrightarrow>
    module_step api (devs, k, w) (devs @ [d], tsf_ptp_netdev_event api (devs @ [d]) NetdevRegister d k w)"
| Up: "d' = d\<lparr>nd_up := True\<rparr> \<Longrightarrow> \<not> nd_up d \<Longrightarrow>
    module_step api (ds @ d # es, k, w) (ds @ d' # es, tsf_ptp_netdev_event api (ds @ d' # es) NetdevUp d' k w)"
| Down: "d' = d\<lparr>nd_up := False\<rparr> \<Longrightarrow> nd_up d \<Longrightarrow>
    module_step api (ds @ d # es, k, w) (ds @ d' # es, tsf_ptp_netdev_event api (ds @ d' # es) NetdevDown d' k w)"
| Unregister: "\<not> nd_up d \<Longrightarrow>
    module_step api (ds @ d # es, k, w) (ds @ es, tsf_ptp_netdev_event api (ds @ es) NetdevUnregister d k w)"
| Work: "module_step api (devs, k, w) (devs, run_sync_work api k w)"
| Read: "chardev_read api k count ok w = (r, w') \<Longrightarrow> module_step api (devs, k, w) (devs, k, w')"
| Write: "chardev_write api buf ok k w = Some (r, k', w') \<Longrightarrow> module_step api (devs, k, w) (devs, k', w')"
| Gettime: "c \<in> set (km_cards k) \<Longrightarrow> ptp_gettime api c w = (r, w') \<Longrightarrow> module_step api (devs, k, w) (devs, k, w')"
| Crosststamp: "c \<in> set (km_cards k) \<Longrightarrow> ptp_getcrosststamp api c w = (rc, w') \<Longrightarrow> module_step api (devs, k, w) (devs, k, w')"
| Settime: "c \<in> set (km_cards k) \<Longrightarrow> cd_settime c \<Longrightarrow> ptp_settime api c ts w = (rs, w') \<Longrightarrow>
    module_step api (devs, k, w) (devs, k, w')"
| Adjtime: "c \<in> set (km_cards k) \<Longrightarrow> cd_settime c \<Longrightarrow> ptp_adjtime api c delta k w = (rs, k', w') \<Longrightarrow>
    module_step api (devs, k, w) (devs, k', w')"
| Parameter: "module_step api (devs, k, w)
    (devs, k\<lparr>km_threshold_ns := t, km_sync_mode := m, km_sync_primary := prim, km_interval_ms := i\<rparr>, w)"

text \<open>The states of a module that has been loaded from \<open>k0\<close> on the devices \<open>devs0\<close>.\<close>

inductive loaded ::
    "'w kapi \<Rightarrow> (netdev_event \<times> net_device) list \<Rightarrow> net_device list \<Rightarrow> kmod \<Rightarrow> 'w \<Rightarrow> 'w kstate \<Rightarrow> bool"
  for api replay devs0 k0 w0 where
  Loaded: "tsf_ptp_init api replay devs0 k0 w0 = (count, k, w) \<Longrightarrow> loaded api replay devs0 k0 w0 (devs0, k, w)"
| Step: "loaded api replay devs0 k0 w0 s \<Longrightarrow> module_step api s s' \<Longrightarrow> loaded api replay devs0 k0 w0 s'"

section \<open>What the steps keep\<close>

text \<open>The fields that only loading and unloading write.\<close>

definition same_registrations :: "kmod \<Rightarrow> kmod \<Rightarrow> bool" where
  "same_registrations k k' \<longleftrightarrow>
     km_misc k' = km_misc k \<and> km_chardev_registered k' = km_chardev_registered k \<and> km_notifier k' = km_notifier k"

definition same_params :: "kmod \<Rightarrow> kmod \<Rightarrow> bool" where
  "same_params k k' \<longleftrightarrow>
     km_sync_mode k' = km_sync_mode k \<and> km_threshold_ns k' = km_threshold_ns k \<and>
     km_sync_primary k' = km_sync_primary k \<and> km_interval_ms k' = km_interval_ms k"

text \<open>The operations on the TSF leave the list of cards as it is.\<close>

definition same_cards :: "kmod \<Rightarrow> kmod \<Rightarrow> bool" where
  "same_cards k k' \<longleftrightarrow> list_all2 same_card (km_cards k) (km_cards k') \<and> km_clocks k' = km_clocks k \<and> same_registrations k k'"

lemma all_same_card [simp]: "list_all2 same_card cs cs"
  by (simp add: list_all2_conv_all_nth)

lemma same_cards_refl [simp]: "same_cards k k"
  by (simp add: same_cards_def same_registrations_def)

lemma cards_ok_same: 
  assumes "cards_ok api devs k" "same_cards k k'"
  shows "cards_ok api devs k'"
proof -
  have "map cd_wiphy (km_cards k') = map cd_wiphy (km_cards k)"
    using assms(2) by (auto simp: same_cards_def same_card_def list_all2_conv_all_nth intro!: nth_equalityI)
  moreover have "card_ok api devs c' \<longleftrightarrow> card_ok api devs c" if "same_card c c'" for c c'
    using that by (simp add: card_ok_def same_card_def split: option.split)
  then have "list_all (card_ok api devs) (km_cards k')"
    using assms by (auto simp: same_cards_def cards_ok_def list_all2_conv_all_nth list_all_length)
  ultimately show ?thesis using assms by (simp add: cards_ok_def same_cards_def)
qed

lemma sync_card_same: "sync_card api thr p c n w = (c', n', w') \<Longrightarrow> same_card c c'"
  by (auto simp: sync_card_def same_card_def Let_def split: option.splits prod.splits if_splits)

lemma sync_cards_same: "sync_cards api thr prim p i cs n w = (cs', n', w') \<Longrightarrow> list_all2 same_card cs cs'"
proof (induction cs arbitrary: i n w cs')
  case (Cons c cs)
  then show ?case by (auto simp: Let_def split: prod.splits if_splits dest: sync_card_same)
qed simp

lemma run_sync_work_same: "same_cards k (fst (run_sync_work api k w)) \<and> (km_work k \<noteq> None \<longleftrightarrow> km_work (fst (run_sync_work api k w)) \<noteq> None)"
proof (cases "km_work k")
  case (Some d)
  have r: "km_work (resched k') \<noteq> None" for k' by (simp add: km_work_resched split: option.split)
  show ?thesis using Some r
    by (auto simp: run_sync_work_def sync_work_fn_def same_cards_def same_registrations_def Let_def
        split: option.splits prod.splits dest: sync_cards_same)
qed (simp add: run_sync_work_def)

lemma adjtime_same: "ptp_adjtime api c delta k w = (r, k', w') \<Longrightarrow> same_cards k k' \<and> km_work k' = km_work k"
  by (auto simp: ptp_adjtime_def Let_def same_cards_def same_registrations_def split: if_splits option.splits prod.splits)

lemma apply_adjustment_same: "apply_adjustment api a k w = Some (k', w') \<Longrightarrow> km_cards k' = km_cards k \<and> km_clocks k' = km_clocks k \<and> same_registrations k k' \<and> km_work k' = km_work k"
  by (auto simp: apply_adjustment_def Let_def same_registrations_def split: if_splits option.splits prod.splits)

lemma apply_adjustments_same:
  "apply_adjustments api adjs k w = Some (k', w') \<Longrightarrow> km_cards k' = km_cards k \<and> km_clocks k' = km_clocks k \<and> same_registrations k k' \<and> km_work k' = km_work k"
proof (induction adjs arbitrary: k w)
  case (Cons a adjs)
  then show ?case by (auto simp: same_registrations_def split: option.splits prod.splits dest!: apply_adjustment_same) 
qed (simp add: same_registrations_def)

lemma chardev_write_same: "chardev_write api buf ok k w = Some (r, k', w') \<Longrightarrow> same_cards k k' \<and> km_work k' = km_work k"
  by (auto simp: chardev_write_def Let_def same_cards_def same_registrations_def
      split: if_splits dest!: apply_adjustments_same)

lemma event_frame:
  "same_registrations k (fst (tsf_ptp_netdev_event api devs ev d k w)) \<and>
   km_work (fst (tsf_ptp_netdev_event api devs ev d k w)) = km_work k \<and>
   same_params k (fst (tsf_ptp_netdev_event api devs ev d k w))"
  by (auto simp: tsf_ptp_netdev_event_def try_hotplug_probe_def tsf_ptp_probe_def try_hotplug_remove_def tsf_ptp_remove_def
      capture_vif_def release_vif_def same_registrations_def same_params_def Let_def split: option.splits netdev_event.splits prod.splits)

text \<open>One clock for each card, whatever the events.\<close>

definition clocks_ok :: "kmod \<Rightarrow> bool" where
  "clocks_ok k \<longleftrightarrow> distinct (map cd_wiphy (km_cards k)) \<and> km_clocks k = map cd_wiphy (km_cards k)"

lemma probe_clocks_ok: "clocks_ok k \<Longrightarrow> clocks_ok (fst (snd (tsf_ptp_probe api p lo k w)))"
  by (auto simp: tsf_ptp_probe_def clocks_ok_def Let_def new_card_def find_card_None split: prod.splits)

lemma update_clocks_ok:
  assumes "clocks_ok k" "cd_wiphy c = cd_wiphy (km_cards k ! i)" "i < length (km_cards k)"
  shows "clocks_ok (k\<lparr>km_cards := (km_cards k)[i := c]\<rparr>)"
  using assms map_wiphy_update [OF assms(3,2)] by (simp add: clocks_ok_def del: map_update)

lemma remove_card_clocks_ok:
  assumes "clocks_ok k" "i < length (km_cards k)"
  shows "clocks_ok (tsf_ptp_remove (km_cards k ! i) (k\<lparr>km_cards := take i (km_cards k) @ drop (i + 1) (km_cards k)\<rparr>))"
proof -
  have d: "distinct (map cd_wiphy (km_cards k))" using assms(1) by (simp add: clocks_ok_def)
  have "remove1 (cd_wiphy (km_cards k ! i)) (map cd_wiphy (km_cards k)) = map cd_wiphy (take i (km_cards k) @ drop (Suc i) (km_cards k))"
    using remove1_nth [OF d, of i] assms(2) by (simp add: take_map drop_map)
  then show ?thesis using d assms(1) distinct_remove1 [OF d, of "cd_wiphy (km_cards k ! i)"]
    by (simp add: clocks_ok_def tsf_ptp_remove_def)
qed

lemma event_clocks_ok:
  assumes "clocks_ok k"
  shows "clocks_ok (fst (tsf_ptp_netdev_event api devs ev d k w))"
proof -
  have "clocks_ok (release_vif p v k)" for p v
    using assms by (auto simp: release_vif_def split: option.split dest: find_card_Some intro!: update_clocks_ok)
  moreover have "clocks_ok (capture_vif p v k)" for p v
    using assms by (auto simp: capture_vif_def split: option.split dest: find_card_Some intro!: update_clocks_ok)
  moreover have "clocks_ok k' \<Longrightarrow> clocks_ok (try_hotplug_remove devs p k')" for p k'
    using remove_card_clocks_ok [of k'] by (auto simp: try_hotplug_remove_def split: option.split dest: find_card_Some)
  ultimately show ?thesis using assms probe_clocks_ok
    by (auto simp: tsf_ptp_netdev_event_def try_hotplug_probe_def split: option.split netdev_event.split)
qed

lemma events_frame:
  "same_registrations k (fst (netdev_events api devs evs k w)) \<and> km_work (fst (netdev_events api devs evs k w)) = km_work k \<and>
   same_params k (fst (netdev_events api devs evs k w)) \<and>
   (clocks_ok k \<longrightarrow> clocks_ok (fst (netdev_events api devs evs k w)))"
proof (induction evs arbitrary: k w)
  case (Cons e evs)
  obtain ev d where e: "e = (ev, d)" by (cases e)
  obtain k1 w1 where k1: "tsf_ptp_netdev_event api devs ev d k w = (k1, w1)" by (metis prod.collapse)
  have "same_registrations k k1 \<and> km_work k1 = km_work k \<and> same_params k k1 \<and> (clocks_ok k \<longrightarrow> clocks_ok k1)"
    using event_frame [of k api devs ev d w] event_clocks_ok [of k api devs ev d w] k1 by simp
  then show ?case using Cons [of k1 w1] e k1 by (simp add: same_registrations_def same_params_def)
qed (simp add: same_registrations_def same_params_def)

text \<open>The events that the registration of the notifier passes on.\<close>

definition replay_ok :: "net_device list \<Rightarrow> (netdev_event \<times> net_device) list \<Rightarrow> bool" where
  "replay_ok devs replay \<longleftrightarrow>
     list_all (\<lambda>(ev, d). d \<in> set devs \<and> (ev = NetdevRegister \<or> ev = NetdevUp \<and> nd_up d)) replay"

lemma replay_cards_ok:
  "cards_ok api devs k \<Longrightarrow> replay_ok devs replay \<Longrightarrow> cards_ok api devs (fst (netdev_events api devs replay k w))"
proof (induction replay arbitrary: k w)
  case (Cons e evs)
  obtain ev d where e: "e = (ev, d)" by (cases e)
  obtain k1 w1 where k1: "tsf_ptp_netdev_event api devs ev d k w = (k1, w1)" by (metis prod.collapse)
  have "cards_ok api devs k1"
    using register_event_ok [OF Cons.prems(1), of d w] up_event_ok [OF Cons.prems(1), of d w] Cons.prems(2) e k1
    by (auto simp: replay_ok_def)
  then show ?case using Cons.IH [of k1 w1] Cons.prems(2) e k1 by (simp add: replay_ok_def)
qed simp

lemma probe_frame:
  "same_registrations k (fst (snd (tsf_ptp_probe api p lo k w))) \<and> km_work (fst (snd (tsf_ptp_probe api p lo k w))) = km_work k \<and>
   same_params k (fst (snd (tsf_ptp_probe api p lo k w)))"
  by (auto simp: tsf_ptp_probe_def same_registrations_def same_params_def Let_def split: prod.split)

lemma discover_frame:
  "same_registrations k (fst (snd (discover_from_netdevs api devs k w))) \<and>
   km_work (fst (snd (discover_from_netdevs api devs k w))) = km_work k \<and>
   same_params k (fst (snd (discover_from_netdevs api devs k w)))"
proof (induction devs arbitrary: k w)
  case (Cons d devs)
  show ?case
  proof (cases "nd_wiphy d")
    case (Some p)
    show ?thesis
    proof (cases "ka_local api p")
      case lo: (Some lo)
      obtain ret k1 w1 where "tsf_ptp_probe api p lo k w = (ret, k1, w1)" by (metis prod.collapse)
      then show ?thesis using Cons [of k1 w1] probe_frame [of k api p lo w] Some lo
        by (cases "discover_from_netdevs api devs k1 w1") (simp add: same_registrations_def same_params_def)
    qed (use Cons Some in simp)
  qed (use Cons in simp)
qed (simp add: same_registrations_def same_params_def)

lemma rediscover_cards_ok:
  assumes "cards_ok api all k" "set devs \<subseteq> set all"
  shows "cards_ok api all (fst (snd (discover_from_netdevs api devs k w)))"
  using assms
proof (induction devs arbitrary: k w)
  case (Cons d devs)
  show ?case
  proof (cases "nd_wiphy d")
    case (Some p)
    show ?thesis
    proof (cases "ka_local api p")
      case lo: (Some lo)
      obtain ret k1 w1 where k1: "tsf_ptp_probe api p lo k w = (ret, k1, w1)" by (metis prod.collapse)
      have "list_ex (\<lambda>d. nd_wiphy d = Some p) all" using Some Cons.prems(2) by (auto simp: list_ex_iff)
      then have "cards_ok api all k1" using probe_ok [OF Cons.prems(1) lo, of w] k1 by simp
      then show ?thesis using Cons.IH [of k1 w1] Cons.prems(2) Some lo k1
        by (cases "discover_from_netdevs api devs k1 w1") simp
    qed (use Cons Some in simp)
  qed (use Cons in simp)
qed simp

lemma capture_frame:
  "same_registrations k (capture_vif p v k) \<and> km_work (capture_vif p v k) = km_work k \<and>
   same_params k (capture_vif p v k)"
  by (simp add: capture_vif_def same_registrations_def same_params_def split: option.split)

lemma scan_frame:
  "same_registrations k (scan_existing_vifs devs k) \<and> km_work (scan_existing_vifs devs k) = km_work k \<and>
   same_params k (scan_existing_vifs devs k)"
proof (induction devs arbitrary: k)
  case (Cons d devs)
  then show ?case using capture_frame [of k] by (auto simp: same_registrations_def same_params_def split: option.split)
qed (simp add: same_registrations_def same_params_def)

lemma scan_cards_ok:
  "cards_ok api all k \<Longrightarrow> set devs \<subseteq> set all \<Longrightarrow> cards_ok api all (scan_existing_vifs devs k)"
proof (induction devs arbitrary: k)
  case (Cons d devs)
  then show ?case using capture_vif_ok [of api all k d] by (auto split: option.split)
qed simp

section \<open>Invariants of the loaded module\<close>

text \<open>A module that holds nothing of the kernel.\<close>

definition unloaded :: "kmod \<Rightarrow> bool" where
  "unloaded k \<longleftrightarrow> km_cards k = [] \<and> km_clocks k = [] \<and> km_work k = None \<and>
     \<not> km_misc k \<and> \<not> km_chardev_registered k \<and> \<not> km_notifier k"

text \<open>The loop is queued exactly if the module was loaded in mode 1, the device is there only if in mode 2.\<close>

definition services_ok :: "u32 \<Rightarrow> kmod \<Rightarrow> bool" where
  "services_ok mode k \<longleftrightarrow> (km_work k \<noteq> None \<longleftrightarrow> mode = 1) \<and> km_misc k = km_chardev_registered k \<and> (km_misc k \<longrightarrow> mode = 2)"

lemma services_ok_frame:
  "services_ok m k \<Longrightarrow> same_registrations k k' \<Longrightarrow> (km_work k \<noteq> None \<longleftrightarrow> km_work k' \<noteq> None) \<Longrightarrow> services_ok m k'"
  by (simp add: services_ok_def same_registrations_def same_params_def)

lemma init_ok:
  assumes "unloaded k0" "distinct (map nd_id devs)" "replay_ok devs replay" "tsf_ptp_init api replay devs k0 w0 = (count, k, w)"
  shows "cards_ok api devs k \<and> services_ok (km_sync_mode k0) k \<and> same_params k0 k"
proof -
  obtain k1 w1 where k1: "netdev_events api devs replay (k0\<lparr>km_notifier := True\<rparr>) w0 = (k1, w1)" by (metis prod.collapse)
  obtain n k2 w2 where k2: "discover_from_netdevs api devs k1 w1 = (n, k2, w2)" by (metis prod.collapse)
  let ?k3 = "scan_existing_vifs devs k2"
  have "cards_ok api devs (k0\<lparr>km_notifier := True\<rparr>)" using assms(1,2) by (simp add: cards_ok_def unloaded_def)
  then have "cards_ok api devs k1" using replay_cards_ok [OF _ assms(3), of api "k0\<lparr>km_notifier := True\<rparr>" w0] k1 by simp
  then have "cards_ok api devs k2" using rediscover_cards_ok [of api devs k1 devs w1] k2 by simp
  then have c3: "cards_ok api devs ?k3" by (rule scan_cards_ok) simp
  have f: "same_registrations (k0\<lparr>km_notifier := True\<rparr>) ?k3" "km_work ?k3 = None" "same_params k0 ?k3"
    using events_frame [of "k0\<lparr>km_notifier := True\<rparr>" api devs replay w0] k1
      discover_frame [of k1 api devs w1] k2 scan_frame [of k2 devs] assms(1)
    by (simp_all add: same_registrations_def same_params_def unloaded_def)
  have "cards_ok api devs k \<and> same_params k0 k \<and> (km_work k \<noteq> None \<longleftrightarrow> km_sync_mode k0 = 1) \<and>
     km_misc k = km_chardev_registered k \<and> (km_misc k \<longrightarrow> km_sync_mode k0 = 2)"
    using assms(1,4) c3 f k1 k2
    by (auto simp: tsf_ptp_init_def sync_start_kernel_def schedule_delayed_work_def chardev_register_def Let_def cards_ok_def
        same_registrations_def same_params_def unloaded_def split: if_splits prod.splits)
  then show ?thesis by (simp add: services_ok_def)
qed

definition module_ok :: "'w kapi \<Rightarrow> u32 \<Rightarrow> 'w kstate \<Rightarrow> bool" where
  "module_ok api mode s = (case s of (devs, k, w) \<Rightarrow> cards_ok api devs k \<and> services_ok mode k)"

lemma module_okD: "module_ok api mode (devs, k, w) \<Longrightarrow> cards_ok api devs k \<and> services_ok mode k"
  by (simp add: module_ok_def)

lemma module_ok_event:
  assumes "services_ok mode k" "cards_ok api devs' (fst (tsf_ptp_netdev_event api devs ev d k w))"
  shows "module_ok api mode (devs', tsf_ptp_netdev_event api devs ev d k w)"
proof -
  obtain k' w' where "tsf_ptp_netdev_event api devs ev d k w = (k', w')" by (metis prod.collapse)
  then show ?thesis
    using assms event_frame [of k api devs ev d w] services_ok_frame [of mode k k'] by (simp add: module_ok_def)
qed

lemma module_ok_same:
  assumes "module_ok api mode (devs, k, w)" "same_cards k k'" "km_work k \<noteq> None \<longleftrightarrow> km_work k' \<noteq> None"
  shows "module_ok api mode (devs, k', w')"
  using assms cards_ok_same services_ok_frame by (auto simp: module_ok_def same_cards_def)

lemma module_step_ok:
  assumes "module_step api s s'" "module_ok api mode s"
  shows "module_ok api mode s'"
  using assms
proof cases
  case (Register d devs k w)
  then have "cards_ok api devs k" "services_ok mode k" using assms(2) by (simp_all add: module_ok_def)
  then show ?thesis unfolding Register(2)
    by (intro module_ok_event register_step_ok) (use Register(3) in simp_all)
next
  case (Up d' d ds es k w)
  then have "cards_ok api (ds @ d # es) k" "services_ok mode k" using assms(2) by (simp_all add: module_ok_def)
  then show ?thesis unfolding Up(2,3) by (intro module_ok_event up_step_ok)
next
  case (Down d' d ds es k w)
  then have "cards_ok api (ds @ d # es) k" "services_ok mode k" using assms(2) by (simp_all add: module_ok_def)
  then show ?thesis unfolding Down(2,3) by (intro module_ok_event down_step_ok)
next
  case (Unregister d ds es k w)
  then have "cards_ok api (ds @ d # es) k" "services_ok mode k" using assms(2) by (simp_all add: module_ok_def)
  then show ?thesis unfolding Unregister(2) by (intro module_ok_event unregister_step_ok)
next
  case (Work devs k w)
  obtain k' w' where "run_sync_work api k w = (k', w')" by (metis prod.collapse)
  then show ?thesis using assms(2) Work run_sync_work_same [of k api w] module_ok_same [of api mode devs k w k' w'] by simp
next
  case (Parameter devs k w t m prim i)
  then show ?thesis using assms(2)
    by (simp add: module_ok_def cards_ok_def services_ok_def)
next
  case (Write buf ok k w r k' w' devs)
  then show ?thesis using assms(2) chardev_write_same [OF Write(3)] module_ok_same [of api mode devs k w k' w'] by simp
next
  case (Adjtime c k delta w rs k' w' devs)
  then show ?thesis using assms(2) adjtime_same [OF Adjtime(5)] module_ok_same [of api mode devs k w k' w'] by simp
qed (use assms(2) in \<open>simp_all add: module_ok_def\<close>)

lemma loaded_ok:
  assumes "loaded api replay devs0 k0 w0 s" "unloaded k0" "distinct (map nd_id devs0)" "replay_ok devs0 replay"
  shows "module_ok api (km_sync_mode k0) s"
  using assms
proof (induction rule: loaded.induct)
  case (Loaded count k w)
  then show ?case using init_ok [of k0 devs0 replay api w0 count k w] by (simp add: module_ok_def)
next
  case (Step s s')
  then show ?case using module_step_ok by blast
qed

section \<open>Unloading\<close>

lemma remove_cards_empty:
  "km_clocks k = map cd_wiphy cs \<Longrightarrow> km_cards k = cs \<Longrightarrow>
   remove_cards cs k = k\<lparr>km_cards := [], km_clocks := []\<rparr>"
proof (induction cs arbitrary: k)
  case (Cons c cs)
  then show ?case by (simp add: tsf_ptp_remove_def)
qed simp

lemma exit_fields:
  assumes "cards_ok api devs k" "services_ok mode k" "tsf_ptp_exit api replay devs k w = (k', w')"
  shows "km_cards k' = [] \<and> km_clocks k' = [] \<and> \<not> km_notifier k' \<and>
     km_work k' = (if km_sync_mode k = 1 then None else km_work k) \<and>
     km_misc k' = (km_misc k \<and> km_sync_mode k \<noteq> 2) \<and> km_chardev_registered k' = km_misc k'"
proof -
  define k1 where "k1 = (if km_sync_mode k = 1 then sync_stop_kernel k
     else if km_sync_mode k = 2 then chardev_unregister k else k)\<lparr>km_notifier := False\<rparr>"
  obtain k2 w2 where k2: "netdev_events api devs replay k1 w = (k2, w2)" by (metis prod.collapse)
  have k': "k' = remove_cards (km_cards k2) k2" using assms(3) k2 by (simp add: tsf_ptp_exit_def k1_def)
  have "clocks_ok k1" using assms(1)
    by (simp add: k1_def clocks_ok_def cards_ok_def sync_stop_kernel_def chardev_unregister_def)
  then have "clocks_ok k2" using events_frame [of k1 api devs replay w] k2 by simp
  then have "k' = k2\<lparr>km_cards := [], km_clocks := []\<rparr>" unfolding k' by (intro remove_cards_empty) (simp_all add: clocks_ok_def)
  moreover have "same_registrations k1 k2" "km_work k2 = km_work k1" using events_frame [of k1 api devs replay w] k2 by simp_all
  ultimately show ?thesis using assms(2)
    by (auto simp: same_registrations_def k1_def sync_stop_kernel_def chardev_unregister_def services_ok_def)
qed

section \<open>What is counted at loading\<close>

text \<open>
  What register\_netdevice\_notifier is documented to pass on: for each device its registration
  and, if it is up, its going up.
\<close>

definition notifier_replay :: "net_device list \<Rightarrow> (netdev_event \<times> net_device) list" where
  "notifier_replay devs =
     concat (map (\<lambda>d. (NetdevRegister, d) # (if nd_up d then [(NetdevUp, d)] else [])) devs)"

lemma notifier_replay_ok: "replay_ok devs (notifier_replay devs)"
  by (auto simp: replay_ok_def notifier_replay_def list_all_iff)

text \<open>\<open>probed\<close>: probing the wiphy of the device again registers nothing.\<close>

definition probed :: "'w kapi \<Rightarrow> kmod \<Rightarrow> net_device \<Rightarrow> bool" where
  "probed api k d \<longleftrightarrow>
     (case nd_wiphy d of
        None \<Rightarrow> True
      | Some p \<Rightarrow> (case ka_local api p of None \<Rightarrow> True | Some lo \<Rightarrow> lo_get_tsf lo \<longrightarrow> find_card_by_wiphy p k \<noteq> None))"

lemma capture_wiphys: "cd_wiphy ` set (km_cards (capture_vif p v k)) = cd_wiphy ` set (km_cards k)"
proof (cases "find_card_by_wiphy p k")
  case (Some i)
  note i = find_card_Some [OF Some]
  let ?c = "(km_cards k ! i)\<lparr>cd_vif := Some v\<rparr>"
  have "map cd_wiphy ((km_cards k)[i := ?c]) = map cd_wiphy (km_cards k)" using i by (intro map_wiphy_update) simp_all
  then have "set (map cd_wiphy ((km_cards k)[i := ?c])) = set (map cd_wiphy (km_cards k))" by (rule arg_cong)
  then show ?thesis using Some by (simp add: capture_vif_def)
qed (simp add: capture_vif_def)

lemma probe_wiphys: "cd_wiphy ` set (km_cards k) \<subseteq> cd_wiphy ` set (km_cards (fst (snd (tsf_ptp_probe api p lo k w))))"
  by (auto simp: tsf_ptp_probe_def Let_def split: prod.split)

lemma probed_mono:
  "probed api k d \<Longrightarrow> cd_wiphy ` set (km_cards k) \<subseteq> cd_wiphy ` set (km_cards k') \<Longrightarrow> probed api k' d"
  by (auto simp: probed_def find_card_None split: option.splits)

lemma register_event_probed:
  assumes "\<forall>w. ka_alloc api w" "\<forall>p w. fst (ka_ptp_register api p w) = 0"
  shows "probed api (fst (tsf_ptp_netdev_event api devs NetdevRegister d k w)) d"
proof (cases "nd_wiphy d")
  case (Some p)
  show ?thesis
  proof (cases "find_card_by_wiphy p k")
    case None
    have "fst (ka_ptp_register api p w) = 0" using assms(2) by blast
    then show ?thesis using Some None assms(1)
      by (auto simp: probed_def tsf_ptp_netdev_event_def try_hotplug_probe_def tsf_ptp_probe_def find_card_None new_card_def Let_def
          split: option.splits prod.splits)
  qed (use Some in \<open>simp add: probed_def tsf_ptp_netdev_event_def try_hotplug_probe_def split: option.split\<close>)
qed (simp add: probed_def)

lemma replay_event_wiphys:
  assumes "ev = NetdevRegister \<or> ev = NetdevUp"
  shows "cd_wiphy ` set (km_cards k) \<subseteq> cd_wiphy ` set (km_cards (fst (tsf_ptp_netdev_event api devs ev d k w)))"
  using assms
  by (elim disjE) (simp_all add: tsf_ptp_netdev_event_def try_hotplug_probe_def capture_wiphys probe_wiphys split: option.split)

lemma replay_probed:
  assumes "\<forall>w. ka_alloc api w" "\<forall>p w. fst (ka_ptp_register api p w) = 0" "replay_ok devs replay"
    "probed api k d \<or> (NetdevRegister, d) \<in> set replay"
  shows "probed api (fst (netdev_events api devs replay k w)) d"
  using assms(3,4)
proof (induction replay arbitrary: k w)
  case (Cons e evs)
  obtain ev d' where e: "e = (ev, d')" by (cases e)
  obtain k1 w1 where k1: "tsf_ptp_netdev_event api devs ev d' k w = (k1, w1)" by (metis prod.collapse)
  have "ev = NetdevRegister \<or> ev = NetdevUp" using Cons.prems(1) e by (auto simp: replay_ok_def)
  then have "cd_wiphy ` set (km_cards k) \<subseteq> cd_wiphy ` set (km_cards k1)"
    using replay_event_wiphys [of ev k api devs d' w] k1 by simp
  moreover have "ev = NetdevRegister \<and> d' = d \<longrightarrow> probed api k1 d"
    using register_event_probed [OF assms(1,2), of devs d k w] k1 by auto
  ultimately have "probed api k1 d \<or> (NetdevRegister, d) \<in> set evs"
    using Cons.prems(2) e probed_mono [of api k d k1] by auto
  then show ?case using Cons.IH [of k1 w1] Cons.prems(1) e k1 by (simp add: replay_ok_def)
qed simp

lemma discover_probed:
  "list_all (probed api k) devs \<Longrightarrow> discover_from_netdevs api devs k w = (0, k, w)"
  by (induction devs) (auto simp: probed_def tsf_ptp_probe_def split: option.splits)

section \<open>An example\<close>

text \<open>An unloaded module.\<close>

definition fresh_module :: "u32 \<Rightarrow> kmod" where
  "fresh_module mode = module_of []\<lparr>km_notifier := False, km_sync_mode := mode\<rparr>"

lemma fresh_module_simps [simp]: "unloaded (fresh_module mode)" "km_sync_mode (fresh_module mode) = mode"
  by (simp_all add: fresh_module_def unloaded_def)

text \<open>Two interfaces of one wiphy that are up at loading time in mode 1.\<close>

definition example_module :: kmod where
  "example_module = fst (snd (tsf_ptp_init wifi_api [] [wlan 3 0 True, wlan 4 0 True] (fresh_module 1) three_radios))"

lemma example_init:
  "tsf_ptp_init wifi_api [] [wlan 3 0 True, wlan 4 0 True] (fresh_module 1) three_radios = (1, example_module, three_radios)"
  "km_cards example_module = [radio_card 0 (Some 3)]" "km_sync_mode example_module = 1"
proof -
  have "tsf_ptp_init wifi_api [] [wlan 3 0 True, wlan 4 0 True] (fresh_module 1) three_radios =
      (1, fresh_module 1\<lparr>km_notifier := True, km_clocks := [0], km_cards := [radio_card 0 (Some 3)], km_work := Some 10\<rparr>, three_radios)"
    by (simp add: tsf_ptp_init_def tsf_ptp_probe_def radio_card_new find_card_by_wiphy_def find_index_def capture_vif_def
        sync_start_kernel_def schedule_delayed_work_def Let_def fresh_module_def module_of_def)
      (simp add: radio_card_def)
  then show "tsf_ptp_init wifi_api [] [wlan 3 0 True, wlan 4 0 True] (fresh_module 1) three_radios = (1, example_module, three_radios)"
    "km_cards example_module = [radio_card 0 (Some 3)]" "km_sync_mode example_module = 1"
    by (simp_all add: example_module_def)
qed

lemmas example_loaded = loaded.Loaded [OF example_init(1)]

section \<open>Properties\<close>

text \<open>C12: The list of cards follows the net devices: in every state that the loaded module can reach, by
  devices that come, go up, go down and go, cycles of the loop, uses of the device and of the
  clocks and writes of the parameters, there is one card, with one PTP clock, for a wiphy, it has
  a net device and can read the TSF, and the interface it uses belongs to it and is up.\<close>

theorem cards_follow_devices:
  assumes "loaded api replay devs0 k0 w0 (devs, k, w)" "unloaded k0" "distinct (map nd_id devs0)" "replay_ok devs0 replay"
  shows "distinct (map cd_wiphy (km_cards k)) \<and> km_clocks k = map cd_wiphy (km_cards k) \<and>
     (\<forall>c \<in> set (km_cards k). lo_get_tsf (cd_local c) \<and>
        (\<exists>d \<in> set devs. nd_wiphy d = Some (cd_wiphy c)) \<and>
        (\<forall>v. cd_vif c = Some v \<longrightarrow> (\<exists>d \<in> set devs. nd_id d = v \<and> nd_up d \<and> nd_wiphy d = Some (cd_wiphy c))))"
proof -
  have "cards_ok api devs k" using loaded_ok [OF assms] by (simp add: module_ok_def)
  then show ?thesis by (auto simp: cards_ok_def list_all_iff card_ok_def list_ex_iff)
qed

theorem cards_follow_devices_witness:
  "distinct (map cd_wiphy (km_cards example_module)) \<and> km_clocks example_module = map cd_wiphy (km_cards example_module)"
  using cards_follow_devices [OF example_loaded] by (simp add: replay_ok_def)

text \<open>C27: Unloading leaves nothing behind if the parameter sync\_mode still has the value of loading time:
  whatever happened between and whatever events the notifier gets in the end, there is no card, no
  PTP clock, no queued work, no device and no notifier.\<close>

theorem unload_leaves_nothing:
  assumes "loaded api replay devs0 k0 w0 (devs, k, w)" "unloaded k0" "distinct (map nd_id devs0)" "replay_ok devs0 replay"
    "km_sync_mode k = km_sync_mode k0" "tsf_ptp_exit api replay' devs k w = (k', w')"
  shows "unloaded k'"
proof -
  have ok: "cards_ok api devs k" "services_ok (km_sync_mode k0) k" using loaded_ok [OF assms(1-4)] by (simp_all add: module_ok_def)
  show ?thesis using exit_fields [OF ok assms(6)] ok(2) assms(5) by (auto simp: unloaded_def services_ok_def)
qed

theorem unload_leaves_nothing_witness:
  "unloaded (fst (tsf_ptp_exit wifi_api [] [wlan 3 0 True, wlan 4 0 True] example_module three_radios))"
  using unload_leaves_nothing [OF example_loaded _ _ _ _ prod.collapse [symmetric]] by (simp add: replay_ok_def example_init)

text \<open>C37: But the parameter can be written while the module is loaded: a module that was loaded in
  mode 1 and is unloaded with another value in it leaves the work queued, which is code of
  the module that is gone; and one that was loaded in mode 2 leaves its device registered.\<close>

theorem unload_after_mode_change:
  assumes "loaded api replay devs0 k0 w0 (devs, k, w)" "unloaded k0" "distinct (map nd_id devs0)" "replay_ok devs0 replay"
    "km_sync_mode k \<noteq> km_sync_mode k0" "tsf_ptp_exit api replay' devs k w = (k', w')"
  shows "(km_work k' \<noteq> None \<longleftrightarrow> km_sync_mode k0 = 1) \<and> km_misc k' = km_misc k"
proof -
  have ok: "cards_ok api devs k" "services_ok (km_sync_mode k0) k" using loaded_ok [OF assms(1-4)] by (simp_all add: module_ok_def)
  show ?thesis using exit_fields [OF ok assms(6)] ok(2) assms(5) by (auto simp: services_ok_def)
qed

theorem unload_after_mode_change_witness:
  "km_work (fst (tsf_ptp_exit wifi_api [] [wlan 3 0 True, wlan 4 0 True]
     (example_module\<lparr>km_threshold_ns := 5000, km_sync_mode := 0, km_sync_primary := [], km_interval_ms := 10\<rparr>) three_radios)) \<noteq> None"
  using unload_after_mode_change [OF loaded.Step [OF example_loaded module_step.Parameter [where t = 5000 and m = 0 and prim = "[]" and i = 10]]
      _ _ _ _ prod.collapse [symmetric], of "[]"]
  by (simp add: replay_ok_def)

text \<open>The number of clocks that loading logs is 0: the registration of the notifier passes on all
  devices that exist, so that the probing that is counted afterwards finds every wiphy registered.\<close>

theorem init_counts_no_clock:
  assumes "\<forall>w. ka_alloc api w" "\<forall>p w. fst (ka_ptp_register api p w) = 0"
    "tsf_ptp_init api (notifier_replay devs) devs k0 w0 = (count, k, w)"
  shows "count = 0"
proof -
  obtain k1 w1 where k1: "netdev_events api devs (notifier_replay devs) (k0\<lparr>km_notifier := True\<rparr>) w0 = (k1, w1)"
    by (metis prod.collapse)
  have "probed api k1 d" if "d \<in> set devs" for d
  proof -
    have "(NetdevRegister, d) \<in> set (notifier_replay devs)" using that by (auto simp: notifier_replay_def)
    then show ?thesis
      using replay_probed [OF assms(1,2) notifier_replay_ok, of "k0\<lparr>km_notifier := True\<rparr>" d devs w0] k1 by simp
  qed
  then have "discover_from_netdevs api devs k1 w1 = (0, k1, w1)" by (intro discover_probed) (simp add: list_all_iff)
  then show ?thesis using assms(3) k1 by (auto simp: tsf_ptp_init_def Let_def split: if_splits)
qed

theorem init_counts_no_clock_witness:
  "fst (tsf_ptp_init wifi_api (notifier_replay [wlan 3 0 True]) [wlan 3 0 True] (fresh_module 0) three_radios) = 0"
  using init_counts_no_clock [of wifi_api "[wlan 3 0 True]" "fresh_module 0" three_radios]
  by (cases "tsf_ptp_init wifi_api (notifier_replay [wlan 3 0 True]) [wlan 3 0 True] (fresh_module 0) three_radios") simp



end
