(* ===== verification/KernelPrimary.thy ===== *)
theory KernelPrimary
  imports KernelNet
begin

text \<open>
  Which card is the primary: the search of the daemon through /dev/tsf\_sync (find\_primary\_index of
  iouring\_sync.rs) over the read handler of the kernel module (kernel/tsf\_ptp.c), against the search
  of the module itself, and what becomes of the index that the daemon keeps.
\<close>

section \<open>The device as a file\<close>

text \<open>The system calls of the daemon on /dev/tsf\_sync: a read is served by the read handler.\<close>

definition kernel_files :: "'w kapi \<Rightarrow> 'w kworld tsf_sys" where
  "kernel_files api =
     \<lparr>sys_open = (\<lambda>p w. (Inr 3, w)),
      sys_pread = (\<lambda>fd buf off w. ((- 29, buf), w)), sys_pwrite = (\<lambda>fd bs off w. (- 29, w)),
      sys_lseek = (\<lambda>fd off w. w),
      sys_read = (\<lambda>fd buf w.
        (case chardev_read api (kw_kernel w) (length buf) True (kw_hw w) of
           (Inl e, hw) \<Rightarrow> ((- 1, buf), w\<lparr>kw_hw := hw\<rparr>)
         | (Inr bs, hw) \<Rightarrow> ((int (length bs), bs @ drop (length bs) buf), w\<lparr>kw_hw := hw\<rparr>))),
      sys_write = (\<lambda>fd bs w. (- 1, w)), sys_errno = (\<lambda>w. 14)\<rparr>"

lemma kernel_files_simps [simp]:
  "sys_open (kernel_files api) p w = (Inr 3, w)"
  "sys_read (kernel_files api) fd buf w =
     (case chardev_read api (kw_kernel w) (length buf) True (kw_hw w) of
        (Inl e, hw) \<Rightarrow> ((- 1, buf), w\<lparr>kw_hw := hw\<rparr>)
      | (Inr bs, hw) \<Rightarrow> ((int (length bs), bs @ drop (length bs) buf), w\<lparr>kw_hw := hw\<rparr>))"
  by (simp_all add: kernel_files_def)

section \<open>Names\<close>

text \<open>A name as the module stores it: at most 31 bytes, not empty, no NUL, UTF-8.\<close>

definition name_ok :: "u8 list \<Rightarrow> bool" where
  "name_ok name \<longleftrightarrow> length name \<le> 31 \<and> 0 \<notin> set name \<and> valid_utf8 name"

lemma trim_end_nul_id: "0 \<notin> set bs \<Longrightarrow> trim_end_nul bs = bs"
proof (cases bs rule: rev_cases)
  case (snoc ys y)
  moreover assume "0 \<notin> set bs"
  ultimately show ?thesis by (auto simp: trim_end_nul_def)
qed (simp add: trim_end_nul_def)

lemma snapshot_cards_names:
  "snapshot_cards api i cs w = (ss, w') \<Longrightarrow>
   list_all2 (\<lambda>c s. sn_phy_name_len s = word_of_nat (length (cd_phy_name c)) \<and>
     sn_phy_name s = take 32 (cd_phy_name c) @ replicate (32 - length (cd_phy_name c)) 0) cs ss"
proof (induction cs arbitrary: i w ss)
  case (Cons c cs)
  then show ?case by (auto simp: snapshot_card_def Let_def split: prod.splits option.splits)
qed simp

lemma snapshot_name_exact:
  assumes "name_ok name" "sn_phy_name_len s = word_of_nat (length name)"
    "sn_phy_name s = take 32 name @ replicate (32 - length name) 0"
  shows "snapshot_name s = name"
proof -
  have l: "length name \<le> 31" using assms(1) by (simp add: name_ok_def)
  then have "unat (word_of_nat (length name) :: u32) = length name" by (simp add: unat_of_nat take_bit_nat_eq_self)
  then have "take (min (unat (sn_phy_name_len s)) 32) (sn_phy_name s) = name" using l assms(2,3) by simp
  then show ?thesis using assms(1) by (simp add: snapshot_name_def name_ok_def trim_end_nul_id)
qed

lemma find_nth:
  assumes "length ys = length xs" "\<And>i. i < length xs \<Longrightarrow> Q (ys ! i) \<longleftrightarrow> P (xs ! i)"
  shows "find Q ys = map_option ((!) ys) (find_index P xs)"
proof (cases "find_index P xs")
  case None
  then have "\<forall>i < length xs. \<not> P (xs ! i)" by (simp add: find_index_None)
  then have "\<forall>y \<in> set ys. \<not> Q y" using assms by (auto simp: in_set_conv_nth)
  then have "find Q ys = None" by (simp add: find_None_iff)
  then show ?thesis using None by simp
next
  case (Some i)
  then obtain "i < length xs" "P (xs ! i)" and least: "\<forall>j < i. \<not> P (xs ! j)"
    by (auto simp: find_index_def find_Some_iff)
  then have "find Q ys = Some (ys ! i)" unfolding find_Some_iff using assms
    by (intro exI [of _ i]) auto
  then show ?thesis using Some by simp
qed

section \<open>The search\<close>

context tsf_kernel begin

lemma find_primary_index_kernel:
  assumes "list_all settable (km_cards (kw_kernel w))" "length (km_cards (kw_kernel w)) \<le> max_cards"
    "list_all (\<lambda>c. name_ok (cd_phy_name c)) (km_cards (kw_kernel w))" "phy \<noteq> []"
  shows "\<exists>w'. find_primary_index (kernel_files api) phy w =
     (Some (case find_primary_locked ((kw_kernel w)\<lparr>km_sync_primary := phy\<rparr>) of
              Some i \<Rightarrow> Inr (word_of_nat i)
            | None \<Rightarrow> Inl (CustomError NotFound ''primary phy not found in /dev/tsf_sync'')), w')"
proof -
  let ?cs = "km_cards (kw_kernel w)" and ?buf = "replicate (snapshot_size * max_cards) (0 :: u8)"
  have "length ?cs * snapshot_size \<le> length ?buf" using assms(2) by simp
  then obtain ss hw where ss: "snapshot_cards api 0 ?cs (kw_hw w) = (ss, hw)"
    "chardev_read api (kw_kernel w) (length ?buf) True (kw_hw w) = (Inr (concat (map snapshot_bytes ss)), hw)"
    using chardev_read_snapshots [OF assms(1)] by blast
  have len: "length ss = length ?cs" "\<forall>j < length ?cs. sn_card_index (ss ! j) = word_of_nat j \<and> length (sn_phy_name (ss ! j)) = 32"
    using snapshot_cards_correct [OF assms(1), of 0 "kw_hw w"] ss(1) by auto
  have n: "\<forall>s \<in> set ss. length (sn_phy_name s) = 32" using len by (metis in_set_conv_nth)
  then have bytes: "length (concat (map snapshot_bytes ss)) = 56 * length ss" by (rule length_concat_snapshots)
  have rec: "records 56 read_snapshot (length ss) (concat (map snapshot_bytes ss) @ rest) = ss" for rest
    using n read_snapshot_bytes [where rest = "[]"] by (intro records_concat) (simp add: length_snapshot_bytes)
  have names: "snapshot_name (ss ! j) = cd_phy_name (?cs ! j)" if "j < length ?cs" for j
    using snapshot_cards_names [OF ss(1)] that assms(3) len(1)
    by (intro snapshot_name_exact) (simp_all add: list_all2_conv_all_nth list_all_length)
  have find: "find (\<lambda>s. snapshot_name s = phy) ss = map_option ((!) ss) (find_index (\<lambda>c. cd_phy_name c = phy) ?cs)"
    using len(1) names by (intro find_nth) simp_all
  have "nat (56 * int (length ss)) div 56 = length ss" by (simp add: nat_mult_distrib)
  moreover have "56 * length ss \<le> length (concat (map snapshot_bytes ss) @ drop (56 * length ss) ?buf)" using bytes by simp
  ultimately show ?thesis
    using ss(2) bytes rec find len(2) assms(4) find_index_Some [of "\<lambda>c. cd_phy_name c = phy" ?cs]
    by (auto simp: find_primary_index_def find_primary_locked_def Let_def split: option.split)
qed

end

lemma unplugged_cards:
  assumes "cards_ok api (ds @ d # es) k" "nd_wiphy d = Some p" "\<not> list_ex (\<lambda>e. nd_wiphy e = Some p) (ds @ es)" "\<not> nd_up d"
    "j < length (km_cards k)" "cd_wiphy (km_cards k ! j) = p"
    "tsf_ptp_netdev_event api (ds @ es) NetdevUnregister d k w = (k', w')"
  shows "km_cards k' = take j (km_cards k) @ drop (Suc j) (km_cards k) \<and> w' = w \<and> km_threshold_ns k' = km_threshold_ns k"
proof -
  let ?cs = "km_cards k"
  have dist: "distinct (map cd_wiphy ?cs)" using assms(1) by (simp add: cards_ok_def)
  obtain j' where j': "find_card_by_wiphy p k = Some j'"
    using assms(5,6) nth_mem [OF assms(5)] by (cases "find_card_by_wiphy p k") (auto simp: find_card_None)
  then have j: "find_card_by_wiphy p k = Some j"
    using find_card_Some [OF j'] assms(5,6) nth_eq_iff_index_eq [OF dist, of j' j] by simp
  have "cd_vif (?cs ! j) \<noteq> Some (nd_id d)"
    using vif_device [OF assms(1) assms(5), of d] assms(4) by auto
  then have "release_vif p (nd_id d) k = k" using j by (simp add: release_vif_def)
  then show ?thesis using assms(2,3,7) j
    by (auto simp: tsf_ptp_netdev_event_def try_hotplug_remove_def tsf_ptp_remove_def)
qed

section \<open>Properties\<close>

text \<open>C24: The daemon and the module find the same primary: the search of the daemon for a phy through
  /dev/tsf\_sync gives the position of the card that the module would take with that name in its
  parameter sync\_primary, and the error NotFound if the module would find none.\<close>

theorem daemon_finds_the_modules_primary:
  assumes "tsf_kernel api tsf_at" "kernel_ok thr w" "list_all (\<lambda>c. name_ok (cd_phy_name c)) (km_cards (kw_kernel w))" "phy \<noteq> []"
  shows "fst (find_primary_index (kernel_files api) phy w) =
     Some (case find_primary_locked ((kw_kernel w)\<lparr>km_sync_primary := phy\<rparr>) of
             Some i \<Rightarrow> Inr (word_of_nat i)
           | None \<Rightarrow> Inl (CustomError NotFound ''primary phy not found in /dev/tsf_sync''))"
  using tsf_kernel.find_primary_index_kernel [OF assms(1) _ _ assms(3,4)] assms(2) by (fastforce simp: kernel_ok_def)

theorem daemon_finds_the_modules_primary_witness:
  "fst (find_primary_index (kernel_files (radio_api Map.empty)) [112, 104, 121, 50] (three_cards None)) = Some (Inr 2)"
proof -
  have "word_of_nat (Suc 0) = (1 :: u8)" by simp
  then show ?thesis
  using daemon_finds_the_modules_primary [OF radio.tsf_kernel_axioms, of 5000 "three_cards None" "[112, 104, 121, 50]"]
  by (simp add: three_cards_def kernel_ok_def find_primary_locked_def find_index_def upt_rec name_ok_def Let_def)
qed


text \<open>Four cards; the first has gone down and is unplugged, the second is the primary.\<close>

definition four_cards :: "radios kworld" where
  "four_cards =
     \<lparr>kw_kernel = module_of [radio_card 0 None, radio_card 1 (Some 11), radio_card 2 (Some 12), radio_card 3 (Some 13)],
      kw_hw = \<lparr>ra_tsf = (\<lambda>p v. if p = 2 then 2000000 else 1005000), ra_now = 1\<rparr>,
      kw_pending = None, kw_completion = None\<rparr>"


end
