(* ===== verification/KernelLocks.thy ===== *)
theory KernelLocks
  imports KernelNet
begin

text \<open>
  The locks of the kernel module (src/kernel/tsf\_ptp.c): the sequence of lock and unlock calls
  of every handler, an interleaving semantics of handlers over the mutexes, freedom from deadlock by
  the order of the locks, and the case in which the caller of the notifier breaks that order.
\<close>

section \<open>Lock programs\<close>

text \<open>A card is named by its wiphy; \<open>Rtnl\<close> is the lock of the net devices, which callers of the notifier hold.\<close>

datatype klock = Rtnl | CardsLock | CardLock nat | WiphyLock nat

datatype lock_event = Acquire klock | Release klock

definition locked :: "klock \<Rightarrow> lock_event list \<Rightarrow> lock_event list" where
  "locked l body = Acquire l # body @ [Release l]"

text \<open>The lock of a card around a TSF operation, which happens if the card has an interface.\<close>

definition card_locks :: "tsf_card \<Rightarrow> lock_event list" where
  "card_locks c =
     locked (CardLock (cd_wiphy c)) (if cd_vif c = None then [] else locked (WiphyLock (cd_wiphy c)) [])"

definition gettime_locks :: "tsf_card \<Rightarrow> lock_event list" where
  "gettime_locks c = card_locks c"

definition settime_locks :: "tsf_card \<Rightarrow> lock_event list" where
  "settime_locks c = card_locks c"

definition adjtime_locks :: "kmod \<Rightarrow> tsf_card \<Rightarrow> i64 \<Rightarrow> lock_event list" where
  "adjtime_locks k c delta_ns =
     (if 0 < km_threshold_ns k \<and> below_threshold (km_threshold_ns k) delta_ns then [] else card_locks c)"

definition getcrosststamp_locks :: "tsf_card \<Rightarrow> lock_event list" where
  "getcrosststamp_locks c = card_locks c"

definition sync_work_locks :: "kmod \<Rightarrow> lock_event list" where
  "sync_work_locks k =
     locked CardsLock
       (case find_primary_locked k of
          None \<Rightarrow> []
        | Some i \<Rightarrow>
            (let primary = km_cards k ! i
             in card_locks primary @
                (if cd_vif primary = None then []
                 else concat (map (\<lambda>j. card_locks (km_cards k ! j)) (filter (\<lambda>j. j \<noteq> i) [0..<length (km_cards k)])))))"

definition chardev_read_locks :: "kmod \<Rightarrow> lock_event list" where
  "chardev_read_locks k = locked CardsLock (concat (map card_locks (km_cards k)))"

definition chardev_write_locks :: "tsf_adjustment list \<Rightarrow> kmod \<Rightarrow> lock_event list" where
  "chardev_write_locks adjs k =
     locked CardsLock
       (concat (map (\<lambda>a.
          if 0 < km_threshold_ns k \<and> below_threshold (km_threshold_ns k) (adj_delta_ns a) then []
          else if unat (adj_card_index a) < length (km_cards k) then card_locks (km_cards k ! unat (adj_card_index a))
          else []) adjs))"

text \<open>Looking for the card of a wiphy, and then locking it to take or give up its interface.\<close>

definition find_card_locks :: "lock_event list" where
  "find_card_locks = locked CardsLock []"

definition vif_locks :: "nat \<Rightarrow> kmod \<Rightarrow> lock_event list" where
  "vif_locks p k = locked CardsLock (if find_card_by_wiphy p k = None then [] else locked (CardLock p) [])"

text \<open>Probing locks the list twice, for the search and for the insertion.\<close>

definition probe_locks :: "lock_event list" where
  "probe_locks = locked CardsLock [] @ locked CardsLock []"

definition netdev_event_locks :: "netdev_event \<Rightarrow> nat \<Rightarrow> kmod \<Rightarrow> lock_event list" where
  "netdev_event_locks ev p k =
     (case ev of
        NetdevRegister \<Rightarrow> find_card_locks @ (if find_card_by_wiphy p k = None then probe_locks else [])
      | NetdevUp \<Rightarrow> vif_locks p k
      | NetdevDown \<Rightarrow> vif_locks p k
      | NetdevUnregister \<Rightarrow> vif_locks p k @ find_card_locks
      | NetdevOther \<Rightarrow> [])"

text \<open>
  The notifier is called with the lock of the net devices held.  A wiphy's net devices are registered and
  unregistered by callers that hold its lock as well (cfg80211\_register\_netdevice requires both);
  a caller that only sets a device up or down, and the replay of the present devices to a new notifier,
  do without it.
\<close>

definition event_locks_under_wiphy :: "netdev_event \<Rightarrow> nat \<Rightarrow> kmod \<Rightarrow> lock_event list" where
  "event_locks_under_wiphy ev p k = locked Rtnl (locked (WiphyLock p) (netdev_event_locks ev p k))"

text \<open>Events, with the wiphy and the list of cards at the time of each.\<close>

definition init_locks :: "(netdev_event \<times> nat \<times> kmod) list \<Rightarrow> nat list \<Rightarrow> (nat \<times> kmod) list \<Rightarrow> lock_event list" where
  "init_locks replay probes scans =
     locked Rtnl (concat (map (\<lambda>(ev, p, k). netdev_event_locks ev p k) replay)) @
     locked Rtnl (concat (map (\<lambda>_. probe_locks) probes) @ concat (map (\<lambda>(p, k). vif_locks p k) scans))"

definition exit_locks :: "(netdev_event \<times> nat \<times> kmod) list \<Rightarrow> kmod \<Rightarrow> lock_event list" where
  "exit_locks replay k =
     locked Rtnl (concat (map (\<lambda>(ev, p, k). netdev_event_locks ev p k) replay)) @
     locked CardsLock [] @ concat (map (\<lambda>_. locked CardsLock []) (km_cards k))"

datatype kernel_handler =
    Gettime tsf_card
  | Settime tsf_card
  | Adjtime kmod tsf_card i64
  | Getcrosststamp tsf_card
  | SyncWork kmod
  | ChardevRead kmod
  | ChardevWrite "tsf_adjustment list" kmod
  | NetdevEvent bool netdev_event nat kmod
  | ModuleInit "(netdev_event \<times> nat \<times> kmod) list" "nat list" "(nat \<times> kmod) list"
  | ModuleExit "(netdev_event \<times> nat \<times> kmod) list" kmod

text \<open>The flag of an event says whether its caller holds the lock of the wiphy.\<close>

fun handler_locks :: "kernel_handler \<Rightarrow> lock_event list" where
  "handler_locks (Gettime c) = gettime_locks c"
| "handler_locks (Settime c) = settime_locks c"
| "handler_locks (Adjtime k c delta) = adjtime_locks k c delta"
| "handler_locks (Getcrosststamp c) = getcrosststamp_locks c"
| "handler_locks (SyncWork k) = sync_work_locks k"
| "handler_locks (ChardevRead k) = chardev_read_locks k"
| "handler_locks (ChardevWrite adjs k) = chardev_write_locks adjs k"
| "handler_locks (NetdevEvent wiphy_held ev p k) =
     (if wiphy_held then event_locks_under_wiphy ev p k else locked Rtnl (netdev_event_locks ev p k))"
| "handler_locks (ModuleInit replay probes scans) = init_locks replay probes scans"
| "handler_locks (ModuleExit replay k) = exit_locks replay k"

fun under_wiphy :: "kernel_handler \<Rightarrow> bool" where
  "under_wiphy (NetdevEvent wiphy_held ev p k) = wiphy_held"
| "under_wiphy _ = False"

section \<open>Interleaving\<close>

text \<open>A thread is the list of the locks it holds and the rest of its program; a mutex has one holder.\<close>

type_synonym thread = "klock list \<times> lock_event list"

inductive lock_step :: "thread list \<Rightarrow> thread list \<Rightarrow> bool" where
  Take: "i < length ts \<Longrightarrow> ts ! i = (held, Acquire l # p) \<Longrightarrow> list_all (\<lambda>t. l \<notin> set (fst t)) ts \<Longrightarrow>
    lock_step ts (ts[i := (l # held, p)])"
| Drop: "i < length ts \<Longrightarrow> ts ! i = (held, Release l # p) \<Longrightarrow> lock_step ts (ts[i := (remove1 l held, p)])"

inductive lock_run :: "thread list \<Rightarrow> nat \<Rightarrow> thread list \<Rightarrow> bool" for ts0 where
  Start: "lock_run ts0 0 ts0"
| Next: "lock_run ts0 n ts \<Longrightarrow> lock_step ts ts' \<Longrightarrow> lock_run ts0 (Suc n) ts'"

definition start :: "lock_event list list \<Rightarrow> thread list" where
  "start ps = map (\<lambda>p. ([], p)) ps"

section \<open>The order of the locks\<close>

fun level :: "klock \<Rightarrow> nat" where
  "level Rtnl = 0" | "level CardsLock = 1" | "level (CardLock p) = 2" | "level (WiphyLock p) = 3"

text \<open>Every lock is taken above those that are held, and all are released.\<close>

fun ordered :: "klock list \<Rightarrow> lock_event list \<Rightarrow> bool" where
  "ordered held [] \<longleftrightarrow> held = []"
| "ordered held (Acquire l # p) \<longleftrightarrow> list_all (\<lambda>h. level h < level l) held \<and> ordered (l # held) p"
| "ordered held (Release l # p) \<longleftrightarrow> l \<in> set held \<and> ordered (remove1 l held) p"

text \<open>A block that leaves the held locks as they were.\<close>

definition block :: "klock list \<Rightarrow> lock_event list \<Rightarrow> bool" where
  "block held p \<longleftrightarrow> (\<forall>q. ordered held q \<longrightarrow> ordered held (p @ q))"

lemma block_Nil [simp]: "block held []"
  by (simp add: block_def)

lemma block_append: "block held p \<Longrightarrow> block held q \<Longrightarrow> block held (p @ q)"
  by (simp add: block_def)

lemma block_concat: "(\<And>p. p \<in> set ps \<Longrightarrow> block held p) \<Longrightarrow> block held (concat ps)"
  by (induction ps) (auto intro!: block_append)

lemma block_locked: "list_all (\<lambda>h. level h < level l) held \<Longrightarrow> block (l # held) p \<Longrightarrow> block held (locked l p)"
  by (simp add: block_def locked_def)

lemma ordered_block: "block [] p \<Longrightarrow> ordered [] p"
  using block_def [of "[]" p] by (metis append_Nil2 ordered.simps(1))

lemma card_locks_block: "list_all (\<lambda>h. level h < 2) held \<Longrightarrow> block held (card_locks c)"
  by (auto simp: card_locks_def list_all_iff intro!: block_locked) (fastforce+)?

lemma vif_locks_block: "list_all (\<lambda>h. level h < 1) held \<Longrightarrow> block held (vif_locks p k)"
  by (auto simp: vif_locks_def list_all_iff intro!: block_locked) (fastforce+)?

lemma find_card_locks_block: "list_all (\<lambda>h. level h < 1) held \<Longrightarrow> block held find_card_locks"
  by (simp add: find_card_locks_def block_locked)

lemma probe_locks_block: "list_all (\<lambda>h. level h < 1) held \<Longrightarrow> block held probe_locks"
  by (simp add: probe_locks_def block_locked block_append)

lemma event_locks_block: "list_all (\<lambda>h. level h < 1) held \<Longrightarrow> block held (netdev_event_locks ev p k)"
  by (simp add: netdev_event_locks_def block_append vif_locks_block find_card_locks_block probe_locks_block split: netdev_event.split)

lemmas lock_blocks = card_locks_block vif_locks_block find_card_locks_block probe_locks_block event_locks_block

lemma handler_block: "\<not> under_wiphy h \<Longrightarrow> block [] (handler_locks h)"
proof (cases h)
  case (SyncWork k)
  then show ?thesis
    by (auto simp: sync_work_locks_def Let_def split: option.split intro!: block_locked block_append block_concat card_locks_block)
next
  case (ChardevRead k)
  then show ?thesis by (auto simp: chardev_read_locks_def intro!: block_locked block_concat card_locks_block)
next
  case (ChardevWrite adjs k)
  then show ?thesis by (auto simp: chardev_write_locks_def intro!: block_locked block_concat card_locks_block)
next
  case (ModuleInit replay probes scans)
  then show ?thesis by (auto simp: init_locks_def intro!: block_locked block_append block_concat lock_blocks)
next
  case (ModuleExit replay k)
  then show ?thesis by (auto simp: exit_locks_def intro!: block_locked block_append block_concat lock_blocks)
qed (auto simp: gettime_locks_def settime_locks_def adjtime_locks_def getcrosststamp_locks_def intro!: block_locked lock_blocks)

section \<open>Progress\<close>

definition threads_ok :: "thread list \<Rightarrow> bool" where
  "threads_ok ts \<longleftrightarrow> list_all (\<lambda>(held, p). ordered held p) ts"

definition remaining :: "thread list \<Rightarrow> nat" where
  "remaining ts = sum_list (map (length \<circ> snd) ts)"

lemma threads_ok_nth: "threads_ok ts \<Longrightarrow> i < length ts \<Longrightarrow> ts ! i = (held, p) \<Longrightarrow> ordered held p"
  by (fastforce simp: threads_ok_def list_all_length)

lemma threads_ok_update: "threads_ok ts \<Longrightarrow> ordered held p \<Longrightarrow> threads_ok (ts[i := (held, p)])"
  using set_update_subset_insert [of ts i "(held, p)"] by (auto simp: threads_ok_def list_all_iff)

lemma remaining_update:
  "i < length ts \<Longrightarrow> ts ! i = (held, e # p) \<Longrightarrow> Suc (remaining (ts[i := (held', p)])) = remaining ts"
  using sum_list_update [of i "map (length \<circ> snd) ts" "length p"] elem_le_sum_list [of i "map (length \<circ> snd) ts"]
  by (simp add: remaining_def map_update)

lemma lock_step_ok: "lock_step ts ts' \<Longrightarrow> threads_ok ts \<Longrightarrow> threads_ok ts' \<and> Suc (remaining ts') = remaining ts"
proof (induction rule: lock_step.induct)
  case (Take i ts held l p)
  then show ?case using threads_ok_nth [of ts i held "Acquire l # p"] threads_ok_update remaining_update by simp
next
  case (Drop i ts held l p)
  then show ?case using threads_ok_nth [of ts i held "Release l # p"] threads_ok_update remaining_update by simp
qed

text \<open>If nobody can go on, whoever waits waits for a holder that waits for a higher lock.\<close>

lemma waits_higher:
  assumes "threads_ok ts" "\<forall>ts'. \<not> lock_step ts ts'" "i < length ts" "ts ! i = (held, e # p)"
  shows "\<exists>l. e = Acquire l \<and>
     (\<exists>j held' l' p'. j < length ts \<and> ts ! j = (held', Acquire l' # p') \<and> level l < level l')"
proof (cases e)
  case (Release l)
  then show ?thesis using assms(2-4) lock_step.Drop by blast
next
  case (Acquire l)
  then have "\<not> list_all (\<lambda>t. l \<notin> set (fst t)) ts" using assms(2-4) lock_step.Take by blast
  then obtain j where j: "j < length ts" "l \<in> set (fst (ts ! j))" by (auto simp: list_all_length)
  obtain held' q where q: "ts ! j = (held', q)" by (cases "ts ! j")
  have ord: "ordered held' q" using threads_ok_nth [OF assms(1) j(1) q] .
  then obtain e' p' where e': "q = e' # p'" using j(2) q by (cases q) auto
  moreover obtain l' where "e' = Acquire l'" using assms(2) j(1) q e' lock_step.Drop by (cases e') blast+
  ultimately have "level l < level l'" using ord j(2) q by (auto simp: list_all_iff)
  then show ?thesis using Acquire j(1) q e' \<open>e' = Acquire l'\<close> by blast
qed

lemma lock_progress:
  assumes "threads_ok ts" "remaining ts \<noteq> 0"
  shows "\<exists>ts'. lock_step ts ts'"
proof (rule ccontr)
  assume no: "\<nexists>ts'. lock_step ts ts'"
  then have stuck: "\<forall>ts'. \<not> lock_step ts ts'" by blast
  have "\<exists>i held l p. i < length ts \<and> ts ! i = (held, Acquire l # p) \<and> n \<le> level l" for n
  proof (induction n)
    case 0
    obtain t where "t \<in> set ts" "snd t \<noteq> []" using assms(2) by (auto simp: remaining_def)
    then obtain i held e p where "i < length ts" "ts ! i = (held, e # p)"
      by (metis in_set_conv_nth list.exhaust prod.collapse)
    then show ?case using waits_higher [OF assms(1) stuck] by blast
  next
    case (Suc n)
    then obtain i held l p where i: "i < length ts" "ts ! i = (held, Acquire l # p)" "n \<le> level l" by blast
    from waits_higher [OF assms(1) stuck i(1,2)] obtain j held' l' p'
      where "j < length ts" "ts ! j = (held', Acquire l' # p')" "level l < level l'" by auto
    moreover from this i(3) have "Suc n \<le> level l'" by simp
    ultimately show ?case by blast
  qed
  from this [of 4] obtain l where "4 \<le> level l" by blast
  then show False by (cases l) simp_all
qed

lemma lock_run_ok:
  "lock_run ts0 n ts \<Longrightarrow> threads_ok ts0 \<Longrightarrow> threads_ok ts \<and> n + remaining ts = remaining ts0"
proof (induction rule: lock_run.induct)
  case (Next n ts ts')
  then show ?case using lock_step_ok [of ts ts'] by simp
qed simp

lemma start_ok: "\<forall>h \<in> set hs. \<not> under_wiphy h \<Longrightarrow> threads_ok (start (map handler_locks hs))"
  using handler_block by (auto simp: start_def threads_ok_def list_all_iff intro: ordered_block)

lemma remaining_0: "threads_ok ts \<Longrightarrow> remaining ts = 0 \<Longrightarrow> list_all (\<lambda>t. t = ([], [])) ts"
  by (fastforce simp: threads_ok_def remaining_def list_all_iff)

section \<open>Properties\<close>

text \<open>C11: As long as no caller of the net device notifier holds the lock of a wiphy, the handlers of the module
  never deadlock: with any number of clock operations, cycles of the loop, reads and writes of the device, net
  device events, loading and unloading at the same time and in any interleaving, some handler can go on until
  all have ended and released their locks, which takes as many steps as they have lock and unlock calls.
  This covers the devices that are set up or down by callers that hold the lock of the net devices only, and the events that are
  replayed when the module is loaded or unloaded; the callers that register or unregister a device of a
  wiphy do hold its lock, and with them the handlers can deadlock (notifier\_under\_wiphy\_lock\_deadlocks).\<close>

theorem handlers_never_deadlock:
  assumes "\<forall>h \<in> set hs. \<not> under_wiphy h" "lock_run (start (map handler_locks hs)) n ts"
  shows "n \<le> length (concat (map handler_locks hs)) \<and>
     (if n = length (concat (map handler_locks hs)) then list_all (\<lambda>t. t = ([], [])) ts else (\<exists>ts'. lock_step ts ts'))"
proof -
  have "remaining (start ps) = length (concat ps)" for ps
    by (induction ps) (simp_all add: remaining_def start_def)
  then have n: "threads_ok ts" "n + remaining ts = length (concat (map handler_locks hs))"
    using lock_run_ok [OF assms(2) start_ok [OF assms(1)]] by simp_all
  show ?thesis using n lock_progress [OF n(1)] remaining_0 [OF n(1)] by auto
qed

text \<open>The loop holds the list of cards, a gettime the lock of the first card, and an event waits for the list.\<close>

theorem handlers_never_deadlock_witness:
  "\<exists>ts. lock_run (start (map handler_locks
       [SyncWork (module_of [radio_card 0 (Some 7)]), Gettime (radio_card 0 (Some 7)),
        NetdevEvent False NetdevUp 0 (module_of [radio_card 0 (Some 7)])])) (Suc (Suc (Suc 0))) ts \<and>
     map fst ts = [[CardsLock], [CardLock 0], [Rtnl]] \<and>
     hd (snd (ts ! 0)) = Acquire (CardLock 0) \<and> hd (snd (ts ! 2)) = Acquire CardsLock \<and> (\<exists>ts'. lock_step ts ts')"
proof -
  let ?k = "module_of [radio_card 0 (Some 7)]" and ?c = "radio_card 0 (Some 7)"
  define hs where "hs = [SyncWork ?k, Gettime ?c, NetdevEvent False NetdevUp 0 ?k]"
  have "find_primary_locked ?k = Some 0" by (simp add: find_primary_locked_def)
  then obtain p where p: "handler_locks (SyncWork ?k) = Acquire CardsLock # Acquire (CardLock 0) # p"
    by (simp add: sync_work_locks_def locked_def card_locks_def radio_card_def)
  obtain q where q: "handler_locks (Gettime ?c) = Acquire (CardLock 0) # q"
    by (simp add: gettime_locks_def locked_def card_locks_def radio_card_def)
  obtain r where r: "handler_locks (NetdevEvent False NetdevUp 0 ?k) = Acquire Rtnl # Acquire CardsLock # r"
    by (simp add: netdev_event_locks_def vif_locks_def locked_def)
  let ?p = "Acquire (CardLock 0) # p" and ?r = "Acquire CardsLock # r"
  let ?t = "[([], Acquire CardsLock # ?p), ([], Acquire (CardLock 0) # q), ([], Acquire Rtnl # ?r)]"
  let ?t1 = "[([CardsLock], ?p), ([], Acquire (CardLock 0) # q), ([], Acquire Rtnl # ?r)]"
  let ?t2 = "[([CardsLock], ?p), ([CardLock 0], q), ([], Acquire Rtnl # ?r)]"
  let ?t3 = "[([CardsLock], ?p), ([CardLock 0], q), ([Rtnl], ?r)]"
  have s1: "lock_step ?t ?t1" using lock_step.Take [of 0 ?t "[]" CardsLock ?p] by simp
  have s2: "lock_step ?t1 ?t2" using lock_step.Take [of 1 ?t1 "[]" "CardLock 0" q] by simp
  have s3: "lock_step ?t2 ?t3" using lock_step.Take [of 2 ?t2 "[]" Rtnl ?r] by simp
  have start: "start (map handler_locks hs) = ?t" by (simp only: hs_def list.map p q r start_def)
  have run: "lock_run (start (map handler_locks hs)) (Suc (Suc (Suc 0))) ?t3"
    unfolding start by (rule lock_run.Next [OF lock_run.Next [OF lock_run.Next [OF lock_run.Start s1] s2] s3])
  have "Suc (Suc (Suc 0)) \<noteq> length (concat (map handler_locks hs))" by (simp only: hs_def list.map p q r) simp
  then have "\<exists>ts'. lock_step ?t3 ts'"
    using handlers_never_deadlock [OF _ run] by (simp add: hs_def)
  then show ?thesis using run unfolding hs_def by (intro exI [of _ ?t3]) simp
qed

lemma event_locks_Cons:
  "ev \<noteq> NetdevOther \<Longrightarrow> \<exists>p'. netdev_event_locks ev p k = Acquire CardsLock # p'"
  by (cases ev) (simp_all add: netdev_event_locks_def find_card_locks_def vif_locks_def locked_def)

text \<open>Two threads that wait for locks that are held.\<close>

lemma stuck_pair:
  assumes "l \<in> set h \<union> set h'" "l' \<in> set h \<union> set h'"
  shows "\<not> lock_step [(h, Acquire l # p), (h', Acquire l' # p')] ts"
proof
  assume "lock_step [(h, Acquire l # p), (h', Acquire l' # p')] ts"
  then show False
  proof cases
    case (Take i held m q)
    then have "i = 0 \<or> i = 1" by auto
    then show False using Take assms by auto
  next
    case (Drop i held m q)
    then have "i = 0 \<or> i = 1" by auto
    then show False using Drop by auto
  qed
qed

text \<open>C22: When an interface of the primary's wiphy is added or removed by a caller that holds the lock of the wiphy,
  the notifier and the kernel loop can block each other: the notifier waits for the list of cards and
  the loop, which holds it, for the wiphy.\<close>

theorem notifier_under_wiphy_lock_deadlocks:
  assumes "find_primary_locked k = Some i" "cd_vif (km_cards k ! i) \<noteq> None" "ev \<noteq> NetdevOther"
  shows "\<exists>ts. lock_run (start [event_locks_under_wiphy ev (cd_wiphy (km_cards k ! i)) k', sync_work_locks k]) 4 ts \<and>
     list_all (\<lambda>t. snd t \<noteq> []) ts \<and> (\<nexists>ts'. lock_step ts ts')"
proof -
  let ?p = "cd_wiphy (km_cards k ! i)"
  obtain e where "netdev_event_locks ev ?p k' = Acquire CardsLock # e" using event_locks_Cons [OF assms(3)] by blast
  then obtain q where q: "event_locks_under_wiphy ev ?p k' = Acquire Rtnl # Acquire (WiphyLock ?p) # Acquire CardsLock # q"
    by (simp add: event_locks_under_wiphy_def locked_def)
  obtain r where r: "sync_work_locks k = Acquire CardsLock # Acquire (CardLock ?p) # Acquire (WiphyLock ?p) # r"
    using assms(1,2) by (auto simp: sync_work_locks_def locked_def card_locks_def Let_def)
  let ?q = "Acquire CardsLock # q" and ?r = "Acquire (WiphyLock ?p) # r"
  let ?t = "[([], Acquire Rtnl # Acquire (WiphyLock ?p) # ?q), ([], Acquire CardsLock # Acquire (CardLock ?p) # ?r)]"
  let ?t1 = "[([Rtnl], Acquire (WiphyLock ?p) # ?q), ([], Acquire CardsLock # Acquire (CardLock ?p) # ?r)]"
  let ?t2 = "[([WiphyLock ?p, Rtnl], ?q), ([], Acquire CardsLock # Acquire (CardLock ?p) # ?r)]"
  let ?t3 = "[([WiphyLock ?p, Rtnl], ?q), ([CardsLock], Acquire (CardLock ?p) # ?r)]"
  let ?t4 = "[([WiphyLock ?p, Rtnl], ?q), ([CardLock ?p, CardsLock], ?r)]"
  have s1: "lock_step ?t ?t1" using lock_step.Take [of 0 ?t "[]" Rtnl "Acquire (WiphyLock ?p) # ?q"] by simp
  have s2: "lock_step ?t1 ?t2" using lock_step.Take [of 0 ?t1 "[Rtnl]" "WiphyLock ?p" ?q] by simp
  have s3: "lock_step ?t2 ?t3" using lock_step.Take [of 1 ?t2 "[]" CardsLock "Acquire (CardLock ?p) # ?r"] by simp
  have s4: "lock_step ?t3 ?t4" using lock_step.Take [of 1 ?t3 "[CardsLock]" "CardLock ?p" ?r] by simp
  have "lock_run ?t (Suc (Suc (Suc (Suc 0)))) ?t4"
    by (rule lock_run.Next [OF lock_run.Next [OF lock_run.Next [OF lock_run.Next [OF lock_run.Start s1] s2] s3] s4])
  moreover have "start [event_locks_under_wiphy ev ?p k', sync_work_locks k] = ?t" by (simp add: start_def q r)
  moreover have "\<nexists>ts'. lock_step ?t4 ts'" using stuck_pair by simp
  ultimately show ?thesis by (intro exI [of _ ?t4]) (simp add: numeral_eq_Suc)
qed

theorem notifier_under_wiphy_lock_deadlocks_witness:
  "\<exists>ts. lock_run (start [event_locks_under_wiphy NetdevRegister 0 (module_of [radio_card 0 (Some 7)]),
       sync_work_locks (module_of [radio_card 0 (Some 7)])]) 4 ts \<and>
     list_all (\<lambda>t. snd t \<noteq> []) ts \<and> (\<nexists>ts'. lock_step ts ts')"
  using notifier_under_wiphy_lock_deadlocks [of "module_of [radio_card 0 (Some 7)]" 0 NetdevRegister "module_of [radio_card 0 (Some 7)]"]
  by (simp add: find_primary_locked_def)

end
