(* ===== verification/KernelParams.thy ===== *)
theory KernelParams
  imports KernelModule Daemon
begin

text \<open>
  From the daemon to the kernel loop: the parameters that load\_tsf\_ptp (module\_loader.rs) gives to
  modprobe or insmod, the parameters that the module declares (kernel/tsf\_ptp.c), and which card
  the loop of mode B then follows, against the card that the daemon has selected (config\_gen.rs).
\<close>

section \<open>Module parameters\<close>

text \<open>
  The static values of the module.
\<close>

definition module_defaults :: kmod where
  "module_defaults =
     \<lparr>km_cards = [], km_threshold_ns = 5000, km_sync_mode = 0, km_sync_primary = [], km_interval_ms = 10,
      km_skip_count = 0, km_apply_count = 0, km_sync_count = 0, km_sync_error_count = 0, km_work = None,
      km_chardev_registered = False, km_clocks = [], km_misc = False, km_notifier = False\<rparr>"

definition strip_prefix :: "string \<Rightarrow> string \<Rightarrow> string option" where
  "strip_prefix p s = (if starts_with p s then Some (drop (length p) s) else None)"

text \<open>
  One argument of modprobe on the declared parameters; \<open>kstrtouint\<close> is the kernel's conversion of a
  number, whose failure fails the loading, as does a string of more than 1024 characters; an argument
  that is no parameter is ignored.
\<close>

definition set_module_param :: "(string \<Rightarrow> u32 option) \<Rightarrow> string \<Rightarrow> kmod \<Rightarrow> kmod option" where
  "set_module_param kstrtouint arg k =
     (case strip_prefix ''adjtime_threshold_ns='' arg of
        Some v \<Rightarrow> map_option (\<lambda>n. k\<lparr>km_threshold_ns := n\<rparr>) (kstrtouint v)
      | None \<Rightarrow>
     (case strip_prefix ''sync_mode='' arg of
        Some v \<Rightarrow> map_option (\<lambda>n. k\<lparr>km_sync_mode := n\<rparr>) (kstrtouint v)
      | None \<Rightarrow>
     (case strip_prefix ''sync_primary='' arg of
        Some v \<Rightarrow> if length v \<le> 1024 then Some (k\<lparr>km_sync_primary := bytes_of v\<rparr>) else None
      | None \<Rightarrow>
     (case strip_prefix ''sync_interval_ms='' arg of
        Some v \<Rightarrow> map_option (\<lambda>n. k\<lparr>km_interval_ms := n\<rparr>) (kstrtouint v)
      | None \<Rightarrow> Some k))))"

fun set_module_params :: "(string \<Rightarrow> u32 option) \<Rightarrow> string list \<Rightarrow> kmod \<Rightarrow> kmod option" where
  "set_module_params kstrtouint [] k = Some k"
| "set_module_params kstrtouint (arg # args) k =
     (case set_module_param kstrtouint arg k of None \<Rightarrow> None | Some k \<Rightarrow> set_module_params kstrtouint args k)"

text \<open>What is documented of the conversion: a decimal number is read, one that does not fit is refused.\<close>

locale uint_params =
  fixes kstrtouint :: "string \<Rightarrow> u32 option"
  assumes fits: "n < 2 ^ 32 \<Longrightarrow> kstrtouint (show_nat n) = Some (word_of_nat n)"
    and too_large: "2 ^ 32 \<le> n \<Longrightarrow> kstrtouint (show_nat n) = None"

lemma strip_prefix_append [simp]: "strip_prefix p (p @ s) = Some s"
  by (simp add: strip_prefix_def)

context uint_params begin

lemma fits_word: "kstrtouint (show_nat (unat (w :: u32))) = Some w"
proof -
  have "unat w < 2 ^ 32" using unsigned_less [of w] by simp
  then show ?thesis using fits [of "unat w"] by simp
qed

lemma set_param:
  "set_module_param kstrtouint (''adjtime_threshold_ns='' @ v) k = map_option (\<lambda>n. k\<lparr>km_threshold_ns := n\<rparr>) (kstrtouint v)"
  "set_module_param kstrtouint (''sync_mode='' @ v) k = map_option (\<lambda>n. k\<lparr>km_sync_mode := n\<rparr>) (kstrtouint v)"
  "set_module_param kstrtouint (''sync_primary='' @ v) k =
     (if length v \<le> 1024 then Some (k\<lparr>km_sync_primary := bytes_of v\<rparr>) else None)"
  "set_module_param kstrtouint (''sync_interval_ms='' @ v) k = map_option (\<lambda>n. k\<lparr>km_interval_ms := n\<rparr>) (kstrtouint v)"
  by (simp_all add: set_module_param_def strip_prefix_def starts_with_def)

lemma set_threshold:
  "kstrtouint (show_nat (unat (t :: u64))) = (if unat t < 2 ^ 32 then Some (ucast t) else None)"
proof (cases "unat t < 2 ^ 32")
  case True
  then show ?thesis using fits [of "unat t"] by simp
next
  case False
  then show ?thesis using too_large [of "unat t"] by simp
qed

lemma loader_params:
  "set_module_params kstrtouint (tsf_ptp_params t mode prim (Some ms)) k =
     (if unat t < 2 ^ 32 \<and> (prim = None \<or> prim = Some ''auto'' \<or> length (the prim) \<le> 1024)
      then Some (k\<lparr>km_threshold_ns := ucast t, km_sync_mode := as_kernel_param mode,
                   km_sync_primary := (case prim of Some p \<Rightarrow> if p \<noteq> [] \<and> p \<noteq> ''auto'' then bytes_of p else km_sync_primary k
                                       | None \<Rightarrow> km_sync_primary k),
                   km_interval_ms := ms\<rparr>)
      else None)"
  by (cases prim) (simp_all add: tsf_ptp_params_def set_param [simplified] set_threshold fits_word)

end

text \<open>The conversion of decimal numbers.\<close>

definition decimal_uint :: "string \<Rightarrow> u32 option" where
  "decimal_uint s =
     (case parse_digits s of None \<Rightarrow> None | Some n \<Rightarrow> if n < 2 ^ 32 then Some (word_of_nat n) else None)"

interpretation decimal: uint_params decimal_uint
  by unfold_locales (simp_all add: decimal_uint_def parse_digits_show)

section \<open>The loop after loading\<close>

text \<open>The module loaded with the arguments of the daemon for mode B.\<close>

definition primary_bytes :: "string option \<Rightarrow> u8 list" where
  "primary_bytes prim = (case prim of Some p \<Rightarrow> if p \<noteq> [] \<and> p \<noteq> ''auto'' then bytes_of p else [] | None \<Rightarrow> [])"

lemma mode_b_loaded:
  assumes "uint_params kst" "set_module_params kst (tsf_ptp_params thr Kernel prim (Some ms)) module_defaults = Some k0"
    "distinct (map nd_id devs)" "replay_ok devs replay" "tsf_ptp_init api replay devs k0 w0 = (n, k, w)"
  shows "cards_ok api devs k \<and> km_work k \<noteq> None \<and> km_threshold_ns k = ucast thr \<and> km_interval_ms k = ms \<and>
     km_sync_primary k = primary_bytes prim"
proof -
  have k0: "k0 = module_defaults\<lparr>km_threshold_ns := ucast thr, km_sync_mode := 1,
       km_sync_primary := primary_bytes prim, km_interval_ms := ms\<rparr>"
    using assms(2)
    by (cases prim) (auto simp: uint_params.loader_params [OF assms(1)] as_kernel_param_def module_defaults_def primary_bytes_def split: if_splits)
  then have "unloaded k0" "km_sync_mode k0 = 1" by (simp_all add: unloaded_def module_defaults_def)
  then have ok: "cards_ok api devs k" "services_ok 1 k" "same_params k0 k"
    using init_ok [OF _ assms(3,4,5)] by simp_all
  then show ?thesis using k0 by (simp add: services_ok_def same_params_def)
qed

text \<open>The first run of its work.\<close>

lemma mode_b_first_cycle:
  assumes "cards_ok api devs k" "km_work k \<noteq> None"
    "tsf_driver api tsf_at" "\<forall>c \<in> set (km_cards k). settable c"
    "\<forall>c \<in> set (km_cards k). \<forall>t. card_tsf tsf_at w c = Some t \<longrightarrow> tsf_in_range t"
    "find_primary_locked k = Some i" "card_tsf tsf_at w (km_cards k ! i) = Some p"
    "run_sync_work api k w = (k', w')"
  shows "map (card_tsf tsf_at w') (km_cards k') = map (map_option (aligned (km_threshold_ns k) p) \<circ> card_tsf tsf_at w) (km_cards k) \<and>
    km_work k' = Some (if km_interval_ms k = 0 then 10 else km_interval_ms k)"
proof -
  have run: "sync_work_fn api (k\<lparr>km_work := None\<rparr>) w = (k', w')" using assms(2,8) by (auto simp: run_sync_work_def)
  have "find_primary_locked (k\<lparr>km_work := None\<rparr>) = find_primary_locked k" by (simp add: find_primary_locked_def Let_def)
  then have f: "find_primary_locked (k\<lparr>km_work := None\<rparr>) = Some i" using assms(6) by simp
  have "km_work k' = Some (if km_interval_ms k = 0 then 10 else km_interval_ms k)"
    using run by (auto simp: sync_work_fn_def resched_def schedule_delayed_work_def Let_def split: option.splits prod.splits)
  then show ?thesis
    using tsf_driver.sync_work_correct [OF assms(3) _ _ _ f _ run, of p] assms(1,4,5,7) by (simp add: cards_ok_def)
qed

section \<open>An example\<close>

text \<open>Two cards, of which the second has a native clock, and a machine where both are up when the module is loaded.\<close>

definition two_clocks :: "wifi_card list" where
  "two_clocks =
     [\<lparr>wc_phy = ''phy0'', wc_driver = ''mt7921e'', wc_ptp_clock = Some ''/dev/ptp0'', wc_ptp_source = TsfPtp, wc_can_set_tsf = True\<rparr>,
      \<lparr>wc_phy = ''phy1'', wc_driver = ''iwlwifi'', wc_ptp_clock = Some ''/dev/ptp1'', wc_ptp_source = Native, wc_can_set_tsf = True\<rparr>]"

definition loaded_for_b :: "string option \<Rightarrow> kmod" where
  "loaded_for_b prim =
     module_defaults\<lparr>km_sync_mode := 1, km_sync_primary := primary_bytes prim, km_notifier := True, km_clocks := [0, 1],
       km_cards := [radio_card 0 (Some 3), radio_card 1 (Some 4)], km_work := Some 10\<rparr>"

lemma example_params:
  "prim = None \<or> prim = Some ''auto'' \<or> length (the prim) \<le> 1024 \<Longrightarrow>
   set_module_params decimal_uint (tsf_ptp_params 5000 Kernel prim (Some 10)) module_defaults =
     Some (module_defaults\<lparr>km_sync_mode := 1, km_sync_primary := primary_bytes prim\<rparr>)"
  by (cases prim) (simp_all add: decimal.loader_params as_kernel_param_def module_defaults_def primary_bytes_def)

lemma example_init_b:
  "tsf_ptp_init wifi_api [] [wlan 3 0 True, wlan 4 1 True] (module_defaults\<lparr>km_sync_mode := 1, km_sync_primary := primary_bytes prim\<rparr>)
     three_radios = (2, loaded_for_b prim, three_radios)"
  by (simp add: tsf_ptp_init_def tsf_ptp_probe_def radio_card_new find_card_by_wiphy_def find_index_def capture_vif_def
      sync_start_kernel_def schedule_delayed_work_def Let_def module_defaults_def loaded_for_b_def)
    (simp add: radio_card_def)

section \<open>Properties\<close>





end
