(* ===== verification/Latency.thy ===== *)
theory Latency
  imports Threading
begin

text \<open>
  The single-threaded loop of the debugfs tool on radios whose clocks run while its system calls take
  their time.  The loop compares the master's TSF of one moment with a follower's of a later one and writes the
  result later still; what this leaves of the distance is bounded here by the time of the calls.
\<close>

section \<open>Files that take time\<close>

text \<open>
  A call takes from \<open>lo\<close> to \<open>lat\<close> microseconds, \<open>d1\<close> before the moment at which the radio is read or set and
  \<open>d2\<close> after it, and all radios advance by that time.  A file that takes no time is a special case.
\<close>

locale late_port =
  fixes rd :: "'k \<Rightarrow> 'w \<Rightarrow> (io_error + u64) option \<times> 'w"
    and wr :: "'k \<Rightarrow> u64 \<Rightarrow> 'w \<Rightarrow> (io_error + unit) option \<times> 'w"
    and tsf :: "'k \<Rightarrow> 'w \<Rightarrow> u64"
    and files :: "'k set"
    and ok :: "'w \<Rightarrow> bool"
    and lo lat :: nat
  assumes rd_late: "k \<in> files \<Longrightarrow> ok w \<Longrightarrow>
      \<exists>w' d1 d2. rd k w = (Some (Inr (tsf k w + of_nat d1)), w') \<and> ok w' \<and> lo \<le> d1 + d2 \<and> d1 + d2 \<le> lat \<and>
        (\<forall>j \<in> files. tsf j w' = tsf j w + of_nat (d1 + d2))"
    and wr_late: "k \<in> files \<Longrightarrow> ok w \<Longrightarrow>
      \<exists>w' d1 d2. wr k v w = (Some (Inr ()), w') \<and> ok w' \<and> lo \<le> d1 + d2 \<and> d1 + d2 \<le> lat \<and> tsf k w' = v + of_nat d2 \<and>
        (\<forall>j \<in> files. j \<noteq> k \<longrightarrow> tsf j w' = tsf j w + of_nat (d1 + d2))"

sublocale tsf_port \<subseteq> still: late_port rd wr tsf files ok 0 0
proof (unfold_locales, goal_cases)
  case (1 k w)
  obtain w' where "rd k w = (Some (Inr (tsf k w)), w')" "ok w'" "\<forall>j \<in> files. tsf j w' = tsf j w"
    using rd_ok [OF 1] by blast
  then show ?case by (intro exI [of _ w'] exI [of _ 0]) simp
next
  case (2 k w v)
  obtain w' where "wr k v w = (Some (Inr ()), w')" "ok w'" "tsf k w' = v" "\<forall>j \<in> files. j \<noteq> k \<longrightarrow> tsf j w' = tsf j w"
    using wr_ok [OF 2, of v] by blast
  then show ?case by (intro exI [of _ w'] exI [of _ 0]) simp
qed

locale late_env = late_port rd wr tsf files ok lo lat
  for rd :: "'k \<Rightarrow> 'w \<Rightarrow> (io_error + u64) option \<times> 'w"
    and wr :: "'k \<Rightarrow> u64 \<Rightarrow> 'w \<Rightarrow> (io_error + unit) option \<times> 'w"
    and tsf :: "'k \<Rightarrow> 'w \<Rightarrow> u64"
    and files :: "'k set"
    and ok :: "'w \<Rightarrow> bool"
    and lo lat :: nat +
  fixes x86_64 :: bool and rt :: "'w rt_sys"
  assumes sleep_ticks: "ok w \<Longrightarrow>
    \<exists>w' d. do_clock_nanosleep x86_64 rt ts w = (0, w') \<and> ok w' \<and> (\<forall>j \<in> files. tsf j w' = tsf j w + d)"

sublocale sync_env \<subseteq> still_env: late_env rd wr tsf files ok 0 0 x86_64 rt
  by unfold_locales (rule sleep_ok)

text \<open>The documented behaviour of the kernel behind it, for files that support pread.\<close>

locale late_pread =
  fixes sys :: "'w tsf_sys" and dtsf :: "int \<Rightarrow> 'w \<Rightarrow> u64" and fds :: "int set" and dok :: "'w \<Rightarrow> bool" and lo lat :: nat
  assumes late_line: "fd \<in> fds \<Longrightarrow> dok w \<Longrightarrow> length buf = 64 \<Longrightarrow>
      \<exists>w' d1 d2. sys_pread sys fd buf 0 w = ((19, tsf_line (dtsf fd w + of_nat d1) @ drop 19 buf), w') \<and> dok w' \<and> lo \<le> d1 + d2 \<and> d1 + d2 \<le> lat \<and>
        (\<forall>d \<in> fds. dtsf d w' = dtsf d w + of_nat (d1 + d2))"
    and late_set: "fd \<in> fds \<Longrightarrow> dok w \<Longrightarrow> ds \<noteq> [] \<Longrightarrow> list_all is_ascii_digit ds \<Longrightarrow> dec_val 0 ds < 2 ^ 64 \<Longrightarrow>
      \<exists>w' d1 d2. sys_pwrite sys fd (ds @ [10]) 0 w = (int (length ds + 1), w') \<and> dok w' \<and> lo \<le> d1 + d2 \<and> d1 + d2 \<le> lat \<and>
        dtsf fd w' = word_of_nat (dec_val 0 ds) + of_nat d2 \<and>
        (\<forall>d \<in> fds. d \<noteq> fd \<longrightarrow> dtsf d w' = dtsf d w + of_nat (d1 + d2))"

context late_pread begin

lemma read_tsf_late:
  assumes "file_fd f \<in> fds" "pread_ok f" "dok w"
  shows "\<exists>w' d1 d2. read_tsf sys ssse3 f w = (Some (Inr (dtsf (file_fd f) w + of_nat d1)), w') \<and> dok w' \<and> lo \<le> d1 + d2 \<and> d1 + d2 \<le> lat \<and>
      (\<forall>d \<in> fds. dtsf d w' = dtsf d w + of_nat (d1 + d2))"
proof -
  obtain w' d1 d2 where w': "sys_pread sys (file_fd f) (replicate 64 0) 0 w =
        ((19, tsf_line (dtsf (file_fd f) w + of_nat d1) @ drop 19 (replicate 64 0)), w')" "dok w'" "lo \<le> d1 + d2 \<and> d1 + d2 \<le> lat"
      "\<forall>d \<in> fds. dtsf d w' = dtsf d w + of_nat (d1 + d2)"
    using late_line [OF assms(1,3), of "replicate 64 0"] by auto
  have "read_tsf sys ssse3 f w = (Some (Inr (dtsf (file_fd f) w + of_nat d1)), w')"
    using w'(1) assms(2) by (simp add: read_tsf_def read_raw_def auto_tsf_line)
  with w'(2-4) show ?thesis by blast
qed

lemma write_tsf_late:
  assumes "file_fd f \<in> fds" "pread_ok f" "dok w"
  shows "\<exists>w' d1 d2. write_tsf sys f v w = (Some (Inr ()), w') \<and> dok w' \<and> lo \<le> d1 + d2 \<and> d1 + d2 \<le> lat \<and> dtsf (file_fd f) w' = v + of_nat d2 \<and>
      (\<forall>d \<in> fds. d \<noteq> file_fd f \<longrightarrow> dtsf d w' = dtsf d w + of_nat (d1 + d2))"
proof -
  obtain ds where ds: "dec_line v = ds @ [10]" "ds \<noteq> []" "list_all is_ascii_digit ds" "dec_val 0 ds = unat v"
    by (rule dec_line_digits)
  have "dec_val 0 ds < 2 ^ 64" using ds(4) unsigned_less [of v] by simp
  then obtain w' d1 d2 where w': "sys_pwrite sys (file_fd f) (ds @ [10]) 0 w = (int (length ds + 1), w')" "dok w'" "lo \<le> d1 + d2 \<and> d1 + d2 \<le> lat"
      "dtsf (file_fd f) w' = word_of_nat (dec_val 0 ds) + of_nat d2"
      "\<forall>d \<in> fds. d \<noteq> file_fd f \<longrightarrow> dtsf d w' = dtsf d w + of_nat (d1 + d2)"
    using late_set [OF assms(1,3) ds(2,3)] by blast
  have "write_tsf sys f v w = (Some (Inr ()), w')"
    using w'(1) ds(1) assms(2) by (simp add: write_tsf_line write_raw_def)
  moreover have "dtsf (file_fd f) w' = v + of_nat d2" using w'(4) ds(4) by simp
  ultimately show ?thesis using w'(2,3,5) by blast
qed

end

sublocale late_pread \<subseteq> port: late_port "\<lambda>f. read_tsf sys ssse3 f" "write_tsf sys"
   "\<lambda>f. dtsf (file_fd f)" "{f. file_fd f \<in> fds \<and> pread_ok f}" dok lo lat for ssse3
proof (unfold_locales, goal_cases)
  case (1 k w)
  then obtain w' d1 d2 where "read_tsf sys ssse3 k w = (Some (Inr (dtsf (file_fd k) w + of_nat d1)), w')" "dok w'" "lo \<le> d1 + d2 \<and> d1 + d2 \<le> lat"
      "\<forall>d \<in> fds. dtsf d w' = dtsf d w + of_nat (d1 + d2)"
    using read_tsf_late [of k w ssse3] by auto
  then show ?case by (intro exI [of _ w'] exI [of _ d1] exI [of _ d2]) simp
next
  case (2 k w v)
  then obtain w' d1 d2 where "write_tsf sys k v w = (Some (Inr ()), w')" "dok w'" "lo \<le> d1 + d2 \<and> d1 + d2 \<le> lat" "dtsf (file_fd k) w' = v + of_nat d2"
      "\<forall>d \<in> fds. d \<noteq> file_fd k \<longrightarrow> dtsf d w' = dtsf d w + of_nat (d1 + d2)"
    using write_tsf_late [of k w v] by auto
  with 2 show ?case by (intro exI [of _ w'] exI [of _ d1] exI [of _ d2]) (auto dest: tsf_file_eqI)
qed

section \<open>One correction\<close>

text \<open>
  A follower at distance \<open>e\<close> is read \<open>d1\<close> after the master and written \<open>d\<close> after it.
\<close>

definition late_step :: "controller \<Rightarrow> nat \<Rightarrow> nat \<Rightarrow> int \<Rightarrow> int \<Rightarrow> bool" where
  "late_step c lo l e e' \<longleftrightarrow> (\<exists>d1 d. d1 \<le> d \<and> lo \<le> d \<and> d \<le> l \<and> e' = next_err c (e - int d1) + int d)"

lemma late_step_mono: "late_step c lo l e e' \<Longrightarrow> l \<le> l' \<Longrightarrow> late_step c lo l' e e'"
  unfolding late_step_def using le_trans by blast

lemma scaled_less: "x * 1000000 < 2 ^ 63 \<Longrightarrow> x < (9223372036855 :: int)"
  by simp

lemma tsf_err_minus:
  assumes "\<bar>tsf_err m f\<bar> + int d < 2 ^ 62"
  shows "tsf_err (m - of_nat d) f = tsf_err m f - int d"
proof -
  have "sint (of_nat d :: i64) = int d"
    using assms sint_word_of_int_i64 [of "int d"] by (simp add: in_i64_def)
  moreover have "in_i64 (sint (m - f) - int d)"
    using assms sint_bounds [of "m - f"] unfolding in_i64_def tsf_err_def by (simp add: abs_if split: if_splits)
  ultimately have "sint ((m - f) - of_nat d) = sint (m - f) - int d" by (simp add: sint_sub_exact)
  moreover have "m - of_nat d - f = (m - f) - of_nat d" by simp
  ultimately show ?thesis by (simp only: tsf_err_def)
qed

lemma tsf_err_plus:
  assumes "\<bar>tsf_err m f\<bar> + int d < 2 ^ 62"
  shows "tsf_err (m + of_nat d) f = tsf_err m f + int d"
proof -
  have "sint (of_nat d :: i64) = int d"
    using assms sint_word_of_int_i64 [of "int d"] by (simp add: in_i64_def)
  moreover have "in_i64 (sint (m - f) + int d)"
    using assms sint_bounds [of "m - f"] unfolding in_i64_def tsf_err_def by (simp add: abs_if split: if_splits)
  ultimately have "sint ((m - f) + of_nat d) = sint (m - f) + int d" by (simp add: sint_add_exact)
  moreover have "m + of_nat d - f = (m - f) + of_nat d" by simp
  ultimately show ?thesis by (simp only: tsf_err_def)
qed

lemma tsf_err_shift [simp]: "tsf_err (m + d) (f + d) = tsf_err m f"
  by (simp add: tsf_err_def)

context late_port begin

lemma correct_follower_late:
  assumes k: "k \<in> files" "master \<in> files" "k \<noteq> master" and w: "ok w" and c: "p_controller c"
    and m: "tsf master w = m + of_nat D" and small: "(\<bar>tsf_err (tsf master w) (tsf k w)\<bar> + int (D + 2 * lat)) * 1000000 < 2 ^ 63"
  shows "\<exists>r w' D'. correct_follower Release rd wr k c m w = Some (Some r, c, w') \<and> ok w' \<and> tsf master w' = m + of_nat D' \<and>
     D' \<le> D + 2 * lat \<and> late_step c lo D' (tsf_err (tsf master w) (tsf k w)) (tsf_err (tsf master w') (tsf k w')) \<and>
     (\<forall>j \<in> files. j \<noteq> k \<longrightarrow> tsf_err (tsf master w') (tsf j w') = tsf_err (tsf master w) (tsf j w))"
proof -
  let ?e = "tsf_err (tsf master w) (tsf k w)"
  obtain w1 a1 a2 where w1: "rd k w = (Some (Inr (tsf k w + of_nat a1)), w1)" "ok w1" "lo \<le> a1 + a2 \<and> a1 + a2 \<le> lat"
      "\<forall>j \<in> files. tsf j w1 = tsf j w + of_nat (a1 + a2)"
    using rd_late [OF k(1) w] by blast
  let ?f = "tsf k w + of_nat a1"
  have less: "\<bar>?e\<bar> + int (D + 2 * lat) < 9223372036855" by (rule scaled_less [OF small])
  have "\<bar>?e\<bar> + int (D + a1) < 4611686018427387904" using less w1(3) by linarith
  then have bound: "\<bar>?e\<bar> + int (D + a1) < 2 ^ 62" by simp
  have "m - ?f = tsf master w - of_nat (D + a1) - tsf k w" by (simp add: m)
  then have "tsf_err m ?f = tsf_err (tsf master w - of_nat (D + a1)) (tsf k w)" by (simp only: tsf_err_def)
  then have x: "tsf_err m ?f = ?e - int (D + a1)" by (simp only: tsf_err_minus [OF bound])
  have kp: "0 \<le> sint (kp_ppm c)" "sint (kp_ppm c) \<le> 1000000" using c by (simp_all add: p_controller_def)
  have "\<bar>tsf_err m ?f\<bar> * sint (kp_ppm c) \<le> (\<bar>?e\<bar> + int (D + 2 * lat)) * 1000000"
    unfolding x using kp w1(3) by (intro mult_mono) linarith+
  then have "\<bar>tsf_err m ?f\<bar> * sint (kp_ppm c) < 2 ^ 63" using small by (rule le_less_trans)
  from apply_release [OF c this] obtain s where s: "controller_apply Release c m ?f = Some ((s, m - ?f), c)"
      "tsf_err m (?f + s) = next_err c (tsf_err m ?f)" by blast
  obtain w2 b1 b2 where w2: "wr k (?f + s) w1 = (Some (Inr ()), w2)" "ok w2" "lo \<le> b1 + b2 \<and> b1 + b2 \<le> lat" "tsf k w2 = ?f + s + of_nat b2"
      "\<forall>j \<in> files. j \<noteq> k \<longrightarrow> tsf j w2 = tsf j w1 + of_nat (b1 + b2)"
    using wr_late [OF k(1) w1(2), of "?f + s"] by blast
  have run: "correct_follower Release rd wr k c m w = Some (Some (s, m - ?f), c, w2)"
    by (simp add: correct_follower_def w1(1) s(1) add_i64_def w2(1))
  have other: "tsf j w2 = tsf j w + of_nat (a1 + a2 + b1 + b2)" if "j \<in> files" "j \<noteq> k" for j
    using that w1(4) w2(5) by (simp add: algebra_simps)
  let ?D = "D + (a1 + a2 + b1 + b2)" and ?d = "D + (a1 + a2 + b1)"
  have master: "tsf master w2 = m + of_nat ?D" using other [OF k(2)] k(3) m by (simp add: algebra_simps)
  have "\<bar>next_err c (tsf_err m ?f)\<bar> \<le> \<bar>?e\<bar> + int (D + a1)" using next_err_le [OF c, of "tsf_err m ?f"] x by linarith
  then have "\<bar>tsf_err m (?f + s)\<bar> + int ?d < 4611686018427387904" unfolding s(2) using less w1(3) w2(3) by linarith
  then have b: "\<bar>tsf_err m (?f + s)\<bar> + int ?d < 2 ^ 62" by simp
  have "tsf_err (tsf master w2) (tsf k w2) = tsf_err ((m + of_nat ?d) + of_nat b2) ((?f + s) + of_nat b2)"
    by (simp add: master w2(4) algebra_simps)
  then have "tsf_err (tsf master w2) (tsf k w2) = next_err c (?e - int (D + a1)) + int ?d"
    using tsf_err_plus [OF b] s(2) x by (simp only: tsf_err_shift)
  then have "late_step c lo ?D ?e (tsf_err (tsf master w2) (tsf k w2))"
    unfolding late_step_def using w1(3) by (intro exI [of _ "D + a1"] exI [of _ ?d]) simp
  moreover have "tsf_err (tsf master w2) (tsf j w2) = tsf_err (tsf master w) (tsf j w)" if "j \<in> files" "j \<noteq> k" for j
    using other [OF that] other [OF k(2)] k(3) by simp
  moreover have "?D \<le> D + 2 * lat" using w1(3) w2(3) by simp
  ultimately show ?thesis using run w2(2) master by blast
qed

lemma follow_loop_late:
  assumes "distinct fs" "master \<in> files" "set fs \<subseteq> files - {master}" "ok (s_world st)" "p_controller c"
    "i + length fs \<le> length (s_ctrls st)" "set (s_ctrls st) \<subseteq> {c}"
    "tsf master (s_world st) = m + of_nat D" "D + 2 * lat * length fs \<le> l"
    "\<forall>f \<in> set fs. (\<bar>tsf_err (tsf master (s_world st)) (tsf f (s_world st))\<bar> + int l) * 1000000 < 2 ^ 63"
  shows "\<exists>st'. follow_loop Release rd wr m i fs st = Some st' \<and> ok (s_world st') \<and> s_ctrls st' = s_ctrls st \<and>
     (\<forall>f \<in> set fs. late_step c lo l (tsf_err (tsf master (s_world st)) (tsf f (s_world st))) (tsf_err (tsf master (s_world st')) (tsf f (s_world st')))) \<and>
     (\<forall>j \<in> files - set fs. tsf_err (tsf master (s_world st')) (tsf j (s_world st')) = tsf_err (tsf master (s_world st)) (tsf j (s_world st)))"
  using assms
proof (induction fs arbitrary: i st D)
  case (Cons f fs)
  let ?e = "\<lambda>w j. tsf_err (tsf master w) (tsf j w)"
  have i: "i < length (s_ctrls st)" using Cons.prems(6) by simp
  then have ci: "s_ctrls st ! i = c" using Cons.prems(7) nth_mem [OF i] by blast
  have f: "f \<in> files" "f \<noteq> master" using Cons.prems(3) by auto
  have "int (D + 2 * lat) \<le> int l" using Cons.prems(9) by simp
  then have small: "(\<bar>?e (s_world st) f\<bar> + int (D + 2 * lat)) * 1000000 < 2 ^ 63" using Cons.prems(10) by simp
  obtain r w' D' where w': "correct_follower Release rd wr f c m (s_world st) = Some (Some r, c, w')" "ok w'" "tsf master w' = m + of_nat D'"
      "D' \<le> D + 2 * lat" "late_step c lo D' (?e (s_world st) f) (?e w' f)" "\<forall>j \<in> files. j \<noteq> f \<longrightarrow> ?e w' j = ?e (s_world st) j"
    using correct_follower_late [OF f(1) Cons.prems(2) f(2) Cons.prems(4,5,8) small] by blast
  obtain step err where r: "r = (step, err)" by (cases r)
  obtain stats where stats: "stats_update Release (s_stats st) err step = Some stats"
    by (simp add: stats_update_def add_u64_def split_beta)
  define st1 where "st1 = st\<lparr>s_world := w', s_ctrls := (s_ctrls st)[i := c], s_stats := stats\<rparr>"
  have st1: "s_world st1 = w'" "s_ctrls st1 = s_ctrls st" using ci i by (simp_all add: st1_def) (metis list_update_id)
  have step1: "follow_loop Release rd wr m i (f # fs) st = follow_loop Release rd wr m (i + 1) fs st1"
    using i ci by (simp add: w'(1) r stats st1_def)
  have fs: "\<forall>g \<in> set fs. g \<in> files \<and> g \<noteq> f" using Cons.prems(1,3) by auto
  have D': "D' + 2 * lat * length fs \<le> l" using w'(4) Cons.prems(9) by simp
  have "\<exists>st'. follow_loop Release rd wr m (i + 1) fs st1 = Some st' \<and> ok (s_world st') \<and> s_ctrls st' = s_ctrls st1 \<and>
     (\<forall>g \<in> set fs. late_step c lo l (?e (s_world st1) g) (?e (s_world st') g)) \<and> (\<forall>j \<in> files - set fs. ?e (s_world st') j = ?e (s_world st1) j)"
    using Cons.prems fs w'(2,3,6) D' by (intro Cons.IH) (simp_all add: st1)
  then obtain st' where st': "follow_loop Release rd wr m (i + 1) fs st1 = Some st'" "ok (s_world st')" "s_ctrls st' = s_ctrls st1"
     "\<forall>g \<in> set fs. late_step c lo l (?e w' g) (?e (s_world st') g)" "\<forall>j \<in> files - set fs. ?e (s_world st') j = ?e w' j"
    unfolding st1 by blast
  have "f \<in> files - set fs" using Cons.prems(1) f(1) by auto
  then have "late_step c lo l (?e (s_world st) f) (?e (s_world st') f)"
    using st'(5) late_step_mono [OF w'(5)] D' by simp
  moreover have "\<forall>g \<in> set fs. late_step c lo l (?e (s_world st) g) (?e (s_world st') g)" using st'(4) w'(6) fs by simp
  moreover have "\<forall>j \<in> files - set (f # fs). ?e (s_world st') j = ?e (s_world st) j" using st'(5) w'(6) by auto
  ultimately show ?case using step1 st'(1-3) st1(2) by (intro exI [of _ st']) simp
qed simp

end

section \<open>One cycle and many\<close>

lemma late_step_unit_gain:
  assumes "sint (kp_ppm c) = 1000000" "2 * int l < sint (max_step_us c)" "late_step c lo l e e'"
  shows "int lo \<le> e' \<and> e' \<le> int l \<or> \<bar>e'\<bar> \<le> \<bar>e\<bar> - (sint (max_step_us c) - 2 * int l)"
proof -
  let ?mx = "sint (max_step_us c)"
  obtain d1 d where d: "d1 \<le> d" "lo \<le> d" "d \<le> l" "e' = next_err c (e - int d1) + int d"
    using assms(3) by (auto simp: late_step_def)
  have "0 < ?mx" using assms(2) by linarith
  then have n: "\<bar>next_err c (e - int d1)\<bar> = max 0 (\<bar>e - int d1\<bar> - ?mx)"
    using next_err_unit_gain [OF assms(1), of 1 "e - int d1"] by simp
  show ?thesis
  proof (cases "\<bar>e - int d1\<bar> \<le> ?mx")
    case True
    then have "e' = int d" using n d(4) by simp
    then show ?thesis using d(2,3) by simp
  next
    case False
    then have "\<bar>next_err c (e - int d1)\<bar> = \<bar>e - int d1\<bar> - ?mx" using n by simp
    moreover have "\<bar>e'\<bar> \<le> \<bar>next_err c (e - int d1)\<bar> + int d" unfolding d(4) by linarith
    moreover have "\<bar>e - int d1\<bar> \<le> \<bar>e\<bar> + int d1" by linarith
    ultimately show ?thesis using d(1,3) by linarith
  qed
qed

text \<open>A follower that is at most the time of a cycle late stays so.\<close>

lemma late_step_stays:
  assumes "sint (kp_ppm c) = 1000000" "2 * int l < sint (max_step_us c)" "late_step c lo l e e'" "int lo \<le> e" "e \<le> int l"
  shows "int lo \<le> e' \<and> e' \<le> int l"
proof -
  let ?mx = "sint (max_step_us c)"
  obtain d1 d where d: "d1 \<le> d" "lo \<le> d" "d \<le> l" "e' = next_err c (e - int d1) + int d"
    using assms(3) by (auto simp: late_step_def)
  have mx: "0 < ?mx" "\<bar>e - int d1\<bar> \<le> ?mx" using assms(2,4,5) d(1,3) by linarith+
  then have "next_err c (e - int d1) = 0" using next_err_unit_gain [OF assms(1) mx(1), of 1 "e - int d1"] by simp
  then show ?thesis using d by simp
qed

text \<open>After \<open>n\<close> cycles.\<close>

definition late_bound :: "nat \<Rightarrow> nat \<Rightarrow> int \<Rightarrow> nat \<Rightarrow> int \<Rightarrow> int \<Rightarrow> bool" where
  "late_bound lo l mx n e e' \<longleftrightarrow> int lo \<le> e' \<and> e' \<le> int l \<or> \<bar>e'\<bar> \<le> \<bar>e\<bar> - int n * (mx - 2 * int l)"

lemma late_bound_step:
  assumes "sint (kp_ppm c) = 1000000" "2 * int l < sint (max_step_us c)"
    "late_bound lo l (sint (max_step_us c)) n e e1" "late_step c lo l e1 e2"
  shows "late_bound lo l (sint (max_step_us c)) (Suc n) e e2"
proof (cases "int lo \<le> e1 \<and> e1 \<le> int l")
  case True
  then show ?thesis using late_step_stays [OF assms(1,2,4)] by (simp add: late_bound_def)
next
  case False
  then have "\<bar>e1\<bar> \<le> \<bar>e\<bar> - int n * (sint (max_step_us c) - 2 * int l)" using assms(3) by (auto simp: late_bound_def)
  moreover have "int (Suc n) * (sint (max_step_us c) - 2 * int l) = int n * (sint (max_step_us c) - 2 * int l) + (sint (max_step_us c) - 2 * int l)"
    by (simp add: algebra_simps)
  ultimately show ?thesis using late_step_unit_gain [OF assms(1,2,4)] unfolding late_bound_def by linarith
qed

lemma late_bound_abs:
  assumes "late_bound lo l mx n e e'" "2 * int l < mx"
  shows "\<bar>e'\<bar> \<le> max \<bar>e\<bar> (int l)"
proof -
  have "0 \<le> int n * (mx - 2 * int l)" using assms(2) by simp
  then show ?thesis using assms(1) unfolding late_bound_def by linarith
qed

context late_env begin

lemma single_cycle_late:
  assumes "distinct fs" "master \<in> files" "set fs \<subseteq> files - {master}" "ok (s_world st)" "p_controller c"
    "s_ctrls st = replicate (length fs) c" "l = (2 * length fs + 1) * lat"
    "\<forall>f \<in> set fs. (\<bar>tsf_err (tsf master (s_world st)) (tsf f (s_world st))\<bar> + int l) * 1000000 < 2 ^ 63"
  shows "\<exists>st'. single_cycle Release x86_64 rd wr rt master fs period interval rms_warn st = Some st' \<and>
     ok (s_world st') \<and> s_ctrls st' = replicate (length fs) c \<and>
     (\<forall>f \<in> set fs. late_step c lo l (tsf_err (tsf master (s_world st)) (tsf f (s_world st))) (tsf_err (tsf master (s_world st')) (tsf f (s_world st'))))"
proof -
  let ?e = "\<lambda>w j. tsf_err (tsf master w) (tsf j w)"
  obtain w1 a1 a2 where w1: "rd master (s_world st) = (Some (Inr (tsf master (s_world st) + of_nat a1)), w1)" "ok w1" "lo \<le> a1 + a2 \<and> a1 + a2 \<le> lat"
      "\<forall>j \<in> files. tsf j w1 = tsf j (s_world st) + of_nat (a1 + a2)"
    using rd_late [OF assms(2,4)] by blast
  let ?m = "tsf master (s_world st) + of_nat a1"
  have e1: "?e w1 j = ?e (s_world st) j" if "j \<in> files" for j using w1(4) that assms(2) by simp
  have m: "tsf master w1 = ?m + of_nat a2" using w1(4) assms(2) by (simp add: algebra_simps)
  have D: "a2 + 2 * lat * length fs \<le> l" using w1(3) by (simp add: assms(7) algebra_simps)
  have small: "\<forall>f \<in> set fs. (\<bar>?e w1 f\<bar> + int l) * 1000000 < 2 ^ 63"
  proof
    fix f assume "f \<in> set fs"
    then show "(\<bar>?e w1 f\<bar> + int l) * 1000000 < 2 ^ 63" using assms(3,8) e1 [of f] by auto
  qed
  let ?st1 = "st\<lparr>s_world := w1\<rparr>"
  have "\<exists>st2. follow_loop Release rd wr ?m 0 fs ?st1 = Some st2 \<and> ok (s_world st2) \<and> s_ctrls st2 = s_ctrls ?st1 \<and>
     (\<forall>f \<in> set fs. late_step c lo l (?e (s_world ?st1) f) (?e (s_world st2) f)) \<and>
     (\<forall>j \<in> files - set fs. ?e (s_world st2) j = ?e (s_world ?st1) j)"
  proof (rule follow_loop_late [OF assms(1-3) _ assms(5) _ _ _ D])
    show "set (s_ctrls ?st1) \<subseteq> {c}" using assms(6) by (auto simp: set_replicate_conv_if)
  qed (use w1(2) m small assms(6) in simp_all)
  then obtain st2 where st2: "follow_loop Release rd wr ?m 0 fs ?st1 = Some st2" "ok (s_world st2)" "s_ctrls st2 = s_ctrls st"
      "\<forall>f \<in> set fs. late_step c lo l (?e w1 f) (?e (s_world st2) f)" by auto
  define st3 where "st3 = (case check_stats (s_stats st2) (s_cycle st2 + 1) interval rms_warn ''sync'' of
     (stats, evs) \<Rightarrow> st2\<lparr>s_cycle := s_cycle st2 + 1, s_stats := stats, s_log := s_log st2 @ evs\<rparr>)"
  have st3: "s_world st3 = s_world st2" "s_ctrls st3 = s_ctrls st2" by (simp_all add: st3_def split_beta)
  obtain ts where ts: "advance_deadline Release (s_deadline st3) period = Some ts"
    using advance_loop_release [of "s_deadline st3\<lparr>tv_nsec := tv_nsec (s_deadline st3) + period\<rparr>"]
    by (auto simp: advance_deadline_def add_i64_def)
  obtain w' d where w': "do_clock_nanosleep x86_64 rt ts (s_world st3) = (0, w')" "ok w'" "\<forall>j \<in> files. tsf j w' = tsf j (s_world st3) + d"
    using sleep_ticks [of "s_world st3" ts] st2(2) st3(1) by metis
  have sl: "sleep_until x86_64 rt ts (s_world st3) = Some w'" by (subst sleep_until.simps) (simp add: w'(1))
  let ?st = "st3\<lparr>s_world := w', s_deadline := ts\<rparr>"
  have "single_cycle Release x86_64 rd wr rt master fs period interval rms_warn st = Some ?st"
    using ts sl by (simp add: single_cycle_def w1(1) st2(1) add_u64_def st3_def split_beta pause_def)
  moreover have "late_step c lo l (?e (s_world st) f) (?e w' f)" if f: "f \<in> set fs" for f
  proof -
    have "f \<in> files" using f assms(3) by auto
    then have "?e w' f = ?e (s_world st2) f" "?e w1 f = ?e (s_world st) f" using w'(3) assms(2) st3 e1 by simp_all
    then show ?thesis using st2(4) f by auto
  qed
  ultimately show ?thesis using w'(2) st2(3) st3 assms(6) by (intro exI [of _ ?st]) simp
qed

lemma rounds_late:
  assumes "distinct fs" "master \<in> files" "set fs \<subseteq> files - {master}" "p_controller c" "sint (kp_ppm c) = 1000000"
    "l = (2 * length fs + 1) * lat" "2 * int l < sint (max_step_us c)" "2 * int l * 1000000 < 2 ^ 63"
    "ok (s_world st)" "s_ctrls st = replicate (length fs) c"
    "\<forall>f \<in> set fs. (\<bar>tsf_err (tsf master (s_world st)) (tsf f (s_world st))\<bar> + int l) * 1000000 < 2 ^ 63"
  shows "\<exists>st'. rounds n (single_cycle Release x86_64 rd wr rt master fs period interval rms_warn) st = Some st' \<and>
     ok (s_world st') \<and> s_ctrls st' = replicate (length fs) c \<and>
     (\<forall>f \<in> set fs. late_bound lo l (sint (max_step_us c)) n (tsf_err (tsf master (s_world st)) (tsf f (s_world st)))
        (tsf_err (tsf master (s_world st')) (tsf f (s_world st'))))"
proof (induction n)
  case 0
  then show ?case using assms(9,10) by (simp add: late_bound_def)
next
  case (Suc n)
  let ?e = "\<lambda>st f. tsf_err (tsf master (s_world st)) (tsf f (s_world st))"
  let ?body = "single_cycle Release x86_64 rd wr rt master fs period interval rms_warn"
  obtain st1 where st1: "rounds n ?body st = Some st1" "ok (s_world st1)" "s_ctrls st1 = replicate (length fs) c"
      "\<forall>f \<in> set fs. late_bound lo l (sint (max_step_us c)) n (?e st f) (?e st1 f)"
    using Suc.IH by blast
  have "(\<bar>?e st1 f\<bar> + int l) * 1000000 < 2 ^ 63" if f: "f \<in> set fs" for f
  proof -
    have "\<bar>?e st1 f\<bar> \<le> max \<bar>?e st f\<bar> (int l)" using late_bound_abs [OF _ assms(7)] st1(4) f by blast
    then have "(\<bar>?e st1 f\<bar> + int l) * 1000000 \<le> (max \<bar>?e st f\<bar> (int l) + int l) * 1000000" by simp
    moreover have "(max \<bar>?e st f\<bar> (int l) + int l) * 1000000 < 2 ^ 63"
      using assms(8,11) f by (simp add: max_def)
    ultimately show ?thesis by (rule le_less_trans)
  qed
  then obtain st2 where st2: "?body st1 = Some st2" "ok (s_world st2)" "s_ctrls st2 = replicate (length fs) c"
      "\<forall>f \<in> set fs. late_step c lo l (?e st1 f) (?e st2 f)"
    using single_cycle_late [OF assms(1-3) st1(2) assms(4) st1(3) assms(6), of period interval rms_warn] by blast
  have "rounds (Suc n) ?body st = Some st2" using st1(1) st2(1) by (simp add: rounds_snoc del: rounds.simps)
  then show ?case using st2(2-4) st1(4) late_bound_step [OF assms(5,7)] by blast
qed

end

section \<open>A machine whose calls take five microseconds\<close>

definition advance :: "nat \<Rightarrow> debugfs_sim \<Rightarrow> debugfs_sim" where
  "advance d w = w\<lparr>sim_tsf := (\<lambda>fd. sim_tsf w fd + of_nat d)\<rparr>"

definition late_sys :: "debugfs_sim tsf_sys" where
  "late_sys = (sim_sys True)\<lparr>
     sys_pread := (\<lambda>fd buf off w. case sys_pread (sim_sys True) fd buf off (advance 3 w) of (r, w) \<Rightarrow> (r, advance 2 w)),
     sys_pwrite := (\<lambda>fd bs off w. case sys_pwrite (sim_sys True) fd bs off (advance 3 w) of (r, w) \<Rightarrow> (r, advance 2 w))\<rparr>"

lemma advance_tsf [simp]: "sim_tsf (advance d w) fd = sim_tsf w fd + of_nat d"
  by (simp add: advance_def)

interpretation late_sim: late_pread late_sys "\<lambda>fd w. sim_tsf w fd" UNIV "\<lambda>_. True" 5 5
proof (unfold_locales, goal_cases)
  case (1 fd w buf)
  show ?case
    by (rule exI [of _ "advance 2 (advance 3 w)"], rule exI [of _ 3], rule exI [of _ 2])
      (simp add: late_sys_def sim_sys_def sim_fill_line 1)
next
  case (2 fd w ds)
  show ?case
    by (rule exI [of _ "advance 2 (sim_store fd (ds @ [10]) (advance 3 w))"], rule exI [of _ 3], rule exI [of _ 2])
      (simp add: late_sys_def sim_sys_def sim_store_def takeWhile_digits_line 2)
qed

interpretation late_loop: late_env "read_tsf late_sys ssse3" "write_tsf late_sys"
   "\<lambda>f w. sim_tsf w (file_fd f)" "{f. file_fd f \<in> UNIV \<and> pread_ok f}" "\<lambda>_. True" 5 5 x86_64 sim_rt
  by unfold_locales (auto simp: do_clock_nanosleep_def sim_rt_def Let_def)

section \<open>Properties\<close>

text \<open>C5: With system calls that take from lo to lat microseconds, while all radios run on, in a release build and
  without the Kalman filter, n cycles of the single-threaded loop at unit gain never fail, and bring every follower in
  each cycle at least max_step_us - 2 l microseconds nearer to the master, l being the time of the calls of one cycle,
  until it is behind the master by at least lo and at most l, where it stays: the loop never takes the time between its
  read of the master and its write of the follower into account.  The step limit must exceed 2 l, and
  (|error| + l) * 10^6 must be below 2^63.\<close>

theorem loop_lags_by_call_time:
  assumes "late_env (read_tsf sys ssse3) (write_tsf sys) tsf files ok lo lat x86_64 rt"
    and "distinct fs" "master \<in> files" "set fs \<subseteq> files - {master}" "ok (s_world st)"
    and "p_controller c" "sint (kp_ppm c) = 1000000" "s_ctrls st = replicate (length fs) c"
    and "l = (2 * length fs + 1) * lat" "2 * int l < sint (max_step_us c)" "2 * int l * 1000000 < 2 ^ 63"
    and "\<forall>f \<in> set fs. (\<bar>tsf_err (tsf master (s_world st)) (tsf f (s_world st))\<bar> + int l) * 1000000 < 2 ^ 63"
  shows "\<exists>st'. rounds n (single_cycle Release x86_64 (read_tsf sys ssse3) (write_tsf sys) rt master fs
        period interval rms_warn) st = Some st' \<and>
     (\<forall>f \<in> set fs. let e = tsf_err (tsf master (s_world st)) (tsf f (s_world st));
                      e' = tsf_err (tsf master (s_world st')) (tsf f (s_world st'))
                  in int lo \<le> e' \<and> e' \<le> int l \<or> \<bar>e'\<bar> \<le> \<bar>e\<bar> - int n * (sint (max_step_us c) - 2 * int l))"
  using late_env.rounds_late [OF assms(1-4,6,7,9-11,5,8,12), of n period interval rms_warn]
  unfolding late_bound_def Let_def by blast

theorem loop_lags_by_call_time_witness:
  "\<exists>st'. rounds 3 (single_cycle Release True (read_tsf late_sys True) (write_tsf late_sys) sim_rt
        \<lparr>file_fd = 3, pread_ok = True\<rparr> [\<lparr>file_fd = 4, pread_ok = True\<rparr>] 10000000 0 0)
       \<lparr>s_world = \<lparr>sim_tsf = (\<lambda>fd. if fd = 3 then 1000400 else 1000000), sim_off = (\<lambda>_. 0)\<rparr>,
        s_ctrls = [controller_new 1000000 200 False], s_deadline = \<lparr>tv_sec = 0, tv_nsec = 0\<rparr>, s_stats = stats_new, s_cycle = 0, s_log = []\<rparr> = Some st' \<and>
     5 \<le> tsf_err (sim_tsf (s_world st') 3) (sim_tsf (s_world st') 4) \<and> tsf_err (sim_tsf (s_world st') 3) (sim_tsf (s_world st') 4) \<le> 15"
proof -
  let ?st = "\<lparr>s_world = \<lparr>sim_tsf = (\<lambda>fd. if fd = 3 then 1000400 else 1000000), sim_off = (\<lambda>_. 0)\<rparr>,
    s_ctrls = [controller_new 1000000 200 False], s_deadline = \<lparr>tv_sec = 0, tv_nsec = 0\<rparr>, s_stats = stats_new, s_cycle = 0, s_log = []\<rparr>"
  have "\<exists>st'. rounds 3 (single_cycle Release True (read_tsf late_sys True) (write_tsf late_sys) sim_rt
        \<lparr>file_fd = 3, pread_ok = True\<rparr> [\<lparr>file_fd = 4, pread_ok = True\<rparr>] 10000000 0 0) ?st = Some st' \<and>
     (\<forall>f \<in> set [\<lparr>file_fd = 4, pread_ok = True\<rparr>].
        let e = tsf_err (sim_tsf (s_world ?st) (file_fd \<lparr>file_fd = 3, pread_ok = True\<rparr>)) (sim_tsf (s_world ?st) (file_fd f));
            e' = tsf_err (sim_tsf (s_world st') (file_fd \<lparr>file_fd = 3, pread_ok = True\<rparr>)) (sim_tsf (s_world st') (file_fd f))
        in int 5 \<le> e' \<and> e' \<le> int 15 \<or> \<bar>e'\<bar> \<le> \<bar>e\<bar> - int 3 * (sint (max_step_us (controller_new 1000000 200 False)) - 2 * int 15))"
    by (rule loop_lags_by_call_time [OF late_loop.late_env_axioms])
      (simp_all add: p_controller_def controller_new_def tsf_err_def)
  then show ?thesis by (auto simp: controller_new_def tsf_err_def Let_def)
qed

end
