(* ===== verification/LowLevel.thy ===== *)
theory LowLevel
  imports Prelude
begin

text \<open>
  The lowest layer of the debugfs tool: the system call wrappers in inline assembly
  (src/bin/tsf\_sync\_debugfs/asm/syscall.rs), over the registers of the x86\_64 calling
  convention, their dispatch in debugfs.rs, and the RUNNING flag with its handlers (src/bin/tsf\_sync\_debugfs/signal.rs).  The
  kernel is a parameter: it takes the registers and the state of the world, memory included.
\<close>

section \<open>System calls\<close>

record regs =
  rax :: u64
  rdi :: u64
  rsi :: u64
  rdx :: u64
  r10 :: u64

type_synonym 'w syscall = "regs \<Rightarrow> 'w \<Rightarrow> u64 \<times> 'w"

text \<open>\<open>fd as u64\<close> of an i32 extends its sign.\<close>

definition i32_as_u64 :: "u32 \<Rightarrow> u64" where
  "i32_as_u64 x = scast x"

definition raw_pread64 :: "'w syscall \<Rightarrow> u32 \<Rightarrow> u64 \<Rightarrow> u64 \<Rightarrow> i64 \<Rightarrow> 'w \<Rightarrow> i64 \<times> 'w" where
  "raw_pread64 syscall fd buf count offset w =
     syscall \<lparr>rax = 17, rdi = i32_as_u64 fd, rsi = buf, rdx = count, r10 = offset\<rparr> w"

definition raw_pwrite64 :: "'w syscall \<Rightarrow> u32 \<Rightarrow> u64 \<Rightarrow> u64 \<Rightarrow> i64 \<Rightarrow> 'w \<Rightarrow> i64 \<times> 'w" where
  "raw_pwrite64 syscall fd buf count offset w =
     syscall \<lparr>rax = 18, rdi = i32_as_u64 fd, rsi = buf, rdx = count, r10 = offset\<rparr> w"

definition raw_clock_nanosleep :: "'w syscall \<Rightarrow> u32 \<Rightarrow> u32 \<Rightarrow> u64 \<Rightarrow> 'w \<Rightarrow> u32 \<times> 'w" where
  "raw_clock_nanosleep syscall clockid flags rqtp w =
     apfst ucast (syscall \<lparr>rax = 230, rdi = i32_as_u64 clockid, rsi = i32_as_u64 flags, rdx = rqtp, r10 = 0\<rparr> w)"

text \<open>
  The kernel returns a negated error number in \<open>rax\<close>; the 32-bit result keeps it, so the sleep
  never returns the positive error number that its documentation speaks of.
\<close>

lemma raw_clock_nanosleep_errno:
  assumes "syscall \<lparr>rax = 230, rdi = i32_as_u64 c, rsi = i32_as_u64 f, rdx = p, r10 = 0\<rparr> w = (- word_of_nat e, w')"
    and "0 < e" "e \<le> 4095"
  shows "sint (fst (raw_clock_nanosleep syscall c f p w)) = - int e"
proof -
  have "ucast (word_of_int (- int e) :: u64) = (word_of_int (- int e) :: u32)"
    by (simp only: unsigned_of_int) (simp add: word_of_int_eq_iff take_bit_take_bit del: of_int_minus of_int_of_nat_eq)
  then have "fst (raw_clock_nanosleep syscall c f p w) = word_of_int (- int e)"
    using assms(1) by (simp add: raw_clock_nanosleep_def)
  moreover have "sint (word_of_int (- int e) :: u32) = - int e"
    using assms(2,3) by (simp only: signed_of_int) (simp add: signed_take_bit_int_eq_self)
  ultimately show ?thesis by simp
qed

text \<open>
  The dispatch of debugfs.rs: the inline system call on x86\_64, libc with the error number taken
  from errno on other machines.  \<open>libc\<close> stands for the function of libc, \<open>errno\<close> for what
  \_\_errno\_location points to.
\<close>

datatype arch = X86_64 | OtherArch

type_synonym 'w libc_rw = "u32 \<Rightarrow> u64 \<Rightarrow> u64 \<Rightarrow> i64 \<Rightarrow> 'w \<Rightarrow> i64 \<times> 'w"

definition do_pread :: "arch \<Rightarrow> 'w syscall \<Rightarrow> 'w libc_rw \<Rightarrow> ('w \<Rightarrow> u32) \<Rightarrow> 'w libc_rw" where
  "do_pread arch syscall libc errno fd buf count offset w =
     (case arch of
        X86_64 \<Rightarrow> raw_pread64 syscall fd buf count offset w
      | OtherArch \<Rightarrow>
          (let (r, w) = libc fd buf count offset w in (if r <s 0 then - scast (errno w) else r, w)))"

definition do_pwrite :: "arch \<Rightarrow> 'w syscall \<Rightarrow> 'w libc_rw \<Rightarrow> ('w \<Rightarrow> u32) \<Rightarrow> 'w libc_rw" where
  "do_pwrite arch syscall libc errno fd buf count offset w =
     (case arch of
        X86_64 \<Rightarrow> raw_pwrite64 syscall fd buf count offset w
      | OtherArch \<Rightarrow>
          (let (r, w) = libc fd buf count offset w in (if r <s 0 then - scast (errno w) else r, w)))"

text \<open>What libc makes of the result of the kernel: -1 and errno for an error.\<close>

definition libc_result :: "i64 \<Rightarrow> i64 \<times> u32 \<Rightarrow> bool" where
  "libc_result r res \<longleftrightarrow>
     (if - 4095 \<le> sint r \<and> sint r < 0 then res = (- 1, ucast (- r)) else 0 \<le> sint r \<and> fst res = r)"

lemma errno_back:
  assumes "- 4095 \<le> sint (r :: i64)" "sint r < 0"
  shows "- scast (ucast (- r) :: u32) = r"
proof -
  define e where "e = - sint r"
  have r: "r = word_of_int (- e)" by (simp add: e_def)
  have e: "0 < e" "e \<le> 4095" using assms by (simp_all add: e_def)
  have "ucast (word_of_int e :: u64) = (word_of_int e :: u32)"
    by (simp only: unsigned_of_int) (simp add: word_of_int_eq_iff take_bit_take_bit)
  moreover have "scast (word_of_int e :: u32) = (word_of_int e :: u64)"
    using e by (simp only: signed_of_int) (simp add: signed_take_bit_int_eq_self)
  ultimately show ?thesis unfolding r by simp
qed

text \<open>The two variants return the same: a count, or a negated error number.\<close>

lemma do_pread_arch:
  assumes "raw_pread64 syscall fd buf count offset w = (r, w1)" "libc fd buf count offset w = (r', w2)"
    "libc_result r (r', errno w2)"
  shows "fst (do_pread OtherArch syscall libc errno fd buf count offset w) = fst (do_pread X86_64 syscall libc errno fd buf count offset w)"
  using assms errno_back [of r] by (auto simp: do_pread_def libc_result_def word_sless_alt split: if_splits)

lemma do_pwrite_arch:
  assumes "raw_pwrite64 syscall fd buf count offset w = (r, w1)" "libc fd buf count offset w = (r', w2)"
    "libc_result r (r', errno w2)"
  shows "fst (do_pwrite OtherArch syscall libc errno fd buf count offset w) = fst (do_pwrite X86_64 syscall libc errno fd buf count offset w)"
  using assms errno_back [of r] by (auto simp: do_pwrite_def libc_result_def word_sless_alt split: if_splits)

section \<open>Signals\<close>

datatype handler = DefaultAction | StoreFalse

record signals =
  sg_int :: handler
  sg_term :: handler
  sg_running :: bool

definition signals_init :: signals where
  "signals_init = \<lparr>sg_int = DefaultAction, sg_term = DefaultAction, sg_running = True\<rparr>"

definition install_handler :: "signals \<Rightarrow> signals" where
  "install_handler s = s\<lparr>sg_int := StoreFalse, sg_term := StoreFalse\<rparr>"

definition signal_store :: "signals \<Rightarrow> signals" where
  "signal_store s = s\<lparr>sg_running := False\<rparr>"

text \<open>Delivery of SIGINT or SIGTERM: the default action ends the process.\<close>

definition deliver :: "handler \<Rightarrow> signals \<Rightarrow> signals option" where
  "deliver h s = (case h of DefaultAction \<Rightarrow> None | StoreFalse \<Rightarrow> Some (signal_store s))"

lemma handler_keeps_process:
  "deliver (sg_int (install_handler s)) s = Some (signal_store s)"
  "deliver (sg_term (install_handler s)) s = Some (signal_store s)"
  "\<not> sg_running (signal_store s)"
  by (simp_all add: deliver_def install_handler_def signal_store_def)

end
