(* ===== verification/ParallelShutdown.thy ===== *)
theory ParallelShutdown
  imports Parallel
begin

text \<open>
  What a termination signal does to the parallel mode (run\_parallel in threading.rs) while the
  threads are between the two barriers: in no continuation does the sampler get past its last wait
  for the workers, and every continuation comes to a stop.
\<close>

section \<open>States that cannot end\<close>

text \<open>
  RUNNING is clear, and either the threads are still between the barriers, or every worker is past
  its last arrival at the first one.
\<close>

definition past_loop :: "worker \<Rightarrow> bool" where
  "past_loop wk \<longleftrightarrow> w_pc wk \<in> {WTest, WDone, WPanicked}"

definition doomed :: "nat \<Rightarrow> 'w par_state \<Rightarrow> bool" where
  "doomed n s \<longleftrightarrow> par_inv n s \<and> 0 < n \<and> \<not> p_running s \<and>
     (p_sampler s \<in> {SArrive2, SWait2} \<or>
      p_sampler s \<in> {SPost, STest, SFinal, SFinalWait, SPanicked} \<and> list_all past_loop (p_workers s))"

text \<open>The steps that are left, for each thread.\<close>

fun worker_left :: "worker_pc \<Rightarrow> nat" where
  "worker_left WLoad = 5"
| "worker_left (WCorrect m) = 4"
| "worker_left WArrive2 = 3"
| "worker_left WWait2 = 2"
| "worker_left WTest = 1"
| "worker_left WRecheck = 1"
| "worker_left _ = 0"

fun sampler_left :: "sampler_pc \<Rightarrow> nat" where
  "sampler_left SArrive2 = 6"
| "sampler_left SWait2 = 5"
| "sampler_left SPost = 4"
| "sampler_left STest = 3"
| "sampler_left SFinal = 2"
| "sampler_left SFinalWait = 1"
| "sampler_left _ = 0"

definition left_over :: "'w par_state \<Rightarrow> nat" where
  "left_over s = sampler_left (p_sampler s) + (\<Sum>wk\<leftarrow>p_workers s. worker_left (w_pc wk))"

lemma left_over_set_worker:
  assumes "i < length (p_workers s)" "worker_left (w_pc wk) < worker_left (w_pc (p_workers s ! i))"
  shows "left_over (set_worker i wk s) < left_over s"
proof -
  let ?f = "\<lambda>wk. worker_left (w_pc wk)"
  have "sum_list (map ?f ((p_workers s)[i := wk])) + ?f (p_workers s ! i) = sum_list (map ?f (p_workers s)) + ?f wk"
    using assms(1) sum_list_update [of i "map ?f (p_workers s)" "?f wk"] elem_le_sum_list [of i "map ?f (p_workers s)"]
    by (simp add: map_update)
  then show ?thesis using assms(2) by (simp add: left_over_def set_worker_def)
qed

text \<open>The last arrival at the second barrier: every worker waits there.\<close>

lemma arrive2_doomed:
  assumes "par_inv n (arrive2 n s)" "0 < n" "\<not> p_running s" "p_sampler s \<in> {SArrive2, SWait2}" "length (p_workers s) = n"
    "p_barrier2 s + 1 = waiting WWait2 (p_workers s) + of_bool (p_sampler s = SWait2)"
  shows "doomed n (arrive2 n s) \<and> left_over (arrive2 n s) \<le> left_over s"
proof (cases "p_barrier2 s + 1 < n + 1")
  case True
  then show ?thesis using assms by (simp add: arrive2_def doomed_def left_over_def)
next
  case False
  then have s: "p_sampler s = SWait2" "waiting WWait2 (p_workers s) = length (p_workers s)"
    using assms(4-6) waiting_le [of WWait2 "p_workers s"] by (auto simp: of_bool_def split: if_splits)
  have all: "list_all (\<lambda>w. w_pc w = WWait2) (p_workers s)" using s(2) by (simp only: waiting_all)
  have r: "arrive2 n s = release2 s" using False by (simp add: arrive2_def)
  have "list_all past_loop (p_workers (release2 s))" using all by (auto simp: release2_def list_all_iff past_loop_def)
  moreover have "(\<Sum>wk\<leftarrow>p_workers (release2 s). worker_left (w_pc wk)) \<le> (\<Sum>wk\<leftarrow>p_workers s. worker_left (w_pc wk))"
    by (simp add: release2_def comp_def, rule sum_list_mono) simp
  ultimately show ?thesis using assms(1-3) s(1) unfolding r
    by (simp add: doomed_def left_over_def) (simp add: release2_def)
qed

lemma doomed_worker:
  assumes "doomed n s" "i < n" "length fs = n" "worker_step pr rd wr fs i s = Some s'"
  shows "doomed n s' \<and> left_over s' < left_over s"
proof -
  let ?wk = "p_workers s ! i"
  have inv: "par_inv n s" and len: "length (p_workers s) = n" and run: "\<not> p_running s" and n: "0 < n"
    using assms(1) by (simp_all add: doomed_def par_inv_def)
  have inv': "par_inv n s'" by (rule worker_step_inv [OF inv assms(2-4)])
  have i: "i < length (p_workers s)" using len assms(2) by simp
  show ?thesis
  proof (cases "p_sampler s \<in> {SArrive2, SWait2}")
    case True
    then have "between s ?wk" using par_inv_worker [OF inv assms(2)] by auto
    then consider "w_pc ?wk = WRecheck" | "w_pc ?wk = WLoad" | m where "w_pc ?wk = WCorrect m" | "w_pc ?wk = WArrive2"
      using assms(4) by (auto simp: between_def worker_step_def Let_def)
    then show ?thesis
    proof cases
      case 1
      then have "s' = goto i WDone s" using assms(4) run by (simp add: worker_step_def Let_def)
      then show ?thesis using 1 i True inv' run n
        by (simp add: doomed_def left_over_set_worker) (auto simp: set_worker_def)
    next
      case 2
      then have "s' = goto i (WCorrect (p_master_tsf s)) s" using assms(4) by (simp add: worker_step_def Let_def)
      then show ?thesis using 2 i True inv' run n
        by (simp add: doomed_def left_over_set_worker) (auto simp: set_worker_def)
    next
      case (3 m)
      from worker_correct [OF 3 assms(4)] obtain w wk where
        s': "s' = set_worker i wk (s\<lparr>p_world := w\<rparr>)" "w_pc wk = WPanicked \<or> w_pc wk = WArrive2" by blast
      have "left_over (set_worker i wk (s\<lparr>p_world := w\<rparr>)) < left_over (s\<lparr>p_world := w\<rparr>)"
        using 3 i s'(2) by (intro left_over_set_worker) auto
      then have "left_over s' < left_over s" by (simp add: s'(1) left_over_def)
      then show ?thesis using True inv' run n unfolding s'(1)
        by (simp add: doomed_def) (auto simp: set_worker_def)
    next
      case 4
      then have s': "s' = arrive2 n (goto i WWait2 s)" using assms(3,4) by (simp add: worker_step_def Let_def)
      have "doomed n s' \<and> left_over s' \<le> left_over (goto i WWait2 s)"
        unfolding s'
      proof (rule arrive2_doomed)
        show "p_barrier2 (goto i WWait2 s) + 1 =
            waiting WWait2 (p_workers (goto i WWait2 s)) + of_bool (p_sampler (goto i WWait2 s) = SWait2)"
          using waiting_update [OF i, of WWait2 "?wk\<lparr>w_pc := WWait2\<rparr>"] 4 inv by (simp add: par_inv_def set_worker_def)
      qed (use inv' s' n run True len in \<open>simp_all add: set_worker_def\<close>)
      moreover have "left_over (goto i WWait2 s) < left_over s" using 4 i by (intro left_over_set_worker) simp_all
      ultimately show ?thesis by simp
    qed
  next
    case False
    then have past: "list_all past_loop (p_workers s)" "p_sampler s \<in> {SPost, STest, SFinal, SFinalWait, SPanicked}"
      using assms(1) by (auto simp: doomed_def)
    then have "past_loop ?wk" using i by (simp add: list_all_length)
    then have pc: "w_pc ?wk = WTest" using assms(4) by (auto simp: past_loop_def worker_step_def Let_def)
    then have s': "s' = goto i WDone s" using assms(4) run by (simp add: worker_step_def Let_def)
    have "list_all past_loop (p_workers s')" using past(1) by (simp add: s' set_worker_def list_all_update past_loop_def)
    then show ?thesis using pc i past(2) inv' run n unfolding s'
      by (simp add: doomed_def left_over_set_worker) (auto simp: set_worker_def)
  qed
qed

lemma doomed_sampler:
  assumes "doomed n s" "sampler_step pr x86 rd rt m n period interval warn s = Some s'"
  shows "doomed n s' \<and> left_over s' < left_over s"
proof -
  have inv: "par_inv n s" and run: "\<not> p_running s" and n: "0 < n" using assms(1) by (simp_all add: doomed_def)
  have inv': "par_inv n s'" by (rule sampler_step_inv [OF inv assms(2)])
  have past: "list_all past_loop (p_workers s)" if "p_sampler s \<notin> {SArrive2, SWait2}" using assms(1) that by (simp add: doomed_def)
  consider "p_sampler s = SArrive2" | "p_sampler s = SPost" | "p_sampler s = STest" | "p_sampler s = SFinal"
    using assms by (auto simp: doomed_def sampler_step_def)
  then show ?thesis
  proof cases
    case 1
    let ?t = "s\<lparr>p_sampler := SWait2\<rparr>"
    have s': "s' = arrive2 n ?t" using assms(2) 1 by (simp add: sampler_step_def)
    have "doomed n s' \<and> left_over s' \<le> left_over ?t"
      unfolding s' by (rule arrive2_doomed) (use inv' s' n run 1 inv in \<open>simp_all add: par_inv_def\<close>)
    then show ?thesis using 1 by (simp add: left_over_def)
  next
    case 2
    have "p_workers s' = p_workers s \<and> \<not> p_running s' \<and> p_sampler s' \<in> {STest, SPanicked}"
      using assms(2) 2 run by (auto simp: sampler_step_def split: prod.splits option.splits)
    then show ?thesis using 2 past inv' n by (auto simp: doomed_def left_over_def)
  next
    case 3
    then show ?thesis using assms(2) past inv' run n by (auto simp: sampler_step_def doomed_def left_over_def)
  next
    case 4
    then have "waiting WWait1 (p_workers s) = 0" using past by (auto simp: waiting_none past_loop_def list_all_iff)
    then have "s' = s\<lparr>p_sampler := SFinalWait, p_barrier1 := 1\<rparr>"
      using assms(2) inv n 4 by (simp add: sampler_step_def arrive1_def par_inv_def)
    then show ?thesis using 4 past inv' run n by (simp add: doomed_def left_over_def)
  qed
qed

lemma doomed_step:
  assumes "doomed (length (a_followers a)) s" "par_step a s s'"
  shows "doomed (length (a_followers a)) s' \<and> left_over s' < left_over s"
  using assms(2)
proof (cases rule: par_step.cases)
  case (worker i)
  then have "i < length (a_followers a)" using assms(1) by (simp add: doomed_def par_inv_def)
  from doomed_worker [OF assms(1) this refl worker(2)] show ?thesis .
next
  case sampler
  from doomed_sampler [OF assms(1) sampler] show ?thesis .
next
  case signal_handler
  then show ?thesis using assms(1) by (simp add: doomed_def)
qed

lemma doomed_reach: "par_reach a s s' \<Longrightarrow> doomed (length (a_followers a)) s \<Longrightarrow> doomed (length (a_followers a)) s'"
  by (induction rule: rtranclp_induct) (use doomed_step in blast)+

lemma doomed_run:
  assumes "(par_step a ^^ k) s s'" "doomed (length (a_followers a)) s"
  shows "k \<le> left_over s"
proof -
  have "doomed (length (a_followers a)) s' \<and> k + left_over s' \<le> left_over s"
    using assms(1)
  proof (induction k arbitrary: s')
    case (Suc k)
    then obtain t where t: "(par_step a ^^ k) s t" "par_step a t s'" by auto
    from Suc.IH [OF t(1)] have IH: "doomed (length (a_followers a)) t" "k + left_over t \<le> left_over s" by simp_all
    from doomed_step [OF IH(1) t(2)] IH(2) show ?case by simp
  qed (use assms(2) in simp)
  then show ?thesis by simp
qed

lemma left_over_le: "left_over s \<le> 6 + 5 * length (p_workers s)"
proof -
  have "worker_left pc \<le> 5" for pc by (cases pc) simp_all
  then have "(\<Sum>wk\<leftarrow>p_workers s. worker_left (w_pc wk)) \<le> (\<Sum>wk\<leftarrow>p_workers s. 5)" by (intro sum_list_mono)
  moreover have "sampler_left (p_sampler s) \<le> 6" by (cases "p_sampler s") simp_all
  ultimately show ?thesis by (simp add: left_over_def sum_list_triv mult.commute)
qed

section \<open>Properties\<close>

text \<open>C6: A termination signal that arrives while a worker is between the two barriers, from its test of RUNNING
  there to its wait at the second, blocks the tool for ever, with any number of followers, in every reachable state
  and whatever the threads do next: no continuation gets the sampler past its last wait for the workers (to
  joining them and returning), and each comes to a standstill after at most 6 steps and 5 for each
  worker.  The workers end, at that test or at their loop test, without arriving at the barrier at which the sampler waits.\<close>

theorem signal_between_barriers_blocks:
  assumes "par_reach a (par_init controllers dl w) s" "length controllers = length (a_followers a)" "p_running s"
    "i < length (a_followers a)" "w_pc (p_workers s ! i) \<in> {WRecheck, WLoad, WCorrect m, WArrive2, WWait2}"
    and signal: "t = s\<lparr>p_running := False\<rparr>"
  shows "par_step a s t \<and>
     (\<forall>t'. par_reach a t t' \<longrightarrow> p_sampler t' \<notin> {SJoin, SDone}) \<and>
     (\<forall>k t'. (par_step a ^^ k) t t' \<longrightarrow> k \<le> 6 + 5 * length (a_followers a))"
proof -
  have inv: "par_inv (length (a_followers a)) s" by (rule par_reach_inv [OF assms(1,2)])
  have "p_sampler s \<notin> {SJoin, SDone}" using inv assms(3) by (auto simp: par_inv_def phase_ok_def)
  then have "p_sampler s \<in> {SArrive2, SWait2}"
    using par_inv_worker [OF inv assms(4)] assms(5) by (auto simp: before_def)
  moreover have "0 < length (a_followers a)" using assms(4) by (cases "a_followers a") simp_all
  ultimately have d: "doomed (length (a_followers a)) t"
    using signal_inv [OF inv] by (simp add: doomed_def signal)
  have "p_sampler t' \<notin> {SJoin, SDone}" if "par_reach a t t'" for t'
    using doomed_reach [OF that d] by (auto simp: doomed_def)
  moreover have "k \<le> 6 + 5 * length (a_followers a)" if "(par_step a ^^ k) t t'" for k t'
    using doomed_run [OF that d] left_over_le [of t] d by (simp add: doomed_def par_inv_def)
  ultimately show ?thesis using par_step.signal_handler [OF assms(3)] by (simp add: signal)
qed

text \<open>A signal during the correction of the only follower, after which the tool comes to stand at the final barrier.\<close>

theorem signal_between_barriers_blocks_witness:
  "\<exists>s t. par_reach sim_args sim_start s \<and> w_pc (p_workers s ! 0) = WCorrect 7 \<and> t = s\<lparr>p_running := False\<rparr> \<and>
     par_step sim_args s t \<and>
     (\<forall>t'. par_reach sim_args t t' \<longrightarrow> p_sampler t' \<notin> {SJoin, SDone}) \<and>
     (\<forall>k t'. (par_step sim_args ^^ k) t t' \<longrightarrow> k \<le> 11)"
proof -
  obtain w1 where "read_tsf (sim_sys True) True \<lparr>file_fd = 3, pread_ok = True\<rparr> sim_world = (Some (Inr 7), w1)"
    by (rule sim_read)
  then obtain s where s: "par_run sim_args [MoveSampler, MoveSampler, MoveSampler, MoveWorker 0, MoveWorker 0, MoveWorker 0, MoveWorker 0]
      sim_start = Some s" "w_pc (p_workers s ! 0) = WCorrect 7" "p_running s"
    by (simp add: run_simps sim_args_def sim_start_def)
  note r = par_run_reach [OF s(1)]
  have n: "length (a_followers sim_args) = 1" by (simp add: sim_args_def)
  show ?thesis
    using signal_between_barriers_blocks [OF r [unfolded sim_start_def] _ s(3) _ _ refl, of 0 7] s(2) r
    by (intro exI [of _ s] exI [of _ "s\<lparr>p_running := False\<rparr>"]) (simp add: n)
qed

end
