(* ===== verification/ParallelSync.thy ===== *)
theory ParallelSync
  imports Parallel
begin

text \<open>
  What the parallel mode of the debugfs tool computes: on healthy TSF files every period has, in any
  interleaving, the effect of a cycle of the single-threaded loop on the distance of each follower to
  the master, and until the signal the threads cannot block each other.
\<close>

section \<open>What every state keeps\<close>

text \<open>
  \<open>e i\<close> is the distance of follower \<open>i\<close> at the start and \<open>k\<close> the number of periods completed.  A worker
  that waits for the second barrier, or has been released by it, has made the correction of period \<open>k + 1\<close>.
\<close>

definition corrected :: "'w par_state \<Rightarrow> nat \<Rightarrow> bool" where
  "corrected s i \<longleftrightarrow> p_sampler s = SPost \<or> w_pc (p_workers s ! i) \<in> {WArrive2, WWait2}"

definition worker_ok :: "('k \<Rightarrow> 'w \<Rightarrow> u64) \<Rightarrow> 'k \<Rightarrow> 'k list \<Rightarrow> controller \<Rightarrow> (nat \<Rightarrow> int) \<Rightarrow> nat \<Rightarrow> 'w par_state \<Rightarrow> nat \<Rightarrow> bool" where
  "worker_ok tsf master fs c e k s i \<longleftrightarrow>
     w_controller (p_workers s ! i) = c \<and> w_pc (p_workers s ! i) \<noteq> WPanicked \<and>
     tsf_err (tsf master (p_world s)) (tsf (fs ! i) (p_world s)) = (next_err c ^^ (k + of_bool (corrected s i))) (e i)"

definition periods_ok :: "('k \<Rightarrow> 'w \<Rightarrow> u64) \<Rightarrow> ('w \<Rightarrow> bool) \<Rightarrow> 'k \<Rightarrow> 'k list \<Rightarrow> controller \<Rightarrow> (nat \<Rightarrow> int) \<Rightarrow> nat \<Rightarrow> 'w par_state \<Rightarrow> bool" where
  "periods_ok tsf ok master fs c e k s \<longleftrightarrow>
     par_inv (length fs) s \<and> ok (p_world s) \<and> p_cycle s = word_of_nat k \<and> p_sampler s \<noteq> SPanicked \<and>
     (p_sampler s \<in> {SArrive1, SWait1, SArrive2, SWait2} \<longrightarrow> p_master_tsf s = tsf master (p_world s)) \<and>
     (\<forall>i < length fs. worker_ok tsf master fs c e k s i)"

lemma next_err_pow_le: "p_controller c \<Longrightarrow> \<bar>(next_err c ^^ n) e\<bar> \<le> \<bar>e\<bar>"
  using next_err_funpow [of c n e] by linarith

lemma nth_map_pc:
  assumes "i < length ws"
  shows "w_controller (map (\<lambda>w. if w_pc w = p then w\<lparr>w_pc := q\<rparr> else w) ws ! i) = w_controller (ws ! i)"
    "w_pc (map (\<lambda>w. if w_pc w = p then w\<lparr>w_pc := q\<rparr> else w) ws ! i) = (if w_pc (ws ! i) = p then q else w_pc (ws ! i))"
  using assms by simp_all

lemma nth_set_worker:
  assumes "j < length (p_workers s)"
  shows "p_workers (set_worker i wk s) ! j = (if j = i then wk else p_workers s ! j)"
  using assms by (cases "j = i") (simp_all add: set_worker_def)

lemma set_worker_simps [simp]:
  "p_world (set_worker i wk s) = p_world s" "p_cycle (set_worker i wk s) = p_cycle s"
  "p_sampler (set_worker i wk s) = p_sampler s" "p_master_tsf (set_worker i wk s) = p_master_tsf s"
  "p_running (set_worker i wk s) = p_running s" "length (p_workers (set_worker i wk s)) = length (p_workers s)"
  by (simp_all add: set_worker_def)

text \<open>The last arrival at the second barrier finds all threads there.\<close>

lemma released2:
  assumes "length (p_workers s) = n" "p_barrier2 s + 1 = waiting WWait2 (p_workers s) + of_bool (p_sampler s = SWait2)"
    "\<not> p_barrier2 s + 1 < n + 1"
  shows "p_sampler s = SWait2 \<and> (\<forall>i < n. w_pc (p_workers s ! i) = WWait2)"
proof -
  have s: "p_sampler s = SWait2" and "waiting WWait2 (p_workers s) = length (p_workers s)"
    using assms waiting_le [of WWait2 "p_workers s"] by (auto simp: of_bool_def split: if_splits)
  then have "list_all (\<lambda>w. w_pc w = WWait2) (p_workers s)" by (simp only: waiting_all)
  with s assms(1) show ?thesis by (simp add: list_all_length)
qed

section \<open>The barriers\<close>

lemma arrive1_periods:
  assumes "\<forall>i < n. worker_ok tsf master fs c e k s i" "length (p_workers s) = n"
    "p_sampler s \<in> {SArrive1, SWait1, SArrive2, SWait2} \<longrightarrow> p_master_tsf s = tsf master (p_world s)" "p_sampler s \<noteq> SPanicked"
  shows "(\<forall>i < n. worker_ok tsf master fs c e k (arrive1 n s) i) \<and> p_cycle (arrive1 n s) = p_cycle s \<and>
    p_world (arrive1 n s) = p_world s \<and> p_sampler (arrive1 n s) \<noteq> SPanicked \<and>
    (p_sampler (arrive1 n s) \<in> {SArrive1, SWait1, SArrive2, SWait2} \<longrightarrow> p_master_tsf (arrive1 n s) = tsf master (p_world s))"
proof (cases "p_barrier1 s + 1 < n + 1")
  case True
  then show ?thesis using assms by (simp add: arrive1_def worker_ok_def corrected_def)
next
  case False
  have "worker_ok tsf master fs c e k (release1 s) i" if i: "i < n" for i
  proof -
    have "corrected (release1 s) i = corrected s i" using i assms(2) by (auto simp: corrected_def release1_def)
    then show ?thesis using assms(1,2) i by (simp add: worker_ok_def release1_def)
  qed
  then show ?thesis using False assms by (auto simp: arrive1_def release1_def)
qed

lemma arrive2_periods:
  assumes "\<forall>i < n. worker_ok tsf master fs c e k s i" "length (p_workers s) = n"
    "p_sampler s \<in> {SArrive1, SWait1, SArrive2, SWait2} \<longrightarrow> p_master_tsf s = tsf master (p_world s)" "p_sampler s \<noteq> SPanicked"
    "p_barrier2 s + 1 = waiting WWait2 (p_workers s) + of_bool (p_sampler s = SWait2)"
  shows "(\<forall>i < n. worker_ok tsf master fs c e k (arrive2 n s) i) \<and> p_cycle (arrive2 n s) = p_cycle s \<and>
    p_world (arrive2 n s) = p_world s \<and> p_sampler (arrive2 n s) \<noteq> SPanicked \<and>
    (p_sampler (arrive2 n s) \<in> {SArrive1, SWait1, SArrive2, SWait2} \<longrightarrow> p_master_tsf (arrive2 n s) = tsf master (p_world s))"
proof (cases "p_barrier2 s + 1 < n + 1")
  case True
  then show ?thesis using assms by (simp add: arrive2_def worker_ok_def corrected_def)
next
  case False
  then have all: "p_sampler s = SWait2" "\<forall>i < n. w_pc (p_workers s ! i) = WWait2"
    using released2 [OF assms(2,5)] by simp_all
  have "worker_ok tsf master fs c e k (release2 s) i" if i: "i < n" for i
  proof -
    have "corrected (release2 s) i" "corrected s i" using i all by (auto simp: corrected_def release2_def)
    then show ?thesis using assms(1,2) i all by (simp add: worker_ok_def release2_def)
  qed
  then show ?thesis using False assms all by (simp add: arrive2_def release2_def)
qed

section \<open>One step\<close>

lemma worker_pcs:
  assumes "par_inv n s" "i < n"
  shows "w_pc (p_workers s ! i) = WCorrect m \<Longrightarrow> m = p_master_tsf s \<and> p_sampler s \<in> {SArrive2, SWait2}"
    "w_pc (p_workers s ! i) = WArrive2 \<Longrightarrow> p_sampler s \<in> {SArrive2, SWait2}"
    "p_sampler s \<in> {SPost, SRead, STest} \<Longrightarrow> w_pc (p_workers s ! i) \<notin> {WArrive2, WWait2}"
  using par_inv_worker [OF assms] by (auto simp: before_def between_def leaving_def)

context sync_env begin

lemma correction_step:
  assumes pk: "periods_ok tsf ok master fs c e k s" and fs: "distinct fs" "master \<in> files" "set fs \<subseteq> files - {master}"
    and c: "p_controller c" "\<forall>i < length fs. \<bar>e i\<bar> * sint (kp_ppm c) < 2 ^ 63"
    and i: "i < length fs" "w_pc (p_workers s ! i) = WCorrect m"
  shows "\<exists>st w'. worker_step Release rd wr fs i s = Some (set_worker i \<lparr>w_pc = WArrive2, w_controller = c, w_stats = st\<rparr> (s\<lparr>p_world := w'\<rparr>)) \<and>
    ok w' \<and> tsf master w' = tsf master (p_world s) \<and>
    tsf_err (tsf master w') (tsf (fs ! i) w') = (next_err c ^^ Suc k) (e i) \<and>
    (\<forall>j < length fs. j \<noteq> i \<longrightarrow> tsf (fs ! j) w' = tsf (fs ! j) (p_world s))"
proof -
  let ?w = "p_world s" and ?f = "fs ! i"
  have inv: "par_inv (length fs) s" and okw: "ok ?w" and wi: "worker_ok tsf master fs c e k s i"
    using pk i(1) by (simp_all add: periods_ok_def)
  have m: "m = tsf master ?w" using worker_pcs(1) [OF inv i] pk by (auto simp: periods_ok_def)
  have "p_sampler s \<noteq> SPost" using worker_pcs(1) [OF inv i] by auto
  then have ei: "tsf_err m (tsf ?f ?w) = (next_err c ^^ k) (e i)" and ci: "w_controller (p_workers s ! i) = c"
    using wi i(2) by (simp_all add: worker_ok_def corrected_def m)
  have "\<bar>tsf_err m (tsf ?f ?w)\<bar> * sint (kp_ppm c) \<le> \<bar>e i\<bar> * sint (kp_ppm c)"
    unfolding ei using c(1) by (intro mult_right_mono next_err_pow_le) (simp_all add: p_controller_def)
  also have "\<dots> < 2 ^ 63" using c(2) i(1) by simp
  finally have small: "\<bar>tsf_err m (tsf ?f ?w)\<bar> * sint (kp_ppm c) < 2 ^ 63" .
  have f: "?f \<in> files" "?f \<noteq> master" using fs(3) i(1) nth_mem by fastforce+
  obtain r w' where w': "correct_follower Release rd wr ?f c m ?w = Some (Some r, c, w')" "ok w'"
      "tsf_err m (tsf ?f w') = next_err c (tsf_err m (tsf ?f ?w))" "\<forall>j \<in> files. j \<noteq> ?f \<longrightarrow> tsf j w' = tsf j ?w"
    using correct_follower_ok [OF f(1) okw c(1) small] by blast
  obtain step err where r: "r = (step, err)" by (cases r)
  obtain st where st: "stats_update Release (w_stats (p_workers s ! i)) err step = Some st"
    by (simp add: stats_update_def add_u64_def split_beta)
  have "worker_step Release rd wr fs i s = Some (set_worker i \<lparr>w_pc = WArrive2, w_controller = c, w_stats = st\<rparr> (s\<lparr>p_world := w'\<rparr>))"
    by (simp add: worker_step_def Let_def i(2) ci w'(1) r st)
  moreover have tm: "tsf master w' = tsf master ?w" using w'(4) f(2) fs(2) by auto
  moreover have "tsf_err (tsf master w') (tsf ?f w') = (next_err c ^^ Suc k) (e i)" using w'(3) tm by (simp add: m [symmetric] ei)
  moreover have "tsf (fs ! j) w' = tsf (fs ! j) ?w" if "j < length fs" "j \<noteq> i" for j
  proof -
    have "fs ! j \<in> files" using fs(3) that(1) nth_mem by fastforce
    moreover have "fs ! j \<noteq> ?f" using fs(1) that i(1) by (simp add: nth_eq_iff_index_eq)
    ultimately show ?thesis using w'(4) by simp
  qed
  ultimately show ?thesis using w'(2) by blast
qed

lemma worker_step_periods:
  assumes pk: "periods_ok tsf ok master fs c e k s" and fs: "distinct fs" "master \<in> files" "set fs \<subseteq> files - {master}"
    and c: "p_controller c" "\<forall>i < length fs. \<bar>e i\<bar> * sint (kp_ppm c) < 2 ^ 63"
    and i: "i < length fs" and st: "worker_step Release rd wr fs i s = Some s'"
  shows "periods_ok tsf ok master fs c e k s'"
proof -
  let ?n = "length fs" and ?wk = "p_workers s ! i"
  have inv: "par_inv ?n s" and wok: "\<forall>j < ?n. worker_ok tsf master fs c e k s j" and len: "length (p_workers s) = ?n"
    using pk by (simp_all add: periods_ok_def par_inv_def)
  have inv': "par_inv ?n s'" by (rule worker_step_inv [OF inv i refl st])
  have goto: "\<forall>j < ?n. worker_ok tsf master fs c e k (goto i pc s) j"
    if "pc \<noteq> WPanicked" "pc \<in> {WArrive2, WWait2} \<longleftrightarrow> w_pc ?wk \<in> {WArrive2, WWait2}" for pc
  proof (intro allI impI)
    fix j assume j: "j < ?n"
    then have "p_workers (goto i pc s) ! j = (if j = i then ?wk\<lparr>w_pc := pc\<rparr> else p_workers s ! j)" using len by (simp add: nth_set_worker)
    moreover from this have "corrected (goto i pc s) j = corrected s j" using that(2) by (auto simp: corrected_def)
    ultimately show "worker_ok tsf master fs c e k (goto i pc s) j" using wok j that(1) by (auto simp: worker_ok_def)
  qed
  have move: "periods_ok tsf ok master fs c e k s'"
    if "s' = goto i pc s" "pc \<noteq> WPanicked" "pc \<in> {WArrive2, WWait2} \<longleftrightarrow> w_pc ?wk \<in> {WArrive2, WWait2}" for pc
    using pk inv' goto [OF that(2,3)] by (simp add: periods_ok_def that(1))
  show ?thesis
  proof (cases "w_pc ?wk")
    case WTest
    with st show ?thesis by (intro move [of "if p_running s then WArrive1 else WDone"]) (simp_all add: worker_step_def Let_def)
  next
    case WRecheck
    with st show ?thesis by (intro move [of "if p_running s then WLoad else WDone"]) (simp_all add: worker_step_def Let_def)
  next
    case WLoad
    with st show ?thesis by (intro move [of "WCorrect (p_master_tsf s)"]) (simp_all add: worker_step_def Let_def)
  next
    case (WCorrect m)
    obtain st w' where s': "s' = set_worker i \<lparr>w_pc = WArrive2, w_controller = c, w_stats = st\<rparr> (s\<lparr>p_world := w'\<rparr>)" and w': "ok w'"
        "tsf master w' = tsf master (p_world s)" "tsf_err (tsf master w') (tsf (fs ! i) w') = (next_err c ^^ Suc k) (e i)"
        "\<forall>j < ?n. j \<noteq> i \<longrightarrow> tsf (fs ! j) w' = tsf (fs ! j) (p_world s)"
      using correction_step [OF pk fs c i WCorrect] st by auto
    have samp: "p_sampler s \<noteq> SPost" using worker_pcs(1) [OF inv i WCorrect] by auto
    have "worker_ok tsf master fs c e k s' j" if j: "j < ?n" for j
    proof (cases "j = i")
      case True
      then show ?thesis using w'(3) len i samp by (simp add: s' worker_ok_def corrected_def nth_set_worker)
    next
      case False
      then have "p_workers s' ! j = p_workers s ! j" "corrected s' j = corrected s j"
        using j len by (simp_all add: s' corrected_def nth_set_worker)
      then show ?thesis using wok j False w' by (simp add: worker_ok_def s')
    qed
    then show ?thesis using pk inv' w' by (simp add: periods_ok_def s')
  next
    case WArrive1
    then have s': "s' = arrive1 ?n (goto i WWait1 s)" using st by (simp add: worker_step_def Let_def)
    show ?thesis using pk inv' arrive1_periods [OF goto [of WWait1]] WArrive1 len
      unfolding s' periods_ok_def by auto
  next
    case WArrive2
    then have s': "s' = arrive2 ?n (goto i WWait2 s)" using st by (simp add: worker_step_def Let_def)
    have "waiting WWait2 (p_workers (goto i WWait2 s)) = waiting WWait2 (p_workers s) + 1"
      using waiting_update [of i "p_workers s" WWait2 "?wk\<lparr>w_pc := WWait2\<rparr>"] i len WArrive2 by (simp add: set_worker_def)
    then have "p_barrier2 (goto i WWait2 s) + 1 = waiting WWait2 (p_workers (goto i WWait2 s)) + of_bool (p_sampler (goto i WWait2 s) = SWait2)"
      using inv by (simp add: par_inv_def set_worker_def)
    then show ?thesis using pk inv' arrive2_periods [OF goto [of WWait2]] WArrive2 len
      unfolding s' periods_ok_def by auto
  qed (use st in \<open>simp_all add: worker_step_def Let_def\<close>)
qed

lemma sampler_step_periods:
  assumes pk: "periods_ok tsf ok master fs c e k s" and m: "master \<in> files" "set fs \<subseteq> files - {master}"
    and st: "sampler_step Release x86_64 rd rt master (length fs) period interval warn s = Some s'"
  shows "periods_ok tsf ok master fs c e (k + of_bool (p_sampler s = SPost)) s'"
proof -
  let ?n = "length fs" and ?w = "p_world s"
  have inv: "par_inv ?n s" and okw: "ok ?w" and wok: "\<forall>j < ?n. worker_ok tsf master fs c e k s j" and len: "length (p_workers s) = ?n"
    using pk by (simp_all add: periods_ok_def par_inv_def)
  have inv': "par_inv ?n s'" by (rule sampler_step_inv [OF inv st])
  have at: "\<forall>j < ?n. worker_ok tsf master fs c e k (s\<lparr>p_sampler := sp\<rparr>) j" if "sp \<noteq> SPost" "p_sampler s \<noteq> SPost" for sp
    using wok that by (simp add: worker_ok_def corrected_def)
  show ?thesis
  proof (cases "p_sampler s")
    case STest
    with st have s': "s' = s\<lparr>p_sampler := (if p_running s then SRead else SFinal)\<rparr>" by (simp add: sampler_step_def)
    show ?thesis using pk inv' at [of SRead] at [of SFinal] STest by (auto simp: periods_ok_def s')
  next
    case SRead
    obtain w' where w': "rd master ?w = (Some (Inr (tsf master ?w)), w')" "ok w'" "\<forall>j \<in> files. tsf j w' = tsf j ?w"
      using rd_ok [OF m(1) okw] by blast
    have s': "s' = s\<lparr>p_world := w', p_master_tsf := tsf master ?w, p_sampler := SArrive1\<rparr>"
      using st SRead by (simp add: sampler_step_def w'(1))
    have "tsf j w' = tsf j ?w" if "j = master \<or> j \<in> set fs" for j using w'(3) m that by auto
    then show ?thesis using pk inv' wok SRead w'(2) by (simp add: periods_ok_def s' worker_ok_def corrected_def)
  next
    case SArrive1
    with st have s': "s' = arrive1 ?n (s\<lparr>p_sampler := SWait1\<rparr>)" by (simp add: sampler_step_def)
    show ?thesis using pk inv' arrive1_periods [OF at [of SWait1]] SArrive1 len unfolding s' periods_ok_def by auto
  next
    case SFinal
    with st have s': "s' = arrive1 ?n (s\<lparr>p_sampler := SFinalWait\<rparr>)" by (simp add: sampler_step_def)
    show ?thesis using pk inv' arrive1_periods [OF at [of SFinalWait]] SFinal len unfolding s' periods_ok_def by auto
  next
    case SArrive2
    with st have s': "s' = arrive2 ?n (s\<lparr>p_sampler := SWait2\<rparr>)" by (simp add: sampler_step_def)
    have "p_barrier2 (s\<lparr>p_sampler := SWait2\<rparr>) + 1 = waiting WWait2 (p_workers s) + of_bool (p_sampler (s\<lparr>p_sampler := SWait2\<rparr>) = SWait2)"
      using inv SArrive2 by (simp add: par_inv_def)
    then show ?thesis using pk inv' arrive2_periods [OF at [of SWait2]] SArrive2 len unfolding s' periods_ok_def by auto
  next
    case SJoin
    with st have s': "s' = s\<lparr>p_sampler := SDone\<rparr>" by (auto simp: sampler_step_def split: if_splits)
    show ?thesis using pk inv' at [of SDone] SJoin by (auto simp: periods_ok_def s')
  next
    case SPost
    obtain dl where dl: "advance_deadline Release (p_deadline s) period = Some dl"
      using advance_loop_release [of "p_deadline s\<lparr>tv_nsec := tv_nsec (p_deadline s) + period\<rparr>"]
      by (auto simp: advance_deadline_def add_i64_def)
    obtain w' d where w': "do_clock_nanosleep x86_64 rt dl ?w = (0, w')" "ok w'" "\<forall>j \<in> files. tsf j w' = tsf j ?w + d"
      using sleep_ok [OF okw] by blast
    have "sleep_until x86_64 rt dl ?w = Some w'" by (subst sleep_until.simps) (simp add: w'(1))
    then obtain stats evs where s': "s' = s\<lparr>p_world := w', p_cycle := p_cycle s + 1, p_deadline := dl,
        p_sampler_stats := stats, p_events := p_events s @ evs, p_sampler := STest\<rparr>"
      using st SPost dl by (auto simp: sampler_step_def add_u64_def split: prod.splits)
    have "worker_ok tsf master fs c e (Suc k) s' j" if j: "j < ?n" for j
    proof -
      have "tsf_err (tsf master w') (tsf (fs ! j) w') = tsf_err (tsf master ?w) (tsf (fs ! j) ?w)"
        using w'(3) m j nth_mem [of j fs] by (fastforce simp: tsf_err_def)
      moreover have "corrected s j" "\<not> corrected s' j"
        using worker_pcs(3) [OF inv j] SPost by (auto simp: corrected_def s')
      ultimately show ?thesis using wok j by (simp add: worker_ok_def s')
    qed
    then show ?thesis using pk inv' SPost w'(2) by (simp add: periods_ok_def s' add.commute)
  qed (use st in \<open>simp_all add: sampler_step_def\<close>)
qed

end

section \<open>Progress\<close>

text \<open>
  The position of the threads: every step of a thread before the signal raises it, and one period is worth
  eight for each thread.
\<close>

fun worker_pos :: "worker_pc \<Rightarrow> nat" where
  "worker_pos WTest = 0" | "worker_pos WArrive1 = 1" | "worker_pos WWait1 = 2" | "worker_pos WRecheck = 3"
| "worker_pos WLoad = 4" | "worker_pos (WCorrect m) = 5" | "worker_pos WArrive2 = 6" | "worker_pos WWait2 = 7"
| "worker_pos _ = 0"

fun sampler_pos :: "sampler_pc \<Rightarrow> nat" where
  "sampler_pos SPost = 0" | "sampler_pos STest = 1" | "sampler_pos SRead = 2" | "sampler_pos SArrive1 = 3"
| "sampler_pos SWait1 = 4" | "sampler_pos SArrive2 = 5" | "sampler_pos SWait2 = 6" | "sampler_pos _ = 0"

definition workers_pos :: "worker list \<Rightarrow> nat" where
  "workers_pos ws = sum_list (map (worker_pos \<circ> w_pc) ws)"

definition par_pos :: "nat \<Rightarrow> 'w par_state \<Rightarrow> nat" where
  "par_pos k s = 8 * (length (p_workers s) + 1) * (k + of_bool (p_sampler s = SPost)) +
     workers_pos (p_workers s) + sampler_pos (p_sampler s)"

lemma worker_pos_le: "worker_pos pc \<le> 7"
  by (cases pc) simp_all

lemma sampler_pos_le: "sampler_pos sp \<le> 6"
  by (cases sp) simp_all

lemma workers_pos_le: "workers_pos ws \<le> 7 * length ws"
proof (induction ws)
  case (Cons w ws)
  then show ?case using worker_pos_le [of "w_pc w"] by (simp add: workers_pos_def)
qed (simp add: workers_pos_def)

lemma workers_pos_update:
  "i < length ws \<Longrightarrow> workers_pos (ws[i := wk]) + worker_pos (w_pc (ws ! i)) = workers_pos ws + worker_pos (w_pc wk)"
proof (induction ws arbitrary: i)
  case (Cons w ws)
  then show ?case by (cases i) (auto simp: workers_pos_def)
qed simp

lemma workers_pos_map: "(\<And>w. worker_pos (w_pc w) \<le> worker_pos (w_pc (f w))) \<Longrightarrow> workers_pos ws \<le> workers_pos (map f ws)"
  unfolding workers_pos_def by (simp add: comp_def) (rule sum_list_mono, simp)

lemma par_pos_le: "par_pos k s \<le> 8 * (length (p_workers s) + 1) * (k + 2)"
proof -
  let ?n = "length (p_workers s)"
  have "workers_pos (p_workers s) + sampler_pos (p_sampler s) \<le> 8 * (?n + 1)"
    using workers_pos_le [of "p_workers s"] sampler_pos_le [of "p_sampler s"] by simp
  moreover have "8 * (?n + 1) * (k + of_bool (p_sampler s = SPost)) \<le> 8 * (?n + 1) * (k + 1)"
    by (intro mult_le_mono2) simp
  moreover have "8 * (?n + 1) * (k + 2) = 8 * (?n + 1) * (k + 1) + 8 * (?n + 1)" by (simp add: algebra_simps)
  ultimately show ?thesis unfolding par_pos_def by linarith
qed

lemma arrive1_pos:
  assumes "p_sampler s \<notin> {SFinalWait}"
  shows "par_pos k s \<le> par_pos k (arrive1 n s)"
proof -
  have "workers_pos (p_workers s) \<le> workers_pos (p_workers (release1 s))"
    unfolding release1_def by (simp add: workers_pos_map)
  then show ?thesis using assms by (auto simp: par_pos_def arrive1_def release1_def)
qed

lemma arrive2_pos:
  assumes "length (p_workers s) = n" "p_barrier2 s + 1 = waiting WWait2 (p_workers s) + of_bool (p_sampler s = SWait2)"
  shows "par_pos k s \<le> par_pos k (arrive2 n s)"
proof (cases "p_barrier2 s + 1 < n + 1")
  case False
  then have "p_sampler s = SWait2" using released2 [OF assms] by simp
  then show ?thesis using False workers_pos_le [of "p_workers s"] by (simp add: par_pos_def arrive2_def release2_def)
qed (simp add: par_pos_def arrive2_def)

lemma goto_pos:
  assumes "i < length (p_workers s)" "worker_pos (w_pc (p_workers s ! i)) < worker_pos (w_pc wk)"
  shows "par_pos k s < par_pos k (set_worker i wk s)"
  using workers_pos_update [OF assms(1), of wk] assms(2) by (simp add: par_pos_def set_worker_def)

lemma worker_running:
  assumes "par_inv n s" "p_running s" "i < n"
  shows "w_pc (p_workers s ! i) \<noteq> WDone" "p_sampler s \<notin> {SFinal, SFinalWait, SJoin, SDone}"
  using par_inv_worker [OF assms(1,3)] assms(1,2) by (auto simp: before_def between_def par_inv_def phase_ok_def)

lemma sampler_running: "par_inv n s \<Longrightarrow> p_running s \<Longrightarrow> p_sampler s \<notin> {SFinal, SFinalWait, SJoin, SDone}"
  by (auto simp: par_inv_def phase_ok_def)

lemma worker_step_pos:
  assumes inv: "par_inv n s" "i < n" "length fs = n" and run: "p_running s"
    and st: "worker_step pr rd wr fs i s = Some s'" and np: "w_pc (p_workers s' ! i) \<noteq> WPanicked"
  shows "par_pos k s < par_pos k s'"
proof -
  let ?wk = "p_workers s ! i"
  have i: "i < length (p_workers s)" using inv by (simp add: par_inv_def)
  show ?thesis
  proof (cases "w_pc ?wk")
    case WTest
    with st run have "s' = goto i WArrive1 s" by (simp add: worker_step_def Let_def)
    then show ?thesis using goto_pos [OF i, of "?wk\<lparr>w_pc := WArrive1\<rparr>"] WTest by simp
  next
    case WRecheck
    with st run have "s' = goto i WLoad s" by (simp add: worker_step_def Let_def)
    then show ?thesis using goto_pos [OF i, of "?wk\<lparr>w_pc := WLoad\<rparr>"] WRecheck by simp
  next
    case WLoad
    with st have "s' = goto i (WCorrect (p_master_tsf s)) s" by (simp add: worker_step_def Let_def)
    then show ?thesis using goto_pos [OF i, of "?wk\<lparr>w_pc := WCorrect (p_master_tsf s)\<rparr>"] WLoad by simp
  next
    case (WCorrect m)
    have "par_pos k (s\<lparr>p_world := w\<rparr>) = par_pos k s" for w by (simp add: par_pos_def)
    moreover have "\<exists>w wk. s' = set_worker i wk (s\<lparr>p_world := w\<rparr>) \<and> w_pc wk = WArrive2"
      using st WCorrect np i
      by (fastforce simp: worker_step_def Let_def nth_set_worker split: option.splits prod.splits)
    then obtain w wk where s': "s' = set_worker i wk (s\<lparr>p_world := w\<rparr>)" "w_pc wk = WArrive2" by blast
    ultimately show ?thesis using goto_pos [of i "s\<lparr>p_world := w\<rparr>" wk k] i WCorrect by simp
  next
    case WArrive1
    then have s': "s' = arrive1 n (goto i WWait1 s)" using st inv(3) by (simp add: worker_step_def Let_def)
    have "par_pos k s < par_pos k (goto i WWait1 s)" using goto_pos [OF i, of "?wk\<lparr>w_pc := WWait1\<rparr>"] WArrive1 by simp
    also have "\<dots> \<le> par_pos k s'" unfolding s' using sampler_running [OF inv(1) run] by (intro arrive1_pos) auto
    finally show ?thesis .
  next
    case WArrive2
    then have s': "s' = arrive2 n (goto i WWait2 s)" using st inv(3) by (simp add: worker_step_def Let_def)
    have "waiting WWait2 (p_workers (goto i WWait2 s)) = waiting WWait2 (p_workers s) + 1"
      using waiting_update [of i "p_workers s" WWait2 "?wk\<lparr>w_pc := WWait2\<rparr>"] i WArrive2 by (simp add: set_worker_def)
    then have b: "p_barrier2 (goto i WWait2 s) + 1 =
        waiting WWait2 (p_workers (goto i WWait2 s)) + of_bool (p_sampler (goto i WWait2 s) = SWait2)"
      using inv(1) by (simp add: par_inv_def set_worker_def)
    have "par_pos k s < par_pos k (goto i WWait2 s)" using goto_pos [OF i, of "?wk\<lparr>w_pc := WWait2\<rparr>"] WArrive2 by simp
    also have "\<dots> \<le> par_pos k s'" unfolding s' using inv(1) b by (intro arrive2_pos) (simp_all add: par_inv_def)
    finally show ?thesis .
  qed (use st in \<open>simp_all add: worker_step_def Let_def\<close>)
qed

lemma sampler_step_pos:
  assumes inv: "par_inv n s" and run: "p_running s"
    and st: "sampler_step pr x86 rd rt m n period interval warn s = Some s'" and np: "p_sampler s' \<noteq> SPanicked"
  shows "par_pos k s < par_pos (k + of_bool (p_sampler s = SPost)) s'"
proof (cases "p_sampler s")
  case SArrive1
  with st have s': "s' = arrive1 n (s\<lparr>p_sampler := SWait1\<rparr>)" by (simp add: sampler_step_def)
  have "par_pos k s < par_pos k (s\<lparr>p_sampler := SWait1\<rparr>)" using SArrive1 by (simp add: par_pos_def)
  also have "\<dots> \<le> par_pos k s'" unfolding s' by (intro arrive1_pos) simp
  finally show ?thesis using SArrive1 by simp
next
  case SArrive2
  with st have s': "s' = arrive2 n (s\<lparr>p_sampler := SWait2\<rparr>)" by (simp add: sampler_step_def)
  have "par_pos k s < par_pos k (s\<lparr>p_sampler := SWait2\<rparr>)" using SArrive2 by (simp add: par_pos_def)
  also have "\<dots> \<le> par_pos k s'" unfolding s' using inv SArrive2 by (intro arrive2_pos) (simp_all add: par_inv_def)
  finally show ?thesis using SArrive2 by simp
next
  case SRead
  with st np show ?thesis by (auto simp: sampler_step_def par_pos_def split: prod.splits option.splits sum.splits)
next
  case SPost
  with st np show ?thesis by (auto simp: sampler_step_def par_pos_def split: prod.splits option.splits)
qed (use st run sampler_running [OF inv run] in \<open>auto simp: sampler_step_def par_pos_def\<close>)

text \<open>Before the signal no thread can be kept waiting by the others: a barrier opens when all have come.\<close>

definition barriers_open :: "nat \<Rightarrow> 'w par_state \<Rightarrow> bool" where
  "barriers_open n s \<longleftrightarrow> p_barrier1 s \<le> n \<and> p_barrier2 s \<le> n"

lemma arrive_open: "barriers_open n s \<Longrightarrow> barriers_open n (arrive1 n s) \<and> barriers_open n (arrive2 n s)"
  by (auto simp: barriers_open_def arrive1_def arrive2_def release1_def release2_def)

lemma worker_step_open: "worker_step pr rd wr fs i s = Some s' \<Longrightarrow> barriers_open (length fs) s \<Longrightarrow> barriers_open (length fs) s'"
  using arrive_open [of "length fs" "set_worker i wk s" for wk]
  by (cases "w_pc (p_workers s ! i)")
    (auto simp: worker_step_def Let_def barriers_open_def set_worker_def split: option.split_asm prod.split_asm)

lemma sampler_step_open: "sampler_step pr x86 rd rt m n period interval warn s = Some s' \<Longrightarrow> barriers_open n s \<Longrightarrow> barriers_open n s'"
  using arrive_open [of n "s\<lparr>p_sampler := sp\<rparr>" for sp]
  by (cases "p_sampler s")
    (auto simp: sampler_step_def barriers_open_def split: option.split_asm prod.split_asm sum.split_asm if_split_asm)

lemma someone_missing:
  assumes "p_barrier1 s \<le> n" "par_inv n s" "p_sampler s = SWait1"
  shows "\<exists>i < n. w_pc (p_workers s ! i) \<noteq> WWait1"
proof (rule ccontr)
  assume "\<not> ?thesis"
  then have "waiting WWait1 (p_workers s) = n" using assms(2) waiting_all [of WWait1 "p_workers s"]
    by (simp add: par_inv_def list_all_length)
  then show False using assms by (simp add: par_inv_def)
qed

lemma someone_missing2:
  assumes "p_barrier2 s \<le> n" "par_inv n s" "p_sampler s = SWait2"
  shows "\<exists>i < n. w_pc (p_workers s ! i) \<noteq> WWait2"
proof (rule ccontr)
  assume "\<not> ?thesis"
  then have "waiting WWait2 (p_workers s) = n" using assms(2) waiting_all [of WWait2 "p_workers s"]
    by (simp add: par_inv_def list_all_length)
  then show False using assms by (simp add: par_inv_def)
qed

lemma arrive_running [simp]: "p_running (arrive1 n s) = p_running s" "p_running (arrive2 n s) = p_running s"
  by (simp_all add: arrive1_def arrive2_def release1_def release2_def)

lemma worker_step_running: "worker_step pr rd wr fs i s = Some s' \<Longrightarrow> p_running s' = p_running s"
  by (cases "w_pc (p_workers s ! i)")
    (auto simp: worker_step_def Let_def split: option.split_asm prod.split_asm)

lemma sampler_step_running: "sampler_step pr x86 rd rt m n period interval warn s = Some s' \<Longrightarrow> p_running s' = p_running s"
  by (cases "p_sampler s")
    (auto simp: sampler_step_def split: option.split_asm prod.split_asm sum.split_asm if_split_asm)

context sync_env begin

lemma sampler_enabled:
  assumes "periods_ok tsf ok master fs c e k s" "master \<in> files" "p_running s" "p_sampler s \<notin> {SWait1, SWait2}"
  shows "\<exists>s'. sampler_step Release x86_64 rd rt master (length fs) period interval warn s = Some s'"
proof -
  have okw: "ok (p_world s)" "p_sampler s \<noteq> SPanicked" "par_inv (length fs) s" using assms(1) by (simp_all add: periods_ok_def)
  obtain w' where w': "rd master (p_world s) = (Some (Inr (tsf master (p_world s))), w')" using rd_ok [OF assms(2) okw(1)] by blast
  obtain dl where dl: "advance_deadline Release (p_deadline s) period = Some dl"
    using advance_loop_release [of "p_deadline s\<lparr>tv_nsec := tv_nsec (p_deadline s) + period\<rparr>"]
    by (auto simp: advance_deadline_def add_i64_def)
  obtain w2 where "do_clock_nanosleep x86_64 rt dl (p_world s) = (0, w2)" using sleep_ok [OF okw(1)] by blast
  then have "sleep_until x86_64 rt dl (p_world s) = Some w2" by (subst sleep_until.simps) simp
  then show ?thesis using okw assms(3,4) sampler_running [OF okw(3) assms(3)] w' dl
    by (cases "p_sampler s") (simp_all add: sampler_step_def add_u64_def split: prod.splits)
qed

lemma worker_enabled:
  assumes pk: "periods_ok tsf ok master fs c e k s" and fs: "distinct fs" "master \<in> files" "set fs \<subseteq> files - {master}"
    and c: "p_controller c" "\<forall>i < length fs. \<bar>e i\<bar> * sint (kp_ppm c) < 2 ^ 63"
    and i: "i < length fs" "p_running s" "w_pc (p_workers s ! i) \<notin> {WWait1, WWait2}"
  shows "\<exists>s'. worker_step Release rd wr fs i s = Some s'"
proof -
  have "par_inv (length fs) s" "w_pc (p_workers s ! i) \<noteq> WPanicked" using pk i(1) by (simp_all add: periods_ok_def worker_ok_def)
  then have "w_pc (p_workers s ! i) \<notin> {WDone, WPanicked}" using worker_running(1) i by blast
  then show ?thesis using i(3) correction_step [OF pk fs c i(1)]
    by (cases "w_pc (p_workers s ! i)") (auto simp: worker_step_def Let_def)
qed

lemma thread_enabled:
  assumes pk: "periods_ok tsf ok master fs c e k s" and fs: "distinct fs" "master \<in> files" "set fs \<subseteq> files - {master}"
    and c: "p_controller c" "\<forall>i < length fs. \<bar>e i\<bar> * sint (kp_ppm c) < 2 ^ 63"
    and run: "p_running s" "barriers_open (length fs) s"
  shows "(\<exists>s'. sampler_step Release x86_64 rd rt master (length fs) period interval warn s = Some s') \<or>
    (\<exists>i < length fs. \<exists>s'. worker_step Release rd wr fs i s = Some s')"
proof -
  have inv: "par_inv (length fs) s" using pk by (simp add: periods_ok_def)
  consider (wait1) "p_sampler s = SWait1" | (wait2) "p_sampler s = SWait2" | (other) "p_sampler s \<notin> {SWait1, SWait2}" by blast
  then show ?thesis
  proof cases
    case wait1
    then obtain i where i: "i < length fs" "w_pc (p_workers s ! i) \<noteq> WWait1"
      using someone_missing [OF _ inv] run(2) by (auto simp: barriers_open_def)
    moreover have "w_pc (p_workers s ! i) \<noteq> WWait2"
      using par_inv_worker [OF inv i(1)] wait1 by (auto simp: before_def)
    ultimately show ?thesis using worker_enabled [OF pk fs c i(1) run(1)] by blast
  next
    case wait2
    then obtain i where i: "i < length fs" "w_pc (p_workers s ! i) \<noteq> WWait2"
      using someone_missing2 [OF _ inv] run(2) by (auto simp: barriers_open_def)
    moreover have "w_pc (p_workers s ! i) \<noteq> WWait1"
      using par_inv_worker [OF inv i(1)] wait2 by (auto simp: between_def)
    ultimately show ?thesis using worker_enabled [OF pk fs c i(1) run(1)] by blast
  next
    case other
    then show ?thesis using sampler_enabled [OF pk fs(2) run(1)] by blast
  qed
qed

lemma par_step_periods:
  assumes st: "par_step a s s'"
    and a: "a_profile a = Release" "a_rd a = rd" "a_wr a = wr" "a_x86_64 a = x86_64" "a_rt a = rt" "a_followers a = fs" "a_master a = master"
    and fs: "distinct fs" "master \<in> files" "set fs \<subseteq> files - {master}"
    and c: "p_controller c" "\<forall>i < length fs. \<bar>e i\<bar> * sint (kp_ppm c) < 2 ^ 63"
    and pk: "periods_ok tsf ok master fs c e k s" and op: "barriers_open (length fs) s"
  shows "\<exists>k' \<le> Suc k. periods_ok tsf ok master fs c e k' s' \<and> barriers_open (length fs) s' \<and>
    (p_running s' \<longrightarrow> p_running s \<and> par_pos k s < par_pos k' s')"
  using st
proof (cases rule: par_step.cases)
  case (worker i)
  have inv: "par_inv (length fs) s" using pk by (simp add: periods_ok_def)
  have i: "i < length fs" using worker(1) inv by (simp add: par_inv_def)
  have w: "worker_step Release rd wr fs i s = Some s'" using worker(2) a by simp
  have pk': "periods_ok tsf ok master fs c e k s'" by (rule worker_step_periods [OF pk fs c i w])
  then have "w_pc (p_workers s' ! i) \<noteq> WPanicked" using i by (simp add: periods_ok_def worker_ok_def)
  then show ?thesis using pk' worker_step_open [OF w op] worker_step_running [OF w] worker_step_pos [OF inv i refl _ w, of k]
    by (intro exI [of _ k]) simp
next
  case sampler
  have inv: "par_inv (length fs) s" using pk by (simp add: periods_ok_def)
  have w: "sampler_step Release x86_64 rd rt master (length fs) (a_period_ns a) (a_interval a) (a_rms_warn a) s = Some s'"
    using sampler a by simp
  let ?k = "k + of_bool (p_sampler s = SPost)"
  have pk': "periods_ok tsf ok master fs c e ?k s'" by (rule sampler_step_periods [OF pk fs(2,3) w])
  then have "p_sampler s' \<noteq> SPanicked" by (simp add: periods_ok_def)
  then show ?thesis using pk' sampler_step_open [OF w op] sampler_step_running [OF w] sampler_step_pos [OF inv _ w, of k]
    by (intro exI [of _ ?k]) simp
next
  case signal_handler
  have "periods_ok tsf ok master fs c e k s'"
    using pk signal_inv [of "length fs" s] by (simp add: signal_handler periods_ok_def worker_ok_def corrected_def)
  then show ?thesis using op by (intro exI [of _ k]) (simp add: signal_handler barriers_open_def)
qed

lemma par_periods:
  assumes "(par_step a ^^ N) (par_init (replicate (length fs) c) dl w) s"
    and a: "a_profile a = Release" "a_rd a = rd" "a_wr a = wr" "a_x86_64 a = x86_64" "a_rt a = rt" "a_followers a = fs" "a_master a = master"
    and fs: "distinct fs" "master \<in> files" "set fs \<subseteq> files - {master}" and w: "ok w"
    and c: "p_controller c" "\<forall>f \<in> set fs. \<bar>tsf_err (tsf master w) (tsf f w)\<bar> * sint (kp_ppm c) < 2 ^ 63"
  shows "\<exists>k \<le> N. periods_ok tsf ok master fs c (\<lambda>i. tsf_err (tsf master w) (tsf (fs ! i) w)) k s \<and>
    barriers_open (length fs) s \<and> (p_running s \<longrightarrow> N \<le> par_pos k s)"
  using assms(1)
proof (induction N arbitrary: s)
  case 0
  have "periods_ok tsf ok master fs c (\<lambda>i. tsf_err (tsf master w) (tsf (fs ! i) w)) 0 (par_init (replicate (length fs) c) dl w)"
    using w par_init_inv [of "replicate (length fs) c" "length fs" dl w]
    by (simp add: periods_ok_def worker_ok_def corrected_def par_init_def worker_new_def)
  moreover have "barriers_open (length fs) (par_init (replicate (length fs) c) dl w)" by (simp add: barriers_open_def par_init_def)
  ultimately show ?case using 0 by simp
next
  case (Suc N)
  then obtain s1 where s1: "(par_step a ^^ N) (par_init (replicate (length fs) c) dl w) s1" "par_step a s1 s" by auto
  obtain k where k: "k \<le> N" "periods_ok tsf ok master fs c (\<lambda>i. tsf_err (tsf master w) (tsf (fs ! i) w)) k s1"
      "barriers_open (length fs) s1" "p_running s1 \<longrightarrow> N \<le> par_pos k s1"
    using Suc.IH [OF s1(1)] by blast
  have "\<forall>i < length fs. \<bar>tsf_err (tsf master w) (tsf (fs ! i) w)\<bar> * sint (kp_ppm c) < 2 ^ 63" using c(2) by simp
  then obtain k' where "k' \<le> Suc k" "periods_ok tsf ok master fs c (\<lambda>i. tsf_err (tsf master w) (tsf (fs ! i) w)) k' s"
      "barriers_open (length fs) s" "p_running s \<longrightarrow> p_running s1 \<and> par_pos k s1 < par_pos k' s"
    using par_step_periods [OF s1(2) a fs c(1) _ k(2,3)] by blast
  then show ?case using k(1,4) by (intro exI [of _ k']) auto
qed

end

lemma word_of_nat_unat: "k < 2 ^ 64 \<Longrightarrow> (word_of_nat k :: u64) = c \<Longrightarrow> k = unat c"
  by (auto simp: unat_of_nat)

section \<open>An example\<close>

lemma par_run_relpow: "par_run a mvs s = Some s' \<Longrightarrow> (par_step a ^^ length mvs) s s'"
proof (induction mvs arbitrary: s)
  case (Cons mv mvs)
  then obtain s1 where "move_step a mv s = Some s1" "par_run a mvs s1 = Some s'"
    by (auto split: Option.bind_splits)
  then show ?case using Cons.IH move_step_par_step by (metis relpowp_Suc_I2 length_Cons)
qed simp

text \<open>A follower 5 microseconds behind, and one period of the two threads.\<close>

definition behind :: debugfs_sim where
  "behind = \<lparr>sim_tsf = (\<lambda>fd. if fd = 3 then 1000005 else 1000000), sim_off = (\<lambda>_. 0)\<rparr>"

definition one_period :: "move list" where
  "one_period = [MoveSampler, MoveSampler, MoveSampler, MoveWorker 0, MoveWorker 0, MoveWorker 0, MoveWorker 0, MoveWorker 0,
     MoveWorker 0, MoveSampler, MoveSampler]"

lemma behind_period_every:
  obtains s where "par_run (sim_args\<lparr>a_interval := v\<rparr>) one_period (par_init [controller_new 1000000 200 False] \<lparr>tv_sec = 0, tv_nsec = 0\<rparr> behind) = Some s"
    "p_sampler s = STest" "p_running s" "p_cycle s = 1" "ws_n (w_stats (p_workers s ! 0)) = 1"
proof -
  let ?c = "controller_new 1000000 200 False" and ?m = "\<lparr>file_fd = 3, pread_ok = True\<rparr>" and ?f = "\<lparr>file_fd = 5, pread_ok = True\<rparr>"
  obtain w1 where w1: "read_tsf (sim_sys True) True ?m behind = (Some (Inr 1000005), w1)" "sim_tsf w1 5 = 1000000"
    using sim.read_tsf_returns [of ?m True behind] by (auto simp: behind_def)
  obtain r w2 where r: "correct_follower Release (read_tsf (sim_sys True) True) (write_tsf (sim_sys True)) ?f ?c 1000005 w1 = Some (Some r, ?c, w2)"
    using sim.port.correct_follower_ok [of ?f ?c 1000005 w1 True] w1(2) by (auto simp: p_controller_def controller_new_def tsf_err_def)
  obtain step err where r2: "r = (step, err)" by (cases r)
  obtain st where st: "stats_update Release stats_new err step = Some st" "ws_n st = 1"
    by (simp add: stats_update_def add_u64_def split_beta) (simp add: stats_new_def)
  have sl: "sleep_until True sim_rt d w2 = Some (w2\<lparr>sim_tsf := (\<lambda>fd. sim_tsf w2 fd + 10000)\<rparr>)" for d
    by (subst sleep_until.simps) (simp add: do_clock_nanosleep_def sim_rt_def Let_def)
  obtain dl where dl: "advance_deadline Release \<lparr>tv_sec = 0, tv_nsec = 0\<rparr> 10000000 = Some dl"
    using advance_loop_release [of "\<lparr>tv_sec = 0, tv_nsec = 0 + 10000000\<rparr>"] by (auto simp: advance_deadline_def add_i64_def)
  have "\<exists>s. par_run (sim_args\<lparr>a_interval := v\<rparr>) one_period (par_init [?c] \<lparr>tv_sec = 0, tv_nsec = 0\<rparr> behind) = Some s \<and>
      p_sampler s = STest \<and> p_running s \<and> p_cycle s = 1 \<and> ws_n (w_stats (p_workers s ! 0)) = 1"
    by (simp add: one_period_def run_simps sim_args_def w1(1) r r2 st sl dl add_u64_def check_stats_new)
  then show thesis using that by blast
qed

lemma behind_period:
  obtains s where "par_run sim_args one_period (par_init [controller_new 1000000 200 False] \<lparr>tv_sec = 0, tv_nsec = 0\<rparr> behind) = Some s"
    "p_sampler s = STest" "p_running s" "p_cycle s = 1"
proof -
  have "sim_args\<lparr>a_interval := 100\<rparr> = sim_args" by (simp add: sim_args_def)
  then show thesis using behind_period_every [of 100] that by metis
qed

section \<open>Properties\<close>

text \<open>C2: The parallel mode computes what the single-threaded loop computes: on healthy TSF files, in
  a release build, with proportional controllers (no Kalman filter, kp_ppm from 1 to 10^6, a step limit
  that is not negative) and |error| * kp_ppm below 2^63, whatever the interleaving of sampler and
  workers, when the sampler has completed k periods and is back at its loop test, every follower has
  exactly the distance to the master that k cycles of the single-threaded loop leave from the same start.\<close>

theorem parallel_equals_single:
  assumes "sync_env (a_rd a) (a_wr a) tsf files ok (a_x86_64 a) (a_rt a)" "a_profile a = Release"
    "distinct (a_followers a)" "a_master a \<in> files" "set (a_followers a) \<subseteq> files - {a_master a}" "ok w" "p_controller c"
    "\<forall>f \<in> set (a_followers a). \<bar>tsf_err (tsf (a_master a) w) (tsf f w)\<bar> * sint (kp_ppm c) < 2 ^ 63"
    and "(par_step a ^^ N) (par_init (replicate (length (a_followers a)) c) dl w) s" "N < 2 ^ 64" "p_sampler s = STest"
  shows "\<exists>st. rounds (unat (p_cycle s)) (single_cycle Release (a_x86_64 a) (a_rd a) (a_wr a) (a_rt a) (a_master a) (a_followers a)
        (a_period_ns a) interval rms_warn)
        \<lparr>s_world = w, s_ctrls = replicate (length (a_followers a)) c, s_deadline = dl, s_stats = stats_new, s_cycle = 0, s_log = []\<rparr> = Some st \<and>
     (\<forall>f \<in> set (a_followers a). tsf_err (tsf (a_master a) (p_world s)) (tsf f (p_world s)) =
        tsf_err (tsf (a_master a) (s_world st)) (tsf f (s_world st)))"
proof -
  let ?fs = "a_followers a" and ?m = "a_master a"
  obtain k where k: "k \<le> N" "periods_ok tsf ok ?m ?fs c (\<lambda>i. tsf_err (tsf ?m w) (tsf (?fs ! i) w)) k s"
    using sync_env.par_periods [OF assms(1,9,2) refl refl refl refl refl refl assms(3-8)] by blast
  have cyc: "unat (p_cycle s) = k" using word_of_nat_unat [of k "p_cycle s"] k assms(10) by (simp add: periods_ok_def)
  have par: "tsf_err (tsf ?m (p_world s)) (tsf f (p_world s)) = (next_err c ^^ k) (tsf_err (tsf ?m w) (tsf f w))" if f: "f \<in> set ?fs" for f
  proof -
    obtain i where i: "i < length ?fs" "f = ?fs ! i" using f by (metis in_set_conv_nth)
    have "par_inv (length ?fs) s" "worker_ok tsf ?m ?fs c (\<lambda>i. tsf_err (tsf ?m w) (tsf (?fs ! i) w)) k s i"
      using k(2) i(1) by (simp_all add: periods_ok_def)
    moreover from this have "\<not> corrected s i" using worker_pcs(3) [of "length ?fs" s i] i(1) assms(11) by (simp add: corrected_def)
    ultimately show ?thesis using i(2) by (simp add: worker_ok_def)
  qed
  show ?thesis unfolding cyc
    using sync_env.rounds_ok [OF assms(1,3,4,5,7), of "\<lparr>s_world = w, s_ctrls = replicate (length ?fs) c, s_deadline = dl,
        s_stats = stats_new, s_cycle = 0, s_log = []\<rparr>" k "a_period_ns a" interval rms_warn] assms(6,8) par
    by fastforce
qed

theorem parallel_equals_single_witness:
  "\<exists>s st. (par_step sim_args ^^ length one_period) (par_init [controller_new 1000000 200 False] \<lparr>tv_sec = 0, tv_nsec = 0\<rparr> behind) s \<and> p_cycle s = 1 \<and>
     rounds 1 (single_cycle Release True (read_tsf (sim_sys True) True) (write_tsf (sim_sys True)) sim_rt \<lparr>file_fd = 3, pread_ok = True\<rparr>
        [\<lparr>file_fd = 5, pread_ok = True\<rparr>] 10000000 0 0)
       \<lparr>s_world = behind, s_ctrls = [controller_new 1000000 200 False], s_deadline = \<lparr>tv_sec = 0, tv_nsec = 0\<rparr>,
        s_stats = stats_new, s_cycle = 0, s_log = []\<rparr> = Some st \<and>
     tsf_err (sim_tsf (p_world s) 3) (sim_tsf (p_world s) 5) = tsf_err (sim_tsf (s_world st) 3) (sim_tsf (s_world st) 5)"
proof -
  obtain s where s: "par_run sim_args one_period (par_init [controller_new 1000000 200 False] \<lparr>tv_sec = 0, tv_nsec = 0\<rparr> behind) = Some s"
    "p_sampler s = STest" "p_cycle s = 1" by (rule behind_period)
  note r = par_run_relpow [OF s(1)]
  have one: "[controller_new 1000000 200 False] = replicate (length (a_followers sim_args)) (controller_new 1000000 200 False)"
    by (simp add: sim_args_def)
  have env: "sync_env (a_rd sim_args) (a_wr sim_args) (\<lambda>f w. sim_tsf w (file_fd f)) {f. file_fd f \<in> UNIV \<and> pread_ok f} (\<lambda>_. True)
      (a_x86_64 sim_args) (a_rt sim_args)"
    using sim_loop.sync_env_axioms by (simp add: sim_args_def)
  have "\<exists>st. rounds (unat (p_cycle s)) (single_cycle Release (a_x86_64 sim_args) (a_rd sim_args) (a_wr sim_args) (a_rt sim_args)
        (a_master sim_args) (a_followers sim_args) (a_period_ns sim_args) 0 0)
       \<lparr>s_world = behind, s_ctrls = replicate (length (a_followers sim_args)) (controller_new 1000000 200 False),
        s_deadline = \<lparr>tv_sec = 0, tv_nsec = 0\<rparr>, s_stats = stats_new, s_cycle = 0, s_log = []\<rparr> = Some st \<and>
     (\<forall>f \<in> set (a_followers sim_args). tsf_err (sim_tsf (p_world s) (file_fd (a_master sim_args))) (sim_tsf (p_world s) (file_fd f)) =
        tsf_err (sim_tsf (s_world st) (file_fd (a_master sim_args))) (sim_tsf (s_world st) (file_fd f)))"
    by (rule parallel_equals_single [OF env _ _ _ _ _ _ _ r [unfolded one] _ s(2)])
      (simp_all add: sim_args_def p_controller_def controller_new_def behind_def tsf_err_def one_period_def)
  then show ?thesis using r s(3) by (auto simp: sim_args_def)
qed

text \<open>C4: Until the signal the parallel mode makes progress, in a release build, on TSF files whose reads and
  writes succeed and with a sleep that returns and in which the radios tick alike, with proportional
  controllers (no Kalman filter, kp_ppm from 1 to 10^6, a step limit that is not negative) and
  |error| * kp_ppm below 2^63 at the start: in every state that is then reached with RUNNING set
  some thread can move, no thread has panicked, every follower is at least as near to the master
  as it was, and the periods keep pace with the steps: N < 2^64 steps of the threads, in any
  interleaving, are at most eight for each thread in each period and two periods more, so that no schedule
  can postpone a correction.\<close>

theorem parallel_makes_progress:
  assumes "sync_env (a_rd a) (a_wr a) tsf files ok (a_x86_64 a) (a_rt a)" "a_profile a = Release"
    "distinct (a_followers a)" "a_master a \<in> files" "set (a_followers a) \<subseteq> files - {a_master a}" "ok w" "p_controller c"
    "\<forall>f \<in> set (a_followers a). \<bar>tsf_err (tsf (a_master a) w) (tsf f w)\<bar> * sint (kp_ppm c) < 2 ^ 63"
    and "(par_step a ^^ N) (par_init (replicate (length (a_followers a)) c) dl w) s" "N < 2 ^ 64" "p_running s"
  shows "(\<exists>mv s'. mv \<noteq> MoveSignal \<and> move_step a mv s = Some s') \<and>
     p_sampler s \<noteq> SPanicked \<and> list_all (\<lambda>wk. w_pc wk \<noteq> WPanicked) (p_workers s) \<and>
     (\<forall>f \<in> set (a_followers a). \<bar>tsf_err (tsf (a_master a) (p_world s)) (tsf f (p_world s))\<bar> \<le> \<bar>tsf_err (tsf (a_master a) w) (tsf f w)\<bar>) \<and>
     N \<le> 8 * (length (a_followers a) + 1) * (unat (p_cycle s) + 2)"
proof -
  let ?fs = "a_followers a" and ?m = "a_master a"
  let ?e = "\<lambda>i. tsf_err (tsf ?m w) (tsf (?fs ! i) w)"
  obtain k where k: "k \<le> N" "periods_ok tsf ok ?m ?fs c ?e k s"
      "barriers_open (length ?fs) s" "N \<le> par_pos k s"
    using sync_env.par_periods [OF assms(1,9,2) refl refl refl refl refl refl assms(3-8)] assms(11) by blast
  have inv: "par_inv (length ?fs) s" and len: "length (p_workers s) = length ?fs" and wok: "\<forall>i < length ?fs. worker_ok tsf ?m ?fs c ?e k s i"
    using k(2) by (simp_all add: periods_ok_def par_inv_def)
  have cyc: "unat (p_cycle s) = k" using word_of_nat_unat [of k "p_cycle s"] k assms(10) by (simp add: periods_ok_def)
  have "\<forall>i < length ?fs. \<bar>?e i\<bar> * sint (kp_ppm c) < 2 ^ 63" using assms(8) by simp
  then have "(\<exists>s'. move_step a MoveSampler s = Some s') \<or> (\<exists>i s'. move_step a (MoveWorker i) s = Some s')"
    using sync_env.thread_enabled [OF assms(1) k(2) assms(3-5,7) _ assms(11) k(3), of "a_period_ns a" "a_interval a" "a_rms_warn a"]
    by (auto simp: move_step_def assms(2) len intro: exI [where P = "\<lambda>i. i < length ?fs \<and> _ i"])
  then have "\<exists>mv s'. mv \<noteq> MoveSignal \<and> move_step a mv s = Some s'" by blast
  moreover have "\<bar>tsf_err (tsf ?m (p_world s)) (tsf f (p_world s))\<bar> \<le> \<bar>tsf_err (tsf ?m w) (tsf f w)\<bar>" if f: "f \<in> set ?fs" for f
  proof -
    obtain i where "i < length ?fs" "f = ?fs ! i" using f by (metis in_set_conv_nth)
    then show ?thesis using wok next_err_pow_le [OF assms(7)] by (simp add: worker_ok_def)
  qed
  moreover have "N \<le> 8 * (length ?fs + 1) * (k + 2)" using k(4) par_pos_le [of k s] len by simp
  ultimately show ?thesis using k(2) wok len cyc by (simp add: periods_ok_def worker_ok_def list_all_length)
qed

theorem parallel_makes_progress_witness:
  "\<exists>s. (par_step sim_args ^^ length one_period) (par_init [controller_new 1000000 200 False] \<lparr>tv_sec = 0, tv_nsec = 0\<rparr> behind) s \<and>
     (\<exists>mv s'. mv \<noteq> MoveSignal \<and> move_step sim_args mv s = Some s') \<and>
     \<bar>tsf_err (sim_tsf (p_world s) 3) (sim_tsf (p_world s) 5)\<bar> \<le> 5"
proof -
  obtain s where s: "par_run sim_args one_period (par_init [controller_new 1000000 200 False] \<lparr>tv_sec = 0, tv_nsec = 0\<rparr> behind) = Some s"
    "p_running s" by (rule behind_period)
  note r = par_run_relpow [OF s(1)]
  have one: "[controller_new 1000000 200 False] = replicate (length (a_followers sim_args)) (controller_new 1000000 200 False)"
    by (simp add: sim_args_def)
  have env: "sync_env (a_rd sim_args) (a_wr sim_args) (\<lambda>f w. sim_tsf w (file_fd f)) {f. file_fd f \<in> UNIV \<and> pread_ok f} (\<lambda>_. True)
      (a_x86_64 sim_args) (a_rt sim_args)"
    using sim_loop.sync_env_axioms by (simp add: sim_args_def)
  have "(\<exists>mv s'. mv \<noteq> MoveSignal \<and> move_step sim_args mv s = Some s') \<and>
     p_sampler s \<noteq> SPanicked \<and> list_all (\<lambda>wk. w_pc wk \<noteq> WPanicked) (p_workers s) \<and>
     (\<forall>f \<in> set (a_followers sim_args). \<bar>tsf_err (sim_tsf (p_world s) (file_fd (a_master sim_args))) (sim_tsf (p_world s) (file_fd f))\<bar>
        \<le> \<bar>tsf_err (sim_tsf behind (file_fd (a_master sim_args))) (sim_tsf behind (file_fd f))\<bar>) \<and>
     length one_period \<le> 8 * (length (a_followers sim_args) + 1) * (unat (p_cycle s) + 2)"
    by (rule parallel_makes_progress [OF env _ _ _ _ _ _ _ r [unfolded one] _ s(2)])
      (simp_all add: sim_args_def p_controller_def controller_new_def behind_def tsf_err_def one_period_def)
  then show ?thesis using r by (auto simp: sim_args_def behind_def tsf_err_def)
qed

text \<open>C34: The sampler never accumulates statistics: in every reachable state of the parallel mode its
  accumulator is empty and it has logged nothing but failed master reads, so that for every value of the options
  --stats-interval prints no line and --rms-warn never fires, whatever the workers have measured.\<close>

theorem parallel_stats_never_reported:
  assumes "par_reach a (par_init controllers dl w) s"
  shows "p_sampler_stats s = stats_new \<and> list_all (\<lambda>e. \<exists>io. e = MasterReadFailed io) (p_events s)"
proof -
  have "quiet (par_init controllers dl w)" by (simp add: quiet_def par_init_def)
  with assms have "quiet s"
    by (induction rule: rtranclp_induct) (auto intro: par_step_quiet)
  then show ?thesis by (simp add: quiet_def list_all_iff)
qed

text \<open>A period after which the statistics are due, with a worker that has measured an error.\<close>

theorem parallel_stats_never_reported_witness:
  "\<exists>s. par_reach (sim_args\<lparr>a_interval := 1\<rparr>) (par_init [controller_new 1000000 200 False] \<lparr>tv_sec = 0, tv_nsec = 0\<rparr> behind) s \<and>
     p_cycle s = 1 \<and> p_sampler s = STest \<and> ws_n (w_stats (p_workers s ! 0)) = 1 \<and>
     p_sampler_stats s = stats_new \<and> list_all (\<lambda>e. \<exists>io. e = MasterReadFailed io) (p_events s)"
proof -
  obtain s where s: "par_run (sim_args\<lparr>a_interval := 1\<rparr>) one_period
      (par_init [controller_new 1000000 200 False] \<lparr>tv_sec = 0, tv_nsec = 0\<rparr> behind) = Some s"
    "p_sampler s = STest" "p_cycle s = 1" "ws_n (w_stats (p_workers s ! 0)) = 1"
    by (rule behind_period_every)
  note r = par_run_reach [OF s(1)]
  from parallel_stats_never_reported [OF r] r s(2-4) show ?thesis by blast
qed

end
