(* ===== verification/TsfSyncMain.thy ===== *)
theory TsfSyncMain
  imports Daemon
begin

text \<open>
  The command line of tsf-sync (src/main.rs): its commands with their arguments, what each of them
  runs, and the exit code.  Parsing the arguments is the clap library and is not modelled.  The
  outermost \<open>None\<close> is a fuel that did not last, the one inside it a panic.
\<close>

section \<open>Commands\<close>

datatype command =
    Discover
  | Config string "string option"            \<comment> \<open>primary, output\<close>
  | Start string u64 sync_mode u32           \<comment> \<open>primary, adjtime\_threshold\_ns, sync\_mode, sync\_interval\_ms\<close>
  | Status
  | Stop
  | Daemon string string u64 sync_mode u32   \<comment> \<open>primary, interval, then as for Start\<close>

record cli =
  cli_log_level :: string
  cli_linuxptp_path :: string
  cli_command :: command

datatype cli_error =
    DiscoveryE io_error
  | ConfigE config_error
  | IoE io_error
  | TextE string
  | DaemonE daemon_error

definition iouring_missing :: "bool \<Rightarrow> sync_mode \<Rightarrow> bool" where
  "iouring_missing iouring sync_mode \<longleftrightarrow> \<not> iouring \<and> sync_mode = Iouring"

definition run_discover :: "'w host \<Rightarrow> 'w \<Rightarrow> (cli_error + unit) \<times> 'w" where
  "run_discover host w =
     (case discover_cards (h_fs host w) class_dir of
        Inl e \<Rightarrow> (Inl (DiscoveryE e), w)
      | Inr cards \<Rightarrow>
          (Inr (), if cards = [] then print_ln host ''No WiFi cards found.'' w
                   else h_print host (format_table cards) w))"

definition run_config :: "'w host \<Rightarrow> string \<Rightarrow> string option \<Rightarrow> 'w \<Rightarrow> (cli_error + unit) \<times> 'w" where
  "run_config host primary output w =
     (case discover_cards (h_fs host w) class_dir of
        Inl e \<Rightarrow> (Inl (DiscoveryE e), w)
      | Inr cards \<Rightarrow>
          (case generate_config cards primary of
             Inl e \<Rightarrow> (Inl (ConfigE e), w)
           | Inr config \<Rightarrow>
               (case output of
                  Some path \<Rightarrow>
                    (case h_write_file host path config w of
                       (Inl e, w) \<Rightarrow> (Inl (IoE e), w)
                     | (Inr _, w) \<Rightarrow> (Inr (), w))
                | None \<Rightarrow> (Inr (), h_print host config w))))"

text \<open>The loop after a successful start: an hour of sleep each time, for ever.\<close>

fun sleep_for_ever :: "nat \<Rightarrow> 'w host \<Rightarrow> 'w \<Rightarrow> ((cli_error + unit) option \<times> 'w) option" where
  "sleep_for_ever 0 host w = None"
| "sleep_for_ever (Suc n) host w = sleep_for_ever n host (h_sleep host 3600000 w)"

definition run_start ::
    "nat \<Rightarrow> 'w host \<Rightarrow> bool \<Rightarrow> string \<Rightarrow> u64 \<Rightarrow> sync_mode \<Rightarrow> u32 \<Rightarrow> string \<Rightarrow> 'w \<Rightarrow>
     ((cli_error + unit) option \<times> 'w) option" where
  "run_start fuel host iouring primary adjtime_threshold_ns sync_mode sync_interval_ms linuxptp_bin w =
     (if iouring_missing iouring sync_mode
      then Some (Some (Inl (TextE ''iouring sync mode requires --features iouring'')), w)
      else (case start_stack host iouring primary linuxptp_bin adjtime_threshold_ns sync_mode sync_interval_ms w of
              (None, w) \<Rightarrow> Some (None, w)
            | (Some (Inl e), w) \<Rightarrow> Some (Some (Inl (DaemonE e)), w)
            | (Some (Inr _), w) \<Rightarrow> sleep_for_ever fuel host w))"

definition run_daemon_command ::
    "nat \<Rightarrow> profile \<Rightarrow> 'w host \<Rightarrow> bool \<Rightarrow> string \<Rightarrow> string \<Rightarrow> u64 \<Rightarrow> sync_mode \<Rightarrow> u32 \<Rightarrow> string \<Rightarrow> 'w \<Rightarrow>
     ((cli_error + unit) option \<times> 'w) option" where
  "run_daemon_command fuel pr host iouring primary interval adjtime_threshold_ns sync_mode sync_interval_ms linuxptp_bin w =
     (if iouring_missing iouring sync_mode
      then Some (Some (Inl (TextE ''iouring sync mode requires --features iouring'')), w)
      else (case parse_interval pr interval of
              None \<Rightarrow> Some (None, w)
            | Some (Inl e) \<Rightarrow> Some (Some (Inl (TextE (''invalid interval: '' @ e))), w)
            | Some (Inr interval) \<Rightarrow>
                (case run_daemon fuel host iouring primary interval linuxptp_bin adjtime_threshold_ns
                        sync_mode sync_interval_ms w of
                   None \<Rightarrow> None
                 | Some (None, w) \<Rightarrow> Some (None, w)
                 | Some (Some (Inl e), w) \<Rightarrow> Some (Some (Inl (DaemonE e)), w)
                 | Some (Some (Inr _), w) \<Rightarrow> Some (Some (Inr ()), w))))"

definition run_stop :: "'w host \<Rightarrow> 'w \<Rightarrow> (cli_error + unit) \<times> 'w" where
  "run_stop host w =
     (case stop_stack host (Phc2sys []) w of
        (Inl e, _, w) \<Rightarrow> (Inl (DaemonE e), w)
      | (Inr _, _, w) \<Rightarrow> (Inr (), w))"

definition run_command ::
    "nat \<Rightarrow> profile \<Rightarrow> 'w host \<Rightarrow> bool \<Rightarrow> command \<Rightarrow> string \<Rightarrow> 'w \<Rightarrow> ((cli_error + unit) option \<times> 'w) option" where
  "run_command fuel pr host iouring command linuxptp_bin w =
     (case command of
        Discover \<Rightarrow> Some (apfst Some (run_discover host w))
      | Config primary output \<Rightarrow> Some (apfst Some (run_config host primary output w))
      | Start primary threshold sync_mode interval_ms \<Rightarrow>
          run_start fuel host iouring primary threshold sync_mode interval_ms linuxptp_bin w
      | Status \<Rightarrow> Some (Some (Inr ()), status host w)
      | Stop \<Rightarrow> Some (apfst Some (run_stop host w))
      | Daemon primary interval threshold sync_mode interval_ms \<Rightarrow>
          run_daemon_command fuel pr host iouring primary interval threshold sync_mode interval_ms linuxptp_bin w)"

text \<open>The process: exit code 1 for an error, the runtime's 101 for a panic.\<close>

definition tsf_sync_main :: "nat \<Rightarrow> profile \<Rightarrow> 'w host \<Rightarrow> bool \<Rightarrow> cli \<Rightarrow> 'w \<Rightarrow> (nat \<times> 'w) option" where
  "tsf_sync_main fuel pr host iouring cli w =
     (case run_command fuel pr host iouring (cli_command cli) (cli_linuxptp_path cli) w of
        None \<Rightarrow> None
      | Some (r, w) \<Rightarrow> Some (case r of Some (Inr _) \<Rightarrow> 0 | Some (Inl _) \<Rightarrow> 1 | None \<Rightarrow> 101, w))"

section \<open>Lemmas\<close>

lemma sleep_for_ever_None: "sleep_for_ever n host w = None"
  by (induction n arbitrary: w) simp_all

lemma machine_unload_procs: "unload_tsf_ptp machine_host m = (r, m') \<Longrightarrow> mc_procs m' = mc_procs m"
  using machine.is_loaded [of m]
  by (cases "mc_loaded m"; cases "mc_mac80211 m")
    (auto simp: unload_tsf_ptp_def unload_module_def machine_modules_def machine_output_def reply_def Let_def)

section \<open>Properties\<close>

text \<open>The stop command stops no process: its documentation says that it stops ptp4l, but it stops
  the processes of a list that it has just made empty and unloads the module; every process of the
  machine, in whatever state, is in that state afterwards, the module is not loaded, and the exit
  code reports success.\<close>

theorem stop_command_stops_no_process:
  "\<exists>m'. tsf_sync_main fuel pr machine_host iouring \<lparr>cli_log_level = lv, cli_linuxptp_path = bin, cli_command = Stop\<rparr> m
       = Some (0, m') \<and> mc_procs m' = mc_procs m \<and> ''tsf_ptp'' \<notin> machine_modules m'"
proof -
  obtain m' where m': "unload_tsf_ptp machine_host m = (Inr (), m')" using machine_unload by blast
  then have "run_stop machine_host m = (Inr (), m')"
    by (simp add: run_stop_def stop_stack_def stop_sync_def)
  then show ?thesis
    using machine_unload_procs [OF m'] machine.unload_loaded [OF m']
    by (simp add: tsf_sync_main_def run_command_def)
qed

text \<open>The start command never succeeds: it ends with an error or a panic or runs for ever, since a
  successful start is followed by a loop without an end, so that no exit code 0 is possible.\<close>

theorem start_command_never_returns_ok:
  "tsf_sync_main fuel pr host iouring \<lparr>cli_log_level = lv, cli_linuxptp_path = bin, cli_command = Start primary thr mode ms\<rparr> w
     \<noteq> Some (0, w')"
  by (auto simp: tsf_sync_main_def run_command_def run_start_def sleep_for_ever_None
      split: option.splits sum.splits prod.splits if_splits)

end
