(* ===== verification/Spec2Isabelle.thy ===== *)
theory Spec2Isabelle
  imports DaemonTests DebugfsMain DebugfsTests KernelModes KernelModule KernelPrimary KernelLocks KernelParams Latency LowLevel ParallelShutdown ParallelSync TsfSyncMain
begin

text \<open>
  A model of tsf-sync, which keeps the TSF clocks of several WiFi cards of one machine together.

  The program has two binaries.  \<open>tsf-sync-debugfs\<close> (src/bin/tsf\_sync\_debugfs/) reads the TSF of
  a master card from a debugfs file in every period and corrects the files of its followers, in
  one thread or with one worker thread for each follower.  \<open>tsf-sync\<close> (src/main.rs and the modules
  beside it) discovers the cards, loads the kernel module tsf\_ptp, and synchronises in one of three
  modes: A, a phc2sys process for each secondary card; B, a loop in the kernel module; C, a thread
  that exchanges packed records with /dev/tsf\_sync through io\_uring.  The kernel module
  (src/kernel/) gives every card a PTP clock, runs the loop of mode B and serves /dev/tsf\_sync.

  Theories, and the code they model:

  Prelude: machine integers with the overflow behaviour of the two build profiles (an overflow
  panics, \<open>None\<close>, in the debug build and wraps around in the release build), byte lists, lemmas.
  F64: binary64 arithmetic as exact rationals rounded to 53 bits.
  Os: the system calls of the tools as a record of operations on the state of the world.

  The debugfs tool.  Hex (asm/hex.rs): the scalar hex parser, the SSSE3 pipeline lane by lane and
  the dispatcher.  Debugfs (debugfs.rs): the TSF files with their pread and lseek paths and the
  decimal formatter.  Rt (rt.rs): set-up, deadlines, sleeping.  Control (control.rs): the
  proportional controller, its clamp and the Kalman filter.  Stats (stats.rs): the Welford
  accumulator.  Threading (threading.rs): the single-threaded loop and the correction of one
  follower.  Parallel (threading.rs): sampler, workers, barriers and the signal as a step relation
  with reachability.  ParallelSync: what the parallel mode computes and that it goes on until the signal.
  ParallelShutdown: what a signal between the barriers does.
  Latency: the single-threaded loop on radios that run on while its system calls take their time.  LowLevel (asm/syscall.rs, signal.rs): the registers of the inline assembly and
  the handlers of the RUNNING flag.  DebugfsMain (main.rs, cli.rs): from the arguments to the loops.

  The daemon.  SyncMode (sync\_mode.rs): the modes and the packed records.  Iouring
  (iouring\_sync.rs): one cycle of mode C, its loop, and the search for the primary.
  Strings: the string, number and path functions of the Rust library that the rest uses.  Host: the
  system under the tool.  Discovery (discovery.rs), ConfigGen (config\_gen.rs), Health (health.rs),
  ModuleLoader (module\_loader.rs), Ptp4l (ptp4l.rs): as their names say.  Signals and Daemon
  (daemon.rs): the handler, start, stop, status and the monitoring loop.  TsfSyncMain (main.rs): the
  commands and the exit code.  The property that spans discovery, configuration and command line is
  in this theory.

  The kernel module (src/kernel/tsf\_ptp.c).  KernelCard: its state, the driver operations and the PTP
  clock of a card.  KernelSync: the delayed work of mode B.  Chardev: the two handlers of
  /dev/tsf\_sync, the other side of mode C's contract.  KernelNet: probing, the notifier of net
  devices, loading and unloading.  KernelModule: the loaded module as a step relation.  KernelLocks:
  the lock calls of the handlers and their interleavings.  KernelModes and KernelPrimary: modes B
  and C over the same cards, and which card each takes for the primary.  KernelParams: the module
  parameters, from the arguments that the daemon gives to modprobe to the first cycle of the loop.

  The unit tests.  DebugfsTests, DiscoveryTests and DaemonTests run the repository's own unit tests on
  the model: every test is a definition, its assertions one conjunction, and is proved to pass.

  Interfaces.  In Debugfs the locale \<open>tsf_port\<close> is the contract of a TSF file; \<open>debugfs_pread\<close> and
  \<open>debugfs_seek\<close> give it by sublocales from the laws of the system calls, and Threading's \<open>sync_env\<close>
  extends it by a sleep in which all radios run on; in Latency \<open>late_port\<close> and \<open>late_env\<close> are the same contracts
  for calls that take time, of which the former are, by sublocales, the case of no time.  In F64 \<open>rounding\<close> holds what the
  statistics need of a rounding.  In KernelCard \<open>tsf_driver\<close> is what a WiFi driver promises of get\_tsf
  and set\_tsf; Chardev extends it to \<open>tsf_kernel\<close>, a kernel that has memory, and shows by a sublocale
  that the handlers of the module then give \<open>tsf_device\<close>, what mode C asks of /dev/tsf\_sync.
  In KernelParams \<open>uint_params\<close> is what the kernel's conversion of a numeric parameter promises.  Ptp4l has \<open>process_table\<close> (what the operations on child
  processes do to the processes that are alive), ModuleLoader \<open>kernel_modules\<close> (what modprobe, which may
  load dependencies, insmod and rmmod do to the list in /proc/modules), and Daemon their extension \<open>daemon_env\<close>.  The lemmas of
  these three are about the code's own stop, drop, load, unload, start and run, and hold for every
  host that keeps the laws; theory Machine interprets them on a machine with cards, processes that
  take time to end and a SIGTERM at a given time, on which the witnesses run.

  Correspondence.  Every function keeps the name of the Rust function (or says in the manifest which
  part of it it is); structures are records, enumerations datatypes, errors the left side of a sum,
  a panic \<open>None\<close>.  System calls, files, commands, processes, threads and the io\_uring crate are
  fields of the records \<open>tsf_sys\<close>, \<open>rt_sys\<close>, \<open>uring\<close>, \<open>fs\<close>, \<open>kapi\<close> and \<open>host\<close>; they take the state of the world
  and return its next state, so the order of the effects is that of the code.  A text is its list
  of UTF-8 bytes.  A file system is read at one moment in each scan.

  What is shown.  Parsers and printers: the SSSE3 pipeline and the scalar parser give the same value
  on every 16-digit input, the dispatcher does not depend on the CPU, values written are read back,
  the generated ptp4l configuration read by its format has one section for each clock and one
  server, and a report of pmc is read port by port.  Control: the step has the right sign and bound,
  the Kalman filter stays between its inputs, the reported RMS within the spread of the errors, the
  single loop converges and ends after the signal; if its calls take time, it leaves each follower behind by the time between its read of the master and its write.
  Concurrency: workers only use the published TSF; a period of the parallel mode has in every
  interleaving the effect of a cycle of the single loop, and N steps are at most eight for each thread and period; a shutdown from the idle state
  ends, and a signal between the barriers blocks the tool for ever, whatever the threads do; the handlers of the kernel module end in every interleaving, as they take the locks in one
  order, as long as no caller of the notifier holds the lock of a wiphy; with a caller that registers or
  unregisters a device, and holds it, they can block each other.  Modes B and C: a cycle
  moves to the TSF of the primary exactly the cards that reach (B) or exceed (C) the threshold, and
  the two agree but for cards at the threshold; both search the primary by name alike, but mode C keeps its
  position.  A primary named on the command line is the one that the loop of mode B follows; with
  auto the daemon and the module choose each for itself.  The module: its cards follow the net devices, with one clock for each, and unloading
  leaves nothing behind as long as sync\_mode is not written.
  Discovery: a sorted permutation of the phy entries, well formed.  Daemon: mode A starts one
  phc2sys for each secondary, a stop ends a process in five seconds, whatever happens no process is
  left behind, and after a successful end the module is gone; loading and unloading refine the set
  of modules.  Errors: the properties that state what goes wrong say where the code does not do
  what it means to; the findings of the manifest list them.

  Fuel and bounds.  \<open>daemon_loop\<close> takes a fuel that counts rounds, and is shown to return for every fuel
  that exceeds the round at which the flag is found clear.  \<open>single_loop\<close> and \<open>iouring_run\<close> are partial
  functions; the single loop is shown to return when the flag is found clear.  \<open>sleep_for_ever\<close>
  has no sufficient fuel, which is what the code means.  The
  polls of a stop are the fifty of the code.

  Not modelled: log output (tracing), the parsing of arguments (clap) and the text of help messages;
  the start of the reader threads of a child's output, of which only the lines they forward are;
  the window between two system calls of a directory scan; the unit tests of the clock and of the
  raw system calls, which test the kernel, the benchmarks, which repeat the hot path for timing, and the
  integration tests; of the kernel module the log lines,
  the counters in sysfs, and the waiting of cancel\_delayed\_work\_sync and ptp\_clock\_unregister for
  running users; the Nix files, scripts and patches, which hold no logic of the tools.
\<close>

section \<open>From the directory to the configuration\<close>

lemma discovered_phys:
  "discover_cards fs dir = Inr cards \<Longrightarrow> fs_read_dir fs dir = Inr (map Inr names) \<Longrightarrow>
   mset (map wc_phy cards) = mset (filter (starts_with ''phy'') names)"
  using discover_cards_listed [of fs dir names] by (auto simp: multiset.map_comp comp_def)

text \<open>C15: The config command describes the machine: when the directory lists distinct entries and the
  command succeeds, it has printed one text and done nothing else, and that text, read back by the
  rules of the format, has the global section first, then exactly one section for the clock of every
  phy entry that has one, and serverOnly in the first of them and in no other, whose sections have no option.
  docs/ptp-topology.md and tests/integration/hwsim\_test.rs still expect masterOnly for the primary and slaveOnly for
  every other clock; the code and its unit tests have serverOnly.\<close>

theorem config_command_describes_cards:
  assumes dir: "fs_read_dir (h_fs host w) class_dir = Inr (map Inr names)" "distinct names"
    and printable: "\<forall>n \<in> set names. card_printable (make_card (h_fs host w) class_dir n)"
    and run: "run_config host primary None w = (Inr (), w')"
  shows "\<exists>cfg first rest. w' = h_print host cfg w \<and>
     read_config (str_lines cfg) [] = global_section # (first, [[''serverOnly'', ''1'']]) # map (\<lambda>c. (c, [])) rest \<and>
     mset (first # rest) =
       mset (map (the \<circ> wc_ptp_clock) (cards_with_clock
         (map (make_card (h_fs host w) class_dir) (filter (starts_with ''phy'') names))))"
proof -
  define cards where
    "cards = sort_key (\<lambda>c. natural_sort_key (wc_phy c)) (map (make_card (h_fs host w) class_dir) (filter (starts_with ''phy'') names))"
  have disc: "discover_cards (h_fs host w) class_dir = Inr cards"
    unfolding cards_def by (rule discover_cards_listed [OF dir(1)])
  obtain cfg where cfg: "generate_config cards primary = Inr cfg" "w' = h_print host cfg w"
    using run by (auto simp: run_config_def disc split: sum.splits)
  obtain p where p: "select_primary (cards_with_clock cards) primary = Inr p" "cfg = config_text p (cards_with_clock cards)"
    using cfg(1) by (rule generate_config_primary)
  have "mset (map wc_phy cards) = mset (filter (starts_with ''phy'') names)" using discovered_phys [OF disc dir(1)] .
  then have "distinct (map wc_phy cards)" using dir(2) by (metis distinct_filter mset_eq_imp_distinct_iff)
  moreover have "\<forall>c \<in> set (cards_with_clock cards). card_printable c"
    using printable by (auto simp: cards_def cards_with_clock_def)
  ultimately obtain q us vs where q: "cards_with_clock cards = us @ q # vs"
    "read_config (str_lines cfg) [] = global_section # (the (wc_ptp_clock q), [[''serverOnly'', ''1'']]) #
       map (\<lambda>c. (the (wc_ptp_clock c), [])) (us @ vs)"
    using config_text_sections [OF p(1) _ with_clock_distinct] p(2) by blast
  have "mset (cards_with_clock cards) =
      mset (cards_with_clock (map (make_card (h_fs host w) class_dir) (filter (starts_with ''phy'') names)))"
    by (simp add: cards_def cards_with_clock_def)
  then have "mset (map (the \<circ> wc_ptp_clock) (us @ q # vs)) =
      mset (map (the \<circ> wc_ptp_clock) (cards_with_clock (map (make_card (h_fs host w) class_dir) (filter (starts_with ''phy'') names))))"
    unfolding q(1) by (metis mset_map)
  then show ?thesis
    using cfg(2) q(2)
    by (intro exI [of _ cfg] exI [of _ "the (wc_ptp_clock q)"] exI [of _ "map (the \<circ> wc_ptp_clock) (us @ vs)"])
      (simp add: comp_def)
qed

theorem config_command_describes_cards_witness:
  "\<exists>m' cfg first rest. run_config machine_host ''auto'' None machine_example = (Inr (), m') \<and>
     m' = machine_example\<lparr>mc_out := cfg\<rparr> \<and>
     read_config (str_lines cfg) [] = global_section # (first, [[''serverOnly'', ''1'']]) # map (\<lambda>c. (c, [])) rest \<and>
     mset (first # rest) = {#''/dev/ptp0'', ''/dev/ptp1''#}"
proof -
  define cards where "cards = [native_card ''phy0'' ''/dev/ptp0'', native_card ''phy1'' ''/dev/ptp1'']"
  have disc: "discover_cards (machine_fs machine_example) class_dir = Inr cards"
    unfolding cards_def by (rule example_discovered) simp
  have dir: "fs_read_dir (h_fs machine_host machine_example) class_dir = Inr (map Inr [''phy0'', ''phy1''])"
    by (simp add: machine_fs_def machine_example_def)
  have made: "make_card (machine_fs machine_example) class_dir ''phy0'' = native_card ''phy0'' ''/dev/ptp0''"
    "make_card (machine_fs machine_example) class_dir ''phy1'' = native_card ''phy1'' ''/dev/ptp1''"
    using example_cards [of machine_example] by simp_all
  have printable: "\<forall>n \<in> set [''phy0'', ''phy1'']. card_printable (make_card (h_fs machine_host machine_example) class_dir n)"
    by (simp add: made card_printable_def printable_def native_card_def newline_def)
  have "\<exists>m'. run_config machine_host ''auto'' None machine_example = (Inr (), m')"
    by (simp add: run_config_def disc) (simp add: cards_def generate_config_def cards_with_clock_def select_primary_def native_card_def)
  then obtain m' where run: "run_config machine_host ''auto'' None machine_example = (Inr (), m')" by blast
  obtain cfg first rest where out: "m' = h_print machine_host cfg machine_example"
    "read_config (str_lines cfg) [] = global_section # (first, [[''serverOnly'', ''1'']]) # map (\<lambda>c. (c, [])) rest"
    "mset (first # rest) = mset (map (the \<circ> wc_ptp_clock) (cards_with_clock
         (map (make_card (h_fs machine_host machine_example) class_dir) (filter (starts_with ''phy'') [''phy0'', ''phy1'']))))"
    using config_command_describes_cards [OF dir _ printable run] by auto
  have "mset (first # rest) = {#''/dev/ptp0'', ''/dev/ptp1''#}"
    unfolding out(3) by (simp add: made starts_with_def cards_with_clock_def) (simp add: native_card_def)
  moreover have "m' = machine_example\<lparr>mc_out := cfg\<rparr>" using out(1) by (simp add: machine_host_def machine_example_def)
  ultimately show ?thesis using run out(2) by blast
qed

end
